(* ===== verification/Prelude.thy ===== *)
theory Prelude
  imports Main "HOL-Library.Multiset" "HOL-Library.Word" "HOL-Library.Code_Target_Nat"
begin

text \<open>
  Shared vocabulary of the development: the parts of the Rust language and standard library
  that the crate uses in several modules (\<open>Ordering\<close>, lexicographic slice comparison,
  saturating \<open>usize\<close> arithmetic, \<open>Result\<close> as a sum, \<open>BinaryHeap\<close>, \<open>sort_unstable_by\<close>), the contract of
  Rust's \<open>Ord\<close> as the locale \<open>rust_ord\<close> with the lemmas every client of an ordered type shares,
  and generic list and multiset facts.
\<close>

unbundle bit_operations_syntax

named_theorems ord_simps \<open>equations of the comparison functions\<close>
named_theorems queue_simps \<open>equations of the queue operations\<close>

section \<open>Machine integers and results\<close>

text \<open>
  A \<open>usize\<close> that counts elements of a collection, a depth or a scheduling weight is a natural
  number; where the source saturates, the bound is written out. Counters the source wraps are
  \<^typ>\<open>64 word\<close>.
\<close>

type_synonym usize = nat
type_synonym u8 = "8 word"
type_synonym u16 = "16 word"
type_synonym u32 = "32 word"
type_synonym u64 = "64 word"
type_synonym os_string = "u8 list"
type_synonym path = "u8 list"

definition usize_MAX :: usize where
  "usize_MAX = 2 ^ 64 - 1"

definition usize_saturating_add :: "usize \<Rightarrow> usize \<Rightarrow> usize" where
  "usize_saturating_add a b = min (a + b) usize_MAX"

lemma usize_saturating_add_le: "usize_saturating_add a b \<le> usize_MAX"
  by (simp add: usize_saturating_add_def)

lemma usize_saturating_add_exact:
  "a + b \<le> usize_MAX \<Longrightarrow> usize_saturating_add a b = a + b"
  by (simp add: usize_saturating_add_def)

lemma usize_saturating_add_mono:
  "a \<le> usize_MAX \<Longrightarrow> a \<le> usize_saturating_add a b"
  by (simp add: usize_saturating_add_def)

text \<open>\<open>Result<T, E>\<close> is \<open>'e + 'a\<close>, \<open>Inl\<close> the error; \<open>Result::ok\<close> forgets the error.\<close>

fun result_ok :: "'e + 'a \<Rightarrow> 'a option" where
  "result_ok (Inl e) = None"
| "result_ok (Inr a) = Some a"

fun result_map_err :: "('e \<Rightarrow> 'f) \<Rightarrow> 'e + 'a \<Rightarrow> 'f + 'a" where
  "result_map_err f (Inl e) = Inl (f e)"
| "result_map_err f (Inr a) = Inr a"

lemma result_ok_Some_iff [simp]: "result_ok r = Some a \<longleftrightarrow> r = Inr a"
  by (cases r) auto

lemma result_ok_None_iff [simp]: "result_ok r = None \<longleftrightarrow> (\<exists>e. r = Inl e)"
  by (cases r) auto

section \<open>Comparison\<close>

datatype ordering = Less | Equal | Greater

fun ordering_reverse :: "ordering \<Rightarrow> ordering" where
  "ordering_reverse Less = Greater"
| "ordering_reverse Equal = Equal"
| "ordering_reverse Greater = Less"

definition cmp_nat :: "nat \<Rightarrow> nat \<Rightarrow> ordering" where
  "cmp_nat a b = (if a < b then Less else if a = b then Equal else Greater)"

text \<open>Slices compare element by element, a proper prefix being smaller.\<close>

fun cmp_slice :: "('a \<Rightarrow> 'a \<Rightarrow> ordering) \<Rightarrow> 'a list \<Rightarrow> 'a list \<Rightarrow> ordering" where
  "cmp_slice c [] [] = Equal"
| "cmp_slice c [] (y # ys) = Less"
| "cmp_slice c (x # xs) [] = Greater"
| "cmp_slice c (x # xs) (y # ys) =
     (case c x y of Equal \<Rightarrow> cmp_slice c xs ys | ord \<Rightarrow> ord)"

text \<open>The contract of \<open>std::cmp::Ord\<close> (a total preorder with \<open>Equal\<close> as its equivalence).\<close>

locale rust_ord =
  fixes cmp :: "'a \<Rightarrow> 'a \<Rightarrow> ordering"
  assumes cmp_flip: "cmp y x = ordering_reverse (cmp x y)"
    and cmp_trans: "cmp x y \<noteq> Greater \<Longrightarrow> cmp y z \<noteq> Greater \<Longrightarrow> cmp x z \<noteq> Greater"
begin

lemma cmp_refl: "cmp x x = Equal"
  using cmp_flip [of x x] by (cases "cmp x x") auto

lemma cmp_total: "cmp x y \<noteq> Greater \<or> cmp y x \<noteq> Greater"
  using cmp_flip [of y x] by (cases "cmp x y") auto

lemma cmp_Greater_iff: "cmp x y = Greater \<longleftrightarrow> cmp y x = Less"
  using cmp_flip [of y x] by (cases "cmp x y") auto

lemma cmp_Less_le: "cmp x y = Less \<Longrightarrow> cmp y x = Greater"
  using cmp_flip [of y x] by simp

lemma cmp_less_le_trans: "cmp x y = Less \<Longrightarrow> cmp y z \<noteq> Greater \<Longrightarrow> cmp x z = Less"
proof -
  assume xy: "cmp x y = Less" and yz: "cmp y z \<noteq> Greater"
  show "cmp x z = Less"
  proof (cases "cmp z x \<noteq> Greater")
    case True
    with yz have "cmp y x \<noteq> Greater" by (rule cmp_trans)
    with xy show ?thesis by (simp add: cmp_Less_le)
  next
    case False
    then show ?thesis by (simp add: cmp_Greater_iff)
  qed
qed

lemma cmp_Equal_left: "cmp x y = Equal \<Longrightarrow> cmp x z = cmp y z"
proof -
  assume eq: "cmp x y = Equal"
  then have eq': "cmp y x = Equal" using cmp_flip [of y x] by simp
  have A: "cmp u z = Less \<Longrightarrow> cmp v u = Equal \<Longrightarrow> cmp v z \<noteq> Greater" for u v
    using cmp_trans [of v u z] by simp
  have B: "cmp u z = Equal \<Longrightarrow> cmp v u = Equal \<Longrightarrow> cmp v z \<noteq> Greater" for u v
    using cmp_trans [of v u z] by simp
  have C: "cmp u z \<noteq> Less \<Longrightarrow> cmp v u = Equal \<Longrightarrow> cmp v z \<noteq> Less" for u v
  proof -
    assume "cmp u z \<noteq> Less" "cmp v u = Equal"
    then have "cmp z u \<noteq> Greater" "cmp u v \<noteq> Greater"
      using cmp_flip [of z u] cmp_flip [of v u] by (cases "cmp u z"; auto)+
    then have "cmp z v \<noteq> Greater" by (rule cmp_trans)
    then show ?thesis using cmp_flip [of z v] by auto
  qed
  show ?thesis
    using A [of x y] B [of x y] C [of x y] A [of y x] B [of y x] C [of y x] eq eq'
    by (cases "cmp x z"; cases "cmp y z") auto
qed

end

lemma cmp_nat_simps [ord_simps]:
  "cmp_nat a b = Less \<longleftrightarrow> a < b"
  "cmp_nat a b = Equal \<longleftrightarrow> a = b"
  "cmp_nat a b = Greater \<longleftrightarrow> b < a"
  by (auto simp: cmp_nat_def)

interpretation nat_ord: rust_ord cmp_nat
  by unfold_locales (auto simp: cmp_nat_def split: if_splits)

text \<open>A lexicographic comparison inherits the contract from its element comparison.\<close>

context rust_ord
begin

lemma cmp_slice_flip: "cmp_slice cmp ys xs = ordering_reverse (cmp_slice cmp xs ys)"
proof (induction xs ys rule: list_induct2')
  case (4 x xs y ys)
  then show ?case using cmp_flip [of y x] by (cases "cmp x y") auto
qed simp_all

lemma cmp_slice_trans:
  "cmp_slice cmp xs ys \<noteq> Greater \<Longrightarrow> cmp_slice cmp ys zs \<noteq> Greater \<Longrightarrow>
   cmp_slice cmp xs zs \<noteq> Greater"
proof (induction xs arbitrary: ys zs)
  case Nil
  then show ?case by (cases zs) auto
next
  case (Cons x xs)
  from Cons.prems obtain y ys' z zs' where [simp]: "ys = y # ys'" "zs = z # zs'"
    by (cases ys; cases zs) auto
  show ?case
  proof (cases "cmp x y")
    case Less
    moreover from Cons.prems have "cmp y z \<noteq> Greater" by auto
    ultimately show ?thesis using cmp_less_le_trans [of x y z] by simp
  next
    case Equal
    then show ?thesis using Cons cmp_Equal_left [of x y z] by (cases "cmp y z") auto
  next
    case Greater
    with Cons.prems show ?thesis by simp
  qed
qed

end

lemma rust_ord_slice: "rust_ord c \<Longrightarrow> rust_ord (cmp_slice c)"
  by (rule rust_ord.intro) (auto intro: rust_ord.cmp_slice_flip dest: rust_ord.cmp_slice_trans)

lemma rust_ord_reverse: "rust_ord c \<Longrightarrow> rust_ord (\<lambda>x y. c y x)"
  by (rule rust_ord.intro) (metis rust_ord.cmp_flip, metis rust_ord.cmp_trans)

interpretation slice_ord: rust_ord "cmp_slice cmp_nat"
  by (rule rust_ord_slice) (rule nat_ord.rust_ord_axioms)

lemma cmp_slice_nat_Equal [ord_simps]: "cmp_slice cmp_nat xs ys = Equal \<longleftrightarrow> xs = ys"
  by (induction xs ys rule: list_induct2') (auto simp: ord_simps split: ordering.split)

lemma cmp_slice_nat_prefix: "cmp_slice cmp_nat xs (xs @ y # ys) = Less"
  by (induction xs) (auto simp: cmp_nat_def)

lemma cmp_slice_nat_diverge: "i < j \<Longrightarrow> cmp_slice cmp_nat (xs @ i # ys) (xs @ j # zs) = Less"
  by (induction xs) (auto simp: cmp_nat_def)

section \<open>\<open>std::collections::BinaryHeap\<close>\<close>

text \<open>
  A max-heap is the list of its elements; \<open>pop\<close> takes a maximal element out. Which of several
  elements that compare \<open>Equal\<close> comes first is unspecified in Rust and fixed here; the
  statements about the queues do not depend on it because the crate's keys are distinct.
\<close>

definition heap_push :: "'a \<Rightarrow> 'a list \<Rightarrow> 'a list" where
  "heap_push x h = x # h"

fun heap_pop :: "('a \<Rightarrow> 'a \<Rightarrow> ordering) \<Rightarrow> 'a list \<Rightarrow> ('a \<times> 'a list) option" where
  "heap_pop cmp [] = None"
| "heap_pop cmp (x # h) =
     (case heap_pop cmp h of
        None \<Rightarrow> Some (x, [])
      | Some (m, rest) \<Rightarrow> if cmp x m = Greater then Some (x, h) else Some (m, x # rest))"

definition heap_peek :: "('a \<Rightarrow> 'a \<Rightarrow> ordering) \<Rightarrow> 'a list \<Rightarrow> 'a option" where
  "heap_peek cmp h = map_option fst (heap_pop cmp h)"

lemma mset_heap_push [queue_simps]: "mset (heap_push x h) = add_mset x (mset h)"
  by (simp add: heap_push_def)

lemma heap_pop_None_iff [queue_simps]: "heap_pop cmp h = None \<longleftrightarrow> h = []"
  by (cases h) (auto split: option.splits)

lemma heap_peek_None_iff [queue_simps]: "heap_peek cmp h = None \<longleftrightarrow> h = []"
  by (simp add: heap_peek_def heap_pop_None_iff)

lemma heap_pop_mset: "heap_pop cmp h = Some (m, rest) \<Longrightarrow> mset h = add_mset m (mset rest)"
proof (induction h arbitrary: m rest)
  case (Cons x h)
  show ?case
  proof (cases "heap_pop cmp h")
    case None
    with Cons.prems show ?thesis by (simp add: heap_pop_None_iff)
  next
    case (Some p)
    with Cons show ?thesis by (cases p) (auto split: if_splits)
  qed
qed simp

lemma heap_pop_in_set: "heap_pop cmp h = Some (m, rest) \<Longrightarrow> m \<in> set h"
  by (metis heap_pop_mset set_mset_mset union_single_eq_member)

lemma heap_pop_length: "heap_pop cmp h = Some (m, rest) \<Longrightarrow> length h = Suc (length rest)"
  by (metis heap_pop_mset size_add_mset size_mset)

lemma heap_peek_pop: "heap_peek cmp h = Some m \<Longrightarrow> \<exists>rest. heap_pop cmp h = Some (m, rest)"
  by (auto simp: heap_peek_def)

context rust_ord
begin

text \<open>The defining law of the max-heap: what comes out is maximal.\<close>

lemma heap_pop_max: "heap_pop cmp h = Some (m, rest) \<Longrightarrow> y \<in> set h \<Longrightarrow> cmp y m \<noteq> Greater"
proof (induction h arbitrary: m rest y)
  case Nil
  then show ?case by simp
next
  case (Cons x h)
  show ?case
  proof (cases "heap_pop cmp h")
    case None
    then have "h = []" by (simp add: heap_pop_None_iff)
    with Cons.prems None show ?thesis by (simp add: cmp_refl)
  next
    case (Some p)
    then obtain m' rest' where p: "heap_pop cmp h = Some (m', rest')" by (cases p) auto
    have old: "\<And>z. z \<in> set h \<Longrightarrow> cmp z m' \<noteq> Greater" using Cons.IH p by blast
    show ?thesis
    proof (cases "cmp x m' = Greater")
      case True
      then have "cmp m' x \<noteq> Greater" using cmp_Greater_iff by simp
      with Cons.prems p True old show ?thesis
        by (auto simp: cmp_refl dest: cmp_trans)
    next
      case False
      with Cons.prems p old show ?thesis by auto
    qed
  qed
qed

text \<open>
  With a strict maximum in the heap, \<open>peek\<close> and \<open>pop\<close> are determined: the lemma the queue
  iterators rest on.
\<close>

lemma heap_pop_unique:
  assumes "m \<in> set h" and "\<And>y. y \<in> set h \<Longrightarrow> y \<noteq> m \<Longrightarrow> cmp y m = Less"
  shows "\<exists>rest. heap_pop cmp h = Some (m, rest)"
proof -
  from assms(1) obtain m' rest where pop: "heap_pop cmp h = Some (m', rest)"
    by (cases "heap_pop cmp h") (auto simp: heap_pop_None_iff)
  have "m' \<in> set h" using pop by (rule heap_pop_in_set)
  moreover have "cmp m m' \<noteq> Greater" using pop assms(1) by (rule heap_pop_max)
  ultimately have "m' = m" using assms(2) cmp_Greater_iff by auto
  with pop show ?thesis by blast
qed

lemma heap_peek_unique:
  assumes "m \<in> set h" and "\<And>y. y \<in> set h \<Longrightarrow> y \<noteq> m \<Longrightarrow> cmp y m = Less"
  shows "heap_peek cmp h = Some m"
  using heap_pop_unique [OF assms] by (auto simp: heap_peek_def)

end

section \<open>\<open>slice::sort_unstable_by\<close>\<close>

text \<open>
  Sorting by a comparison function. The standard library promises a sorted permutation; the
  order among elements that compare \<open>Equal\<close> is not promised, so the lemmas used by clients are
  only these two.
\<close>

fun sort_insert :: "('a \<Rightarrow> 'a \<Rightarrow> ordering) \<Rightarrow> 'a \<Rightarrow> 'a list \<Rightarrow> 'a list" where
  "sort_insert cmp x [] = [x]"
| "sort_insert cmp x (y # ys) =
     (if cmp x y = Greater then y # sort_insert cmp x ys else x # y # ys)"

fun sort_unstable_by :: "('a \<Rightarrow> 'a \<Rightarrow> ordering) \<Rightarrow> 'a list \<Rightarrow> 'a list" where
  "sort_unstable_by cmp [] = []"
| "sort_unstable_by cmp (x # xs) = sort_insert cmp x (sort_unstable_by cmp xs)"

lemma mset_sort_insert: "mset (sort_insert cmp x ys) = add_mset x (mset ys)"
  by (induction ys) auto

lemma mset_sort_unstable_by [simp]: "mset (sort_unstable_by cmp xs) = mset xs"
  by (induction xs) (auto simp: mset_sort_insert)

lemma set_sort_unstable_by [simp]: "set (sort_unstable_by cmp xs) = set xs"
  by (metis mset_sort_unstable_by set_mset_mset)

context rust_ord
begin

lemma sorted_sort_insert:
  "sorted_wrt (\<lambda>a b. cmp a b \<noteq> Greater) ys \<Longrightarrow>
   sorted_wrt (\<lambda>a b. cmp a b \<noteq> Greater) (sort_insert cmp x ys)"
proof (induction ys)
  case (Cons y ys)
  have set_ins: "set (sort_insert cmp x ys) = insert x (set ys)"
    by (metis mset_sort_insert set_mset_add_mset_insert set_mset_mset)
  show ?case
  proof (cases "cmp x y = Greater")
    case True
    then have "cmp y x \<noteq> Greater" by (simp add: cmp_Greater_iff)
    with True Cons set_ins show ?thesis by auto
  next
    case False
    with Cons.prems show ?thesis by (auto dest: cmp_trans)
  qed
qed simp

lemma sorted_sort_unstable_by:
  "sorted_wrt (\<lambda>a b. cmp a b \<noteq> Greater) (sort_unstable_by cmp xs)"
  by (induction xs) (auto intro: sorted_sort_insert)

end

end
