(* ===== verification/Errors.thy ===== *)
theory Errors
  imports Prelude
begin

text \<open>
  \<open>core/error.rs\<close> and the retry loop of \<open>lib.rs\<close>: the error of a walk as a value, its accessors
  and conversions, the classification of transient I/O errors, and \<open>retry_transient_io\<close>.
\<close>

section \<open>Errors\<close>

text \<open>
  \<open>std::io::ErrorKind\<close>: the kinds the crate names; every other kind is \<open>UnnamedKind\<close>. An
  \<open>io::Error\<close> carries an operating system code, a message, or a wrapped error.
\<close>

datatype error_kind = TimedOut | Interrupted | WouldBlock | ConnectionReset | ConnectionAborted
  | InvalidInput | OtherKind | UnnamedKind nat

datatype error = Error (error_depth: usize) (error_inner: error_inner)
  and error_inner = Io "path option" io_error | Loop path path | ThreadpoolBusy
  and io_error = OsError int error_kind | MsgError error_kind string | WrapError error_kind error

fun raw_os_error :: "io_error \<Rightarrow> int option" where
  "raw_os_error (OsError code k) = Some code"
| "raw_os_error (MsgError k m) = None"
| "raw_os_error (WrapError k e) = None"

fun io_error_kind :: "io_error \<Rightarrow> error_kind" where
  "io_error_kind (OsError code k) = k"
| "io_error_kind (MsgError k m) = k"
| "io_error_kind (WrapError k e) = k"

definition error_path :: "error \<Rightarrow> path option" where
  "error_path self =
     (case error_inner self of
        ThreadpoolBusy \<Rightarrow> None
      | Io None _ \<Rightarrow> None
      | Io (Some p) _ \<Rightarrow> Some p
      | Loop ancestor child \<Rightarrow> Some child)"

definition loop_ancestor :: "error \<Rightarrow> path option" where
  "loop_ancestor self = (case error_inner self of Loop ancestor child \<Rightarrow> Some ancestor | _ \<Rightarrow> None)"

definition error_io_error :: "error \<Rightarrow> io_error option" where
  "error_io_error self = (case error_inner self of Io _ err \<Rightarrow> Some err | _ \<Rightarrow> None)"

definition is_busy :: "error \<Rightarrow> bool" where
  "is_busy self = (case error_inner self of ThreadpoolBusy \<Rightarrow> True | _ \<Rightarrow> False)"

definition into_io_error :: "error \<Rightarrow> io_error option" where
  "into_io_error self = (case error_inner self of Io _ err \<Rightarrow> Some err | _ \<Rightarrow> None)"

definition error_busy :: error where
  "error_busy = Error 0 ThreadpoolBusy"

definition error_from_path :: "usize \<Rightarrow> path \<Rightarrow> io_error \<Rightarrow> error" where
  "error_from_path depth pb err = Error depth (Io (Some pb) err)"

definition error_from_io :: "usize \<Rightarrow> io_error \<Rightarrow> error" where
  "error_from_io depth err = Error depth (Io None err)"

definition error_from_loop :: "usize \<Rightarrow> path \<Rightarrow> path \<Rightarrow> error" where
  "error_from_loop depth ancestor child = Error depth (Loop ancestor child)"

definition error_source :: "error \<Rightarrow> io_error option" where
  "error_source self =
     (case error_inner self of Io _ err \<Rightarrow> Some err | Loop _ _ \<Rightarrow> None | ThreadpoolBusy \<Rightarrow> None)"

definition io_error_from :: "error \<Rightarrow> io_error" where
  "io_error_from walk_err =
     (let kind = (case walk_err of
                    Error _ (Io _ err) \<Rightarrow> io_error_kind err
                  | Error _ (Loop _ _) \<Rightarrow> OtherKind
                  | Error _ ThreadpoolBusy \<Rightarrow> OtherKind)
      in WrapError kind walk_err)"

text \<open>The compile-time target decides which codes are transient.\<close>

datatype target = Windows | Unix

definition is_transient_io_error :: "target \<Rightarrow> io_error \<Rightarrow> bool" where
  "is_transient_io_error cfg err =
     (case raw_os_error err of
        Some code \<Rightarrow>
          (case cfg of
             Windows \<Rightarrow> code \<in> {32, 33, 54, 121, 1237}
           | Unix \<Rightarrow> code \<in> {11, 16, 150})
      | None \<Rightarrow> io_error_kind err \<in>
          {TimedOut, Interrupted, WouldBlock, ConnectionReset, ConnectionAborted})"

definition is_transient_error :: "target \<Rightarrow> error \<Rightarrow> bool" where
  "is_transient_error cfg err =
     (case error_inner err of
        Io _ err \<Rightarrow> is_transient_io_error cfg err
      | Loop _ _ \<Rightarrow> False
      | ThreadpoolBusy \<Rightarrow> False)"

section \<open>The retry loop\<close>

text \<open>
  \<open>retry_transient_io\<close>: the operation is a state transformer (\<open>FnMut\<close>), the loop variable runs
  over \<open>0..=max_retries\<close>; falling out of the loop would reach \<open>unreachable!\<close>, the value \<open>None\<close>.
\<close>

fun retry_attempts :: "target \<Rightarrow> nat \<Rightarrow> nat list \<Rightarrow> ('s \<Rightarrow> (error + 'a) \<times> 's) \<Rightarrow> 's \<Rightarrow>
    ((error + 'a) \<times> 's) option" where
  "retry_attempts cfg max_retries [] op s = None"
| "retry_attempts cfg max_retries (attempt # attempts) op s =
     (case op s of
        (Inr result, s) \<Rightarrow> Some (Inr result, s)
      | (Inl e, s) \<Rightarrow>
          if attempt < max_retries \<and> is_transient_error cfg e
          then retry_attempts cfg max_retries attempts op s
          else Some (Inl e, s))"

definition retry_transient_io :: "target \<Rightarrow> nat \<Rightarrow> ('s \<Rightarrow> (error + 'a) \<times> 's) \<Rightarrow> 's \<Rightarrow>
    ((error + 'a) \<times> 's) option" where
  "retry_transient_io cfg max_retries op s = retry_attempts cfg max_retries [0..<Suc max_retries] op s"

text \<open>The outcome of the \<open>k\<close>-th call when all calls before it failed, and the state it leaves.\<close>

fun op_state :: "('s \<Rightarrow> (error + 'a) \<times> 's) \<Rightarrow> nat \<Rightarrow> 's \<Rightarrow> 's" where
  "op_state op 0 s = s"
| "op_state op (Suc k) s = snd (op (op_state op k s))"

definition attempt_result :: "('s \<Rightarrow> (error + 'a) \<times> 's) \<Rightarrow> 's \<Rightarrow> nat \<Rightarrow> (error + 'a) \<times> 's" where
  "attempt_result op s k = op (op_state op k s)"

text \<open>An attempt is final when it succeeds, fails for good, or is the last one allowed.\<close>

definition final_attempt :: "target \<Rightarrow> nat \<Rightarrow> ('s \<Rightarrow> (error + 'a) \<times> 's) \<Rightarrow> 's \<Rightarrow> nat \<Rightarrow> bool" where
  "final_attempt cfg max_retries op s k \<longleftrightarrow>
     k = max_retries \<or>
     (case fst (attempt_result op s k) of Inr _ \<Rightarrow> True | Inl e \<Rightarrow> \<not> is_transient_error cfg e)"

lemma retry_attempts_from:
  assumes "j \<le> max_retries"
  shows "\<exists>k. j \<le> k \<and> k \<le> max_retries \<and>
    retry_attempts cfg max_retries [j..<Suc max_retries] op (op_state op j s) = Some (attempt_result op s k) \<and>
    final_attempt cfg max_retries op s k \<and> (\<forall>i. j \<le> i \<and> i < k \<longrightarrow> \<not> final_attempt cfg max_retries op s i)"
  using assms
proof (induction "max_retries - j" arbitrary: j)
  case 0
  then show ?case
    by (intro exI [of _ max_retries])
      (auto simp: attempt_result_def final_attempt_def split: prod.splits sum.splits)
next
  case (Suc n)
  obtain r s' where r: "op (op_state op j s) = (r, s')" by fastforce
  have upt: "[j..<Suc max_retries] = j # [Suc j..<Suc max_retries]"
    using Suc(3) by (simp add: upt_conv_Cons del: upt_Suc)
  show ?case
  proof (cases "final_attempt cfg max_retries op s j")
    case True
    with Suc r show ?thesis
      by (intro exI [of _ j])
        (auto simp: attempt_result_def final_attempt_def upt simp del: upt_Suc split: sum.splits)
  next
    case False
    with Suc(2) r obtain e where e: "r = Inl e" "is_transient_error cfg e" "j < max_retries"
      by (auto simp: final_attempt_def attempt_result_def split: sum.splits)
    from Suc(2) e(3) have "n = max_retries - Suc j" "Suc j \<le> max_retries" by auto
    then obtain k where "Suc j \<le> k" "k \<le> max_retries"
      "retry_attempts cfg max_retries [Suc j..<Suc max_retries] op (op_state op (Suc j) s) = Some (attempt_result op s k)"
      "final_attempt cfg max_retries op s k"
      "\<forall>i. Suc j \<le> i \<and> i < k \<longrightarrow> \<not> final_attempt cfg max_retries op s i" using Suc(1) by blast
    moreover from this(5) False have "\<forall>i. j \<le> i \<and> i < k \<longrightarrow> \<not> final_attempt cfg max_retries op s i"
      by (metis Suc_leI le_neq_implies_less)
    ultimately show ?thesis
      using r e by (intro exI [of _ k]) (auto simp: upt simp del: upt_Suc)
  qed
qed

text \<open>
  The loop returns the outcome of the first final attempt, and makes at most \<open>max_retries + 1\<close>
  attempts; the \<open>unreachable!\<close> is never reached.
\<close>

lemma retry_transient_io_first_final:
  "\<exists>k \<le> max_retries. retry_transient_io cfg max_retries op s = Some (attempt_result op s k) \<and>
     final_attempt cfg max_retries op s k \<and> (\<forall>i < k. \<not> final_attempt cfg max_retries op s i)"
  using retry_attempts_from [of 0 max_retries cfg op s] by (auto simp: retry_transient_io_def)

section \<open>Properties\<close>

text \<open>
  C23. The retry loop returns the outcome of the first attempt that succeeds, fails for good or is
  the last one allowed, and runs the operation no more often: at most \<open>max_retries + 1\<close> times.
  The \<open>unreachable!\<close> at its end is never reached.
\<close>

theorem retry_returns_first_final:
  "\<exists>k \<le> max_retries. retry_transient_io cfg max_retries op s = Some (attempt_result op s k) \<and>
     final_attempt cfg max_retries op s k \<and> (\<forall>i < k. \<not> final_attempt cfg max_retries op s i)"
  by (rule retry_transient_io_first_final)

text \<open>An operation that fails twice with \<open>EAGAIN\<close> and then succeeds.\<close>

definition flaky_op :: "nat \<Rightarrow> (error + nat) \<times> nat" where
  "flaky_op n = (if n < 2 then Inl (error_from_io 0 (OsError 11 WouldBlock)) else Inr n, n + 1)"

theorem retry_returns_first_final_witness:
  "retry_transient_io Unix 3 flaky_op 0 = Some (Inr 2, 3)"
proof -
  obtain k where k: "k \<le> 3" "retry_transient_io Unix 3 flaky_op 0 = Some (attempt_result flaky_op 0 k)"
    "final_attempt Unix 3 flaky_op 0 k" "\<forall>i < k. \<not> final_attempt Unix 3 flaky_op 0 i"
    using retry_returns_first_final [of 3 Unix flaky_op 0] by blast
  have "\<not> final_attempt Unix 3 flaky_op 0 0" "\<not> final_attempt Unix 3 flaky_op 0 1"
    and f: "final_attempt Unix 3 flaky_op 0 2" by code_simp+
  with k(1,3,4) have "k = 2"
    by (metis One_nat_def less_2_cases linorder_neqE_nat)
  moreover have "attempt_result flaky_op 0 2 = (Inr 2, 3)" by code_simp
  ultimately show ?thesis using k(2) by simp
qed

end
