(* ===== verification/Metadata.thy ===== *)
theory Metadata
  imports Errors
begin

text \<open>
  \<open>core/metadata.rs\<close> with the conversions of \<open>lib.rs\<close> and \<open>core/unix_dir_enum.rs\<close> it is filled
  by: file types, the portable \<open>MetaData\<close>, the platform's \<open>MetaDataExt\<close>, the identity of an
  ancestor directory, time stamps and device numbers.
\<close>

section \<open>File types\<close>

text \<open>
  \<open>std::fs::FileType\<close> is the \<open>st_mode\<close> bits on Linux and a pair of flags on Windows. The
  \<open>S_IF*\<close> and \<open>DT_*\<close> constants are those of the Linux ABI.
\<close>

definition S_IFMT :: u32 where "S_IFMT = 0xF000"
definition S_IFDIR :: u32 where "S_IFDIR = 0x4000"
definition S_IFREG :: u32 where "S_IFREG = 0x8000"
definition S_IFLNK :: u32 where "S_IFLNK = 0xA000"
definition S_IFIFO :: u32 where "S_IFIFO = 0x1000"
definition S_IFSOCK :: u32 where "S_IFSOCK = 0xC000"
definition S_IFBLK :: u32 where "S_IFBLK = 0x6000"
definition S_IFCHR :: u32 where "S_IFCHR = 0x2000"

definition DT_UNKNOWN :: u8 where "DT_UNKNOWN = 0"
definition DT_FIFO :: u8 where "DT_FIFO = 1"
definition DT_CHR :: u8 where "DT_CHR = 2"
definition DT_DIR :: u8 where "DT_DIR = 4"
definition DT_BLK :: u8 where "DT_BLK = 6"
definition DT_REG :: u8 where "DT_REG = 8"
definition DT_LNK :: u8 where "DT_LNK = 10"
definition DT_SOCK :: u8 where "DT_SOCK = 12"

lemmas mode_consts = S_IFMT_def S_IFDIR_def S_IFREG_def S_IFLNK_def S_IFIFO_def S_IFSOCK_def
  S_IFBLK_def S_IFCHR_def
lemmas dtype_consts = DT_UNKNOWN_def DT_FIFO_def DT_CHR_def DT_DIR_def DT_BLK_def DT_REG_def
  DT_LNK_def DT_SOCK_def

datatype file_type = UnixFileType u32 | WinFileType bool bool

fun ft_is_dir :: "file_type \<Rightarrow> bool" where
  "ft_is_dir (UnixFileType mode) \<longleftrightarrow> mode AND S_IFMT = S_IFDIR"
| "ft_is_dir (WinFileType is_directory is_symlink) \<longleftrightarrow> \<not> is_symlink \<and> is_directory"

fun ft_is_file :: "file_type \<Rightarrow> bool" where
  "ft_is_file (UnixFileType mode) \<longleftrightarrow> mode AND S_IFMT = S_IFREG"
| "ft_is_file (WinFileType is_directory is_symlink) \<longleftrightarrow> \<not> is_symlink \<and> \<not> is_directory"

fun ft_is_symlink :: "file_type \<Rightarrow> bool" where
  "ft_is_symlink (UnixFileType mode) \<longleftrightarrow> mode AND S_IFMT = S_IFLNK"
| "ft_is_symlink (WinFileType is_directory is_symlink) \<longleftrightarrow> is_symlink"

definition file_type_from_mode :: "u32 \<Rightarrow> file_type" where
  "file_type_from_mode mode = UnixFileType mode"

definition file_type_from_dtype :: "u8 \<Rightarrow> file_type option" where
  "file_type_from_dtype d_type =
     (if d_type = DT_DIR then Some (file_type_from_mode S_IFDIR)
      else if d_type = DT_REG then Some (file_type_from_mode S_IFREG)
      else if d_type = DT_LNK then Some (file_type_from_mode S_IFLNK)
      else if d_type = DT_FIFO then Some (file_type_from_mode S_IFIFO)
      else if d_type = DT_SOCK then Some (file_type_from_mode S_IFSOCK)
      else if d_type = DT_BLK then Some (file_type_from_mode S_IFBLK)
      else if d_type = DT_CHR then Some (file_type_from_mode S_IFCHR)
      else None)"

lemma file_type_from_dtype_is_dir:
  "file_type_from_dtype d = Some ft \<Longrightarrow> ft_is_dir ft \<longleftrightarrow> d = DT_DIR"
  by (auto simp: file_type_from_dtype_def file_type_from_mode_def mode_consts dtype_consts
      split: if_splits)

lemma file_type_from_dtype_is_symlink:
  "file_type_from_dtype d = Some ft \<Longrightarrow> ft_is_symlink ft \<longleftrightarrow> d = DT_LNK"
  by (auto simp: file_type_from_dtype_def file_type_from_mode_def mode_consts dtype_consts
      split: if_splits)

section \<open>Time stamps\<close>

text \<open>
  A \<open>SystemTime\<close> is a pair of seconds since the epoch and nanoseconds below \<open>10\<^sup>9\<close>; the seconds
  are an \<open>i64\<close>. \<open>Duration::new\<close> carries excess nanoseconds into the seconds.
\<close>

type_synonym system_time = "int \<times> nat"

definition NANOS_PER_SEC :: nat where "NANOS_PER_SEC = 1000000000"

definition duration_new :: "nat \<Rightarrow> nat \<Rightarrow> nat \<times> nat" where
  "duration_new secs nanos = (secs + nanos div NANOS_PER_SEC, nanos mod NANOS_PER_SEC)"

definition epoch_checked_add :: "nat \<times> nat \<Rightarrow> system_time option" where
  "epoch_checked_add d = (if int (fst d) < 2 ^ 63 then Some (int (fst d), snd d) else None)"

definition time_to_systemtime :: "int \<Rightarrow> int \<Rightarrow> system_time option" where
  "time_to_systemtime sec nsec =
     (if sec < 0 then None
      else epoch_checked_add (duration_new (nat sec) (nat (nsec mod 2 ^ 32))))"

record statx_timestamp =
  tv_sec :: int
  tv_nsec :: nat

definition statx_time_to_systemtime :: "statx_timestamp \<Rightarrow> system_time option" where
  "statx_time_to_systemtime ts =
     (if tv_sec ts < 0 then None
      else epoch_checked_add (duration_new (nat (tv_sec ts)) (tv_nsec ts)))"

text \<open>The two conversions agree on the time stamps the kernel delivers, and keep them unchanged.\<close>

lemma time_conversions_exact:
  assumes "0 \<le> s" and "s < 2 ^ 63" and "n < NANOS_PER_SEC"
  shows "time_to_systemtime s (int n) = Some (s, n)"
    and "statx_time_to_systemtime \<lparr>tv_sec = s, tv_nsec = n\<rparr> = Some (s, n)"
proof -
  have "int n < 2 ^ 32" using assms(3) by (simp add: NANOS_PER_SEC_def)
  then have "nat (int n mod 2 ^ 32) = n" by simp
  with assms show "time_to_systemtime s (int n) = Some (s, n)"
    by (simp add: time_to_systemtime_def duration_new_def epoch_checked_add_def)
  show "statx_time_to_systemtime \<lparr>tv_sec = s, tv_nsec = n\<rparr> = Some (s, n)"
    using assms by (simp add: statx_time_to_systemtime_def duration_new_def epoch_checked_add_def)
qed

section \<open>Device numbers\<close>

definition linux_makedev :: "u32 \<Rightarrow> u32 \<Rightarrow> u64" where
  "linux_makedev major minor =
     (let major = ucast major :: u64; minor = ucast minor :: u64 in
      push_bit 8 (major AND 0xfff) OR push_bit 32 (major AND 0xfffff000)
      OR (minor AND 0xff) OR push_bit 12 (minor AND 0xffffff00))"

text \<open>The decoding of glibc's \<open>gnu_dev_major\<close> and \<open>gnu_dev_minor\<close>, the reference for the encoding.\<close>

definition gnu_dev_major :: "u64 \<Rightarrow> u32" where
  "gnu_dev_major dev = ucast ((drop_bit 8 dev AND 0xfff) OR (drop_bit 32 dev AND 0xfffff000))"

definition gnu_dev_minor :: "u64 \<Rightarrow> u32" where
  "gnu_dev_minor dev = ucast ((dev AND 0xff) OR (drop_bit 12 dev AND 0xffffff00))"

lemma makedev_masks:
  "(0xfff :: u64) = mask 12" "(0xff :: u64) = mask 8"
  "(0xfffff000 :: u64) = push_bit 12 (mask 20)" "(0xffffff00 :: u64) = push_bit 8 (mask 24)"
  by (simp_all add: mask_eq_exp_minus_1 push_bit_eq_mult)

lemma gnu_dev_major_makedev: "gnu_dev_major (linux_makedev major minor) = major"
  by (rule bit_word_eqI)
    (auto simp: gnu_dev_major_def linux_makedev_def makedev_masks Let_def bit_simps)

lemma gnu_dev_minor_makedev: "gnu_dev_minor (linux_makedev major minor) = minor"
  by (rule bit_word_eqI)
    (auto simp: gnu_dev_minor_def linux_makedev_def makedev_masks Let_def bit_simps)

text \<open>
  Bit by bit: the two decoders take disjoint bits of the number and leave none out, so the
  encoder inverts them.
\<close>

lemma bit_gnu_dev_major:
  "bit (gnu_dev_major dev) k \<longleftrightarrow> k < 32 \<and> bit dev (if k < 12 then k + 8 else k + 32)"
  by (auto simp: gnu_dev_major_def makedev_masks bit_simps add.commute)

lemma bit_gnu_dev_minor:
  "bit (gnu_dev_minor dev) k \<longleftrightarrow> k < 32 \<and> bit dev (if k < 8 then k else k + 12)"
  by (auto simp: gnu_dev_minor_def makedev_masks bit_simps add.commute)

lemma bit_linux_makedev:
  "bit (linux_makedev major minor) n \<longleftrightarrow> n < 64 \<and>
     (if n < 8 then bit minor n else if n < 20 then bit major (n - 8)
      else if n < 44 then bit minor (n - 12) else bit major (n - 32))"
  by (simp add: linux_makedev_def makedev_masks Let_def bit_simps) linarith

lemma makedev_gnu_dev: "linux_makedev (gnu_dev_major dev) (gnu_dev_minor dev) = dev"
proof (rule bit_word_eqI)
  fix n assume "n < LENGTH(64)"
  then consider "n < 8" | "8 \<le> n" "n < 20" | "20 \<le> n" "n < 44" | "44 \<le> n" "n < 64"
    by fastforce
  then show "bit (linux_makedev (gnu_dev_major dev) (gnu_dev_minor dev)) n = bit dev n"
    by cases (auto simp: bit_linux_makedev bit_gnu_dev_major bit_gnu_dev_minor)
qed

lemma makedev_eqI:
  "gnu_dev_major dev = major \<Longrightarrow> gnu_dev_minor dev = minor \<Longrightarrow> linux_makedev major minor = dev"
  using makedev_gnu_dev [of dev] by simp

section \<open>The structures of the standard library and the kernel\<close>

text \<open>
  \<open>std::fs::Metadata\<close>: length, time stamps (an error where the platform has none), the fields
  of Unix's \<open>MetadataExt\<close> and of Windows' one. The file type is the mode on Unix and the pair of
  flags on Windows; \<open>target\<close> selects between them as \<open>cfg\<close> does.
\<close>

record fs_metadata =
  fm_mode :: u32
  fm_len :: u64
  fm_created :: "io_error + system_time"
  fm_modified :: "io_error + system_time"
  fm_accessed :: "io_error + system_time"
  fm_ino :: u64
  fm_dev :: u64
  fm_nlink :: u64
  fm_blksize :: u64
  fm_blocks :: u64
  fm_uid :: u32
  fm_gid :: u32
  fm_rdev :: u64
  fm_win_is_directory :: bool
  fm_win_is_symlink :: bool
  fm_file_attributes :: u32
  fm_volume_serial_number :: "u32 option"
  fm_number_of_links :: "u32 option"
  fm_file_index :: "u64 option"

definition fm_file_type :: "target \<Rightarrow> fs_metadata \<Rightarrow> file_type" where
  "fm_file_type cfg m =
     (case cfg of Unix \<Rightarrow> UnixFileType (fm_mode m)
      | Windows \<Rightarrow> WinFileType (fm_win_is_directory m) (fm_win_is_symlink m))"

text \<open>\<open>Metadata::permissions\<close>: the mode on Unix, the attributes on Windows.\<close>

definition fm_permissions :: "target \<Rightarrow> fs_metadata \<Rightarrow> u32" where
  "fm_permissions cfg m = (case cfg of Unix \<Rightarrow> fm_mode m | Windows \<Rightarrow> fm_file_attributes m)"

text \<open>\<open>libc::stat\<close> (signed fields in two's complement) and \<open>libc::statx\<close>.\<close>

record linux_stat =
  st_mode :: u32
  st_ino :: u64
  st_dev :: u64
  st_nlink :: u64
  st_blksize :: u64
  st_blocks :: u64
  st_uid :: u32
  st_gid :: u32
  st_rdev :: u64
  st_size :: u64
  st_ctime :: int
  st_ctime_nsec :: int
  st_mtime :: int
  st_mtime_nsec :: int
  st_atime :: int
  st_atime_nsec :: int

record linux_statx =
  stx_mask :: u32
  stx_mode :: u16
  stx_ino :: u64
  stx_size :: u64
  stx_nlink :: u32
  stx_blksize :: u32
  stx_blocks :: u64
  stx_uid :: u32
  stx_gid :: u32
  stx_dev_major :: u32
  stx_dev_minor :: u32
  stx_rdev_major :: u32
  stx_rdev_minor :: u32
  stx_btime :: statx_timestamp
  stx_ctime :: statx_timestamp
  stx_mtime :: statx_timestamp
  stx_atime :: statx_timestamp

definition STATX_BTIME :: u32 where "STATX_BTIME = 0x800"

section \<open>\<open>MetaData\<close> and \<open>MetaDataExt\<close>\<close>

record meta_data =
  md_is_dir :: bool
  md_is_file :: bool
  md_is_symlink :: bool
  md_size :: u64
  md_created :: "system_time option"
  md_changed :: "system_time option"
  md_modified :: "system_time option"
  md_accessed :: "system_time option"
  md_permissions :: "u32 option"

record unix_ext =
  ext_st_mode :: u32
  ext_st_ino :: u64
  ext_st_dev :: u64
  ext_st_nlink :: u64
  ext_st_blksize :: u64
  ext_st_blocks :: u64
  ext_st_uid :: u32
  ext_st_gid :: u32
  ext_st_rdev :: u64

record win_ext =
  ext_file_attributes :: u32
  ext_volume_serial_number :: "u32 option"
  ext_number_of_links :: "u32 option"
  ext_file_index :: "u64 option"

datatype meta_data_ext = UnixExt unix_ext | WinExt win_ext

definition get_metadata_ext :: "target \<Rightarrow> fs_metadata \<Rightarrow> meta_data_ext" where
  "get_metadata_ext cfg m =
     (case cfg of
        Unix \<Rightarrow> UnixExt
          \<lparr>ext_st_mode = fm_mode m, ext_st_ino = fm_ino m, ext_st_dev = fm_dev m,
           ext_st_nlink = fm_nlink m, ext_st_blksize = fm_blksize m, ext_st_blocks = fm_blocks m,
           ext_st_uid = fm_uid m, ext_st_gid = fm_gid m, ext_st_rdev = fm_rdev m\<rparr>
      | Windows \<Rightarrow> WinExt
          \<lparr>ext_file_attributes = fm_file_attributes m,
           ext_volume_serial_number = fm_volume_serial_number m,
           ext_number_of_links = fm_number_of_links m, ext_file_index = fm_file_index m\<rparr>)"

definition created_time_from_metadata :: "fs_metadata \<Rightarrow> system_time option" where
  "created_time_from_metadata m = result_ok (fm_created m)"

definition changed_time_from_metadata :: "target \<Rightarrow> fs_metadata \<Rightarrow> system_time option" where
  "changed_time_from_metadata cfg m =
     (case cfg of Unix \<Rightarrow> None | Windows \<Rightarrow> result_ok (fm_created m))"

definition from_fs_metadata :: "target \<Rightarrow> fs_metadata \<Rightarrow> meta_data" where
  "from_fs_metadata cfg m =
     \<lparr>md_is_dir = ft_is_dir (fm_file_type cfg m), md_is_file = ft_is_file (fm_file_type cfg m),
      md_is_symlink = ft_is_symlink (fm_file_type cfg m), md_size = fm_len m,
      md_created = created_time_from_metadata m, md_changed = changed_time_from_metadata cfg m,
      md_modified = result_ok (fm_modified m), md_accessed = result_ok (fm_accessed m),
      md_permissions = Some (fm_permissions cfg m)\<rparr>"

section \<open>The identity of an ancestor\<close>

datatype ancestor_identity =
    UnixIdentity (ancestor_path: path) u64 u64
  | WinIdentity (ancestor_path: path) "u32 option" "u64 option"

text \<open>\<open>AncestorIdentity::from_path\<close> over the operation \<open>fs::symlink_metadata\<close>.\<close>

definition ancestor_identity_from_path ::
    "target \<Rightarrow> (path \<Rightarrow> io_error + fs_metadata) \<Rightarrow> path \<Rightarrow> ancestor_identity option" where
  "ancestor_identity_from_path cfg symlink_metadata p =
     (case symlink_metadata p of
        Inl e \<Rightarrow> None
      | Inr m \<Rightarrow> Some (case get_metadata_ext cfg m of
            UnixExt ext \<Rightarrow> UnixIdentity p (ext_st_dev ext) (ext_st_ino ext)
          | WinExt ext \<Rightarrow> WinIdentity p (ext_volume_serial_number ext) (ext_file_index ext)))"

text \<open>An extension and an identity of different platforms never meet in one build.\<close>

fun ancestor_identity_eq :: "meta_data_ext \<Rightarrow> ancestor_identity \<Rightarrow> bool" where
  "ancestor_identity_eq (UnixExt t) (UnixIdentity _ dev ino) \<longleftrightarrow>
     ext_st_dev t = dev \<and> ext_st_ino t = ino"
| "ancestor_identity_eq (WinExt t) (WinIdentity _ vol idx) \<longleftrightarrow>
     (case (ext_volume_serial_number t, ext_file_index t, vol, idx) of
        (Some vol_t, Some idx_t, Some vol_a, Some idx_a) \<Rightarrow> vol_t = vol_a \<and> idx_t = idx_a
      | _ \<Rightarrow> False)"
| "ancestor_identity_eq _ _ \<longleftrightarrow> False"

section \<open>Filling the metadata of an entry from \<open>statx\<close> or \<open>fstatat\<close>\<close>

definition statx_meta_data :: "linux_statx \<Rightarrow> meta_data" where
  "statx_meta_data statx =
     (let mode = ucast (stx_mode statx) :: u32 in
      \<lparr>md_is_dir = (mode AND S_IFMT = S_IFDIR), md_is_file = (mode AND S_IFMT = S_IFREG),
       md_is_symlink = (mode AND S_IFMT = S_IFLNK), md_size = stx_size statx,
       md_created = (if stx_mask statx AND STATX_BTIME \<noteq> 0
                  then statx_time_to_systemtime (stx_btime statx) else None),
       md_changed = statx_time_to_systemtime (stx_ctime statx),
       md_modified = statx_time_to_systemtime (stx_mtime statx),
       md_accessed = statx_time_to_systemtime (stx_atime statx),
       md_permissions = Some mode\<rparr>)"

definition statx_meta_data_ext :: "linux_statx \<Rightarrow> unix_ext" where
  "statx_meta_data_ext statx =
     \<lparr>ext_st_mode = ucast (stx_mode statx), ext_st_ino = stx_ino statx,
      ext_st_dev = linux_makedev (stx_dev_major statx) (stx_dev_minor statx),
      ext_st_nlink = ucast (stx_nlink statx), ext_st_blksize = ucast (stx_blksize statx),
      ext_st_blocks = stx_blocks statx, ext_st_uid = stx_uid statx, ext_st_gid = stx_gid statx,
      ext_st_rdev = linux_makedev (stx_rdev_major statx) (stx_rdev_minor statx)\<rparr>"

definition stat_meta_data :: "linux_stat \<Rightarrow> meta_data" where
  "stat_meta_data stat =
     (let mode = st_mode stat in
      \<lparr>md_is_dir = (mode AND S_IFMT = S_IFDIR), md_is_file = (mode AND S_IFMT = S_IFREG),
       md_is_symlink = (mode AND S_IFMT = S_IFLNK), md_size = st_size stat,
       md_created = None,
       md_changed = time_to_systemtime (st_ctime stat) (st_ctime_nsec stat),
       md_modified = time_to_systemtime (st_mtime stat) (st_mtime_nsec stat),
       md_accessed = time_to_systemtime (st_atime stat) (st_atime_nsec stat),
       md_permissions = Some mode\<rparr>)"

definition stat_meta_data_ext :: "linux_stat \<Rightarrow> unix_ext" where
  "stat_meta_data_ext stat =
     \<lparr>ext_st_mode = st_mode stat, ext_st_ino = st_ino stat, ext_st_dev = st_dev stat,
      ext_st_nlink = st_nlink stat, ext_st_blksize = st_blksize stat,
      ext_st_blocks = st_blocks stat, ext_st_uid = st_uid stat, ext_st_gid = st_gid stat,
      ext_st_rdev = st_rdev stat\<rparr>"

text \<open>
  A \<open>statx\<close> and a \<open>stat\<close> of the same file: the kernel fills both from the same inode. The device
  numbers of \<open>stat\<close> are encoded; they are related to the pairs of \<open>statx\<close> by the decoders of the C
  library, not by the encoder of the crate.
\<close>

definition same_inode :: "linux_statx \<Rightarrow> linux_stat \<Rightarrow> bool" where
  "same_inode x s \<longleftrightarrow>
     ucast (stx_mode x) = st_mode s \<and> stx_ino x = st_ino s \<and> stx_size x = st_size s \<and>
     ucast (stx_nlink x) = st_nlink s \<and> ucast (stx_blksize x) = st_blksize s \<and>
     stx_blocks x = st_blocks s \<and> stx_uid x = st_uid s \<and> stx_gid x = st_gid s \<and>
     gnu_dev_major (st_dev s) = stx_dev_major x \<and> gnu_dev_minor (st_dev s) = stx_dev_minor x \<and>
     gnu_dev_major (st_rdev s) = stx_rdev_major x \<and> gnu_dev_minor (st_rdev s) = stx_rdev_minor x \<and>
     (\<forall>(t, sec, nsec) \<in> {(stx_ctime x, st_ctime s, st_ctime_nsec s),
         (stx_mtime x, st_mtime s, st_mtime_nsec s), (stx_atime x, st_atime s, st_atime_nsec s)}.
        tv_sec t = sec \<and> int (tv_nsec t) = nsec \<and> tv_nsec t < NANOS_PER_SEC)"

text \<open>The metadata of an entry does not depend on which of the two calls delivered it, the birth time apart.\<close>

lemma statx_stat_agree:
  assumes "same_inode x s"
  shows "statx_meta_data x = (stat_meta_data s)\<lparr>md_created := md_created (statx_meta_data x)\<rparr>"
    and "statx_meta_data_ext x = stat_meta_data_ext s"
proof -
  have time: "statx_time_to_systemtime t = time_to_systemtime (tv_sec t) (int (tv_nsec t))"
    if "tv_nsec t < NANOS_PER_SEC" for t
  proof -
    have "int (tv_nsec t) < 2 ^ 32" using that by (simp add: NANOS_PER_SEC_def)
    then show ?thesis by (simp add: statx_time_to_systemtime_def time_to_systemtime_def)
  qed
  show "statx_meta_data x = (stat_meta_data s)\<lparr>md_created := md_created (statx_meta_data x)\<rparr>"
    using assms by (auto simp: same_inode_def statx_meta_data_def stat_meta_data_def Let_def time)
  show "statx_meta_data_ext x = stat_meta_data_ext s"
    using assms by (simp add: same_inode_def statx_meta_data_ext_def stat_meta_data_ext_def makedev_eqI)
qed

section \<open>Properties\<close>

text \<open>
  C32. Round trip of device numbers: glibc's \<open>major\<close> and \<open>minor\<close> recover both halves, all 32 bits
  of each, from what \<open>linux_makedev\<close> encodes.
\<close>

theorem makedev_roundtrip:
  "gnu_dev_major (linux_makedev major minor) = major \<and> gnu_dev_minor (linux_makedev major minor) = minor"
  by (simp add: gnu_dev_major_makedev gnu_dev_minor_makedev)

text \<open>
  C31. The metadata of an entry does not depend on the system call that delivered it: \<open>statx\<close> and
  \<open>fstatat\<close> of the same file give the same \<open>MetaDataExt\<close>, and the same \<open>MetaData\<close> but for the
  birth time, which only \<open>statx\<close> has. Of the two device numbers it is assumed only that the
  decoders of the C library split the ones of \<open>fstatat\<close> into the pairs of \<open>statx\<close>; that the
  encoder of the crate gives these numbers back is part of what is proved.
\<close>

theorem statx_and_fstatat_agree:
  assumes "same_inode x s"
  shows "statx_meta_data x = (stat_meta_data s)\<lparr>md_created := md_created (statx_meta_data x)\<rparr> \<and>
         statx_meta_data_ext x = stat_meta_data_ext s"
  using statx_stat_agree [OF assms] by blast

definition example_statx :: linux_statx where
  "example_statx =
     \<lparr>stx_mask = 0xFFF, stx_mode = 0x81A4, stx_ino = 42, stx_size = 100, stx_nlink = 1,
      stx_blksize = 4096, stx_blocks = 8, stx_uid = 1000, stx_gid = 1000, stx_dev_major = 0x123456,
      stx_dev_minor = 0x789, stx_rdev_major = 3, stx_rdev_minor = 5,
      stx_btime = \<lparr>tv_sec = 1, tv_nsec = 0\<rparr>, stx_ctime = \<lparr>tv_sec = 2, tv_nsec = 0\<rparr>,
      stx_mtime = \<lparr>tv_sec = 3, tv_nsec = 999999999\<rparr>, stx_atime = \<lparr>tv_sec = - 4, tv_nsec = 0\<rparr>\<rparr>"

definition example_stat :: linux_stat where
  "example_stat =
     \<lparr>st_mode = 0x81A4, st_ino = 42, st_dev = 0x12300000745689, st_nlink = 1,
      st_blksize = 4096, st_blocks = 8, st_uid = 1000, st_gid = 1000, st_rdev = 0x305, st_size = 100,
      st_ctime = 2, st_ctime_nsec = 0, st_mtime = 3, st_mtime_nsec = 999999999, st_atime = - 4,
      st_atime_nsec = 0\<rparr>"

theorem statx_and_fstatat_agree_witness:
  "md_modified (statx_meta_data example_statx) = Some (3, 999999999) \<and>
   md_modified (stat_meta_data example_stat) = Some (3, 999999999) \<and>
   statx_meta_data_ext example_statx = stat_meta_data_ext example_stat"
proof -
  have same: "same_inode example_statx example_stat"
    by (simp add: same_inode_def example_statx_def example_stat_def NANOS_PER_SEC_def
        gnu_dev_major_def gnu_dev_minor_def)
  have m: "md_modified (stat_meta_data example_stat) = Some (3, 999999999)"
    by (simp add: example_stat_def stat_meta_data_def time_to_systemtime_def duration_new_def
        epoch_checked_add_def NANOS_PER_SEC_def)
  have "md_modified (statx_meta_data example_statx) = md_modified (stat_meta_data example_stat)"
    using arg_cong [OF statx_and_fstatat_agree [OF same, THEN conjunct1], of md_modified] by simp
  with m statx_and_fstatat_agree [OF same] show ?thesis by simp
qed

end
