(* ===== verification/Paths.thy ===== *)
theory Paths
  imports Prelude
begin

text \<open>
  The parts of \<open>std::path::Path\<close> and \<open>std::ffi::CString\<close> on Unix that the crate uses: a path is
  its bytes. \<open>join\<close>, \<open>is_absolute\<close>, \<open>file_name\<close> and \<open>parent\<close> follow the documented component
  rules (repeated separators and \<open>.\<close> components are skipped, except a leading \<open>.\<close>).
\<close>

definition sep_byte :: u8 where "sep_byte = 47"
definition dot_byte :: u8 where "dot_byte = 46"

definition path_is_absolute :: "path \<Rightarrow> bool" where
  "path_is_absolute p \<longleftrightarrow> p \<noteq> [] \<and> hd p = sep_byte"

definition path_join :: "path \<Rightarrow> path \<Rightarrow> path" where
  "path_join base p =
     (if path_is_absolute p then p
      else if base = [] \<or> last base = sep_byte then base @ p
      else base @ sep_byte # p)"

text \<open>\<open>CString::new\<close>: the bytes, refused when one of them is NUL.\<close>

definition cstring_new :: "u8 list \<Rightarrow> u8 list option" where
  "cstring_new bs = (if 0 \<in> set bs then None else Some bs)"

section \<open>Components\<close>

fun split_sep :: "path \<Rightarrow> path list" where
  "split_sep [] = [[]]"
| "split_sep (b # bs) =
     (if b = sep_byte then [] # split_sep bs
      else case split_sep bs of [] \<Rightarrow> [[b]] | s # ss \<Rightarrow> (b # s) # ss)"

fun join_sep :: "path list \<Rightarrow> path" where
  "join_sep [] = []"
| "join_sep [s] = s"
| "join_sep (s # ss) = s @ sep_byte # join_sep ss"

fun trim_tail :: "path list \<Rightarrow> path list" where
  "trim_tail [] = []"
| "trim_tail (s # ss) =
     (if trim_tail ss = [] \<and> (s = [] \<or> s = [dot_byte]) then [] else s # trim_tail ss)"

text \<open>Trailing components that \<open>components()\<close> skips are dropped; a relative path keeps a leading \<open>.\<close>.\<close>

definition trim_segs :: "bool \<Rightarrow> path list \<Rightarrow> path list" where
  "trim_segs absolute ss =
     (case ss of [] \<Rightarrow> []
      | s # rest \<Rightarrow> if trim_tail rest = [] \<and> (s = [] \<or> absolute \<and> s = [dot_byte]) then []
                    else s # trim_tail rest)"

definition path_segs :: "path \<Rightarrow> path list" where
  "path_segs p =
     (if path_is_absolute p then trim_segs True (split_sep (tl p)) else trim_segs False (split_sep p))"

definition path_file_name :: "path \<Rightarrow> os_string option" where
  "path_file_name p =
     (let ss = path_segs p in
      if ss = [] \<or> last ss = [dot_byte] \<or> last ss = [dot_byte, dot_byte] then None
      else Some (last ss))"

definition path_parent :: "path \<Rightarrow> path option" where
  "path_parent p =
     (let ss = path_segs p; absolute = path_is_absolute p in
      if ss = [] then None
      else Some ((if absolute then [sep_byte] else []) @ join_sep (trim_segs absolute (butlast ss))))"

section \<open>Joining and splitting\<close>

lemma split_sep_nonempty [simp]: "split_sep p \<noteq> []"
  by (cases p) (auto split: list.splits)

lemma join_split [simp]: "join_sep (split_sep p) = p"
proof (induction p)
  case (Cons b p)
  then show ?case by (cases "split_sep p" rule: join_sep.cases) auto
qed simp

lemma split_sep_plain: "sep_byte \<notin> set n \<Longrightarrow> split_sep n = [n]"
  by (induction n) auto

lemma split_sep_append_sep: "split_sep (p @ sep_byte # q) = split_sep p @ split_sep q"
proof (induction p)
  case (Cons b p)
  then show ?case by (cases "split_sep p") auto
qed simp

lemma join_sep_snoc: "ss \<noteq> [] \<Longrightarrow> join_sep (ss @ [s]) = join_sep ss @ sep_byte # s"
proof (induction ss rule: join_sep.induct)
  case (3 s t ss)
  then show ?case by simp
qed simp_all

text \<open>A plain name: one that the kernel can return for a directory entry other than \<open>.\<close> and \<open>..\<close>.\<close>

definition plain_name :: "os_string \<Rightarrow> bool" where
  "plain_name n \<longleftrightarrow> n \<noteq> [] \<and> sep_byte \<notin> set n \<and> n \<noteq> [dot_byte] \<and> n \<noteq> [dot_byte, dot_byte]"

lemma plain_name_not_absolute [simp]: "plain_name n \<Longrightarrow> \<not> path_is_absolute n"
  by (cases n) (auto simp: plain_name_def path_is_absolute_def)

lemma trim_tail_snoc_plain: "plain_name n \<Longrightarrow> trim_tail (ss @ [n]) = ss @ [n]"
  by (induction ss) (auto simp: plain_name_def)

lemma trim_segs_snoc_plain: "plain_name n \<Longrightarrow> trim_segs a (ss @ [n]) = ss @ [n]"
  by (cases ss) (auto simp: trim_segs_def trim_tail_snoc_plain plain_name_def)

text \<open>
  The entry of a directory is found again in its joined path: \<open>file_name\<close> of
  \<open>parent.join(name)\<close> is \<open>name\<close>.
\<close>

lemma path_segs_join:
  assumes "plain_name n"
  shows "\<exists>ss. path_segs (path_join p n) = ss @ [n]"
proof (cases "p = []")
  case True
  have "split_sep n = [n]" using assms by (simp add: plain_name_def split_sep_plain)
  with True assms trim_segs_snoc_plain [of n False "[]"] show ?thesis
    by (intro exI [of _ "[]"]) (simp add: path_join_def path_segs_def)
next
  case False
  have n: "split_sep n = [n]" using assms by (simp add: plain_name_def split_sep_plain)
  have "\<exists>q. path_join p n = q @ sep_byte # n"
    using assms False by (cases p rule: rev_cases) (auto simp: path_join_def)
  then obtain q where q: "path_join p n = q @ sep_byte # n" by blast
  show ?thesis
  proof (cases "path_is_absolute (path_join p n)")
    case True
    then show ?thesis
    proof (cases q)
      case Nil
      with True q n assms show ?thesis
        using trim_segs_snoc_plain [of n True "[]"] by (simp add: path_segs_def)
    next
      case (Cons c q')
      with True q n assms show ?thesis
        by (simp add: path_segs_def split_sep_append_sep trim_segs_snoc_plain)
    qed
  next
    case False
    with q n assms show ?thesis
      by (simp add: path_segs_def split_sep_append_sep trim_segs_snoc_plain)
  qed
qed

lemma path_file_name_join: "plain_name n \<Longrightarrow> path_file_name (path_join p n) = Some n"
  using path_segs_join [of n p] by (auto simp: path_file_name_def plain_name_def)

end
