(* ===== verification/Dir_Entry.thy ===== *)
theory Dir_Entry
  imports Metadata Paths
begin

text \<open>
  \<open>core/dir_entry.rs\<close>, \<open>core/read_dir_spec.rs\<close> and \<open>process_dir_entry_result\<close> of \<open>lib.rs\<close>: the entry a
  walk yields, the specification of a directory to read, and the handling of symbolic links with
  its loop detection. The file system is the record of \<open>std::fs\<close> operations \<open>fs_ops\<close>, a fixed
  snapshot for the duration of a call. The operations take the platform of the build: the target
  that \<open>cfg\<close> selects and its path syntax. The Unix build uses \<open>Paths\<close>; the names without \<open>_on\<close> are
  its operations. The path syntax of Windows stays a parameter.
\<close>

record platform =
  pl_target :: target
  pl_join :: "path \<Rightarrow> path \<Rightarrow> path"
  pl_is_absolute :: "path \<Rightarrow> bool"
  pl_file_name :: "path \<Rightarrow> os_string option"
  pl_parent :: "path \<Rightarrow> path option"

definition unix_platform :: platform where
  "unix_platform =
     \<lparr>pl_target = Unix, pl_join = path_join, pl_is_absolute = path_is_absolute,
      pl_file_name = path_file_name, pl_parent = path_parent\<rparr>"

lemma unix_platform_sel [simp]:
  "pl_target unix_platform = Unix" "pl_join unix_platform = path_join"
  "pl_is_absolute unix_platform = path_is_absolute" "pl_file_name unix_platform = path_file_name"
  "pl_parent unix_platform = path_parent"
  by (simp_all add: unix_platform_def)

record fs_ops =
  fs_metadata :: "path \<Rightarrow> io_error + fs_metadata"
  fs_symlink_metadata :: "path \<Rightarrow> io_error + fs_metadata"
  fs_read_link :: "path \<Rightarrow> io_error + path"
  fs_canonicalize :: "path \<Rightarrow> io_error + path"

section \<open>\<open>ReadDirSpec\<close> and \<open>DirEntry\<close>\<close>

record 'r read_dir_spec =
  spec_depth :: usize
  spec_path :: path
  spec_client_read_state :: 'r
  spec_follow_link_ancestors :: "ancestor_identity list option"

text \<open>
  \<open>cached_path\<close> is left out: it caches \<open>path()\<close>, a function of two fields that no code of the
  crate changes after construction.
\<close>

record 'd dir_entry =
  de_depth :: usize
  de_file_name :: os_string
  de_file_type :: file_type
  de_client_state :: 'd
  de_parent_path :: path
  de_read_children_path :: "path option"
  de_read_children_error :: "error option"
  de_read_metadata :: bool
  de_metadata :: "meta_data option"
  de_read_metadata_ext :: bool
  de_metadata_ext :: "meta_data_ext option"
  de_follow_link :: bool
  de_follow_link_ancestors :: "ancestor_identity list option"

definition de_path_on :: "platform \<Rightarrow> 'd dir_entry \<Rightarrow> path" where
  "de_path_on pf self = pl_join pf (de_parent_path self) (de_file_name self)"

abbreviation de_path :: "'d dir_entry \<Rightarrow> path" where
  "de_path \<equiv> de_path_on unix_platform"

definition path_is_symlink :: "'d dir_entry \<Rightarrow> bool" where
  "path_is_symlink self \<longleftrightarrow> ft_is_symlink (de_file_type self) \<or> de_follow_link self"

definition error_from_entry_on :: "platform \<Rightarrow> 'd dir_entry \<Rightarrow> io_error \<Rightarrow> error" where
  "error_from_entry_on pf dent err = Error (de_depth dent) (Io (Some (de_path_on pf dent)) err)"

abbreviation error_from_entry :: "'d dir_entry \<Rightarrow> io_error \<Rightarrow> error" where
  "error_from_entry \<equiv> error_from_entry_on unix_platform"

text \<open>\<open>DirEntry::metadata\<close>.\<close>

definition de_fs_metadata_on :: "platform \<Rightarrow> fs_ops \<Rightarrow> 'd dir_entry \<Rightarrow> error + fs_metadata" where
  "de_fs_metadata_on pf fs self =
     result_map_err (error_from_entry_on pf self)
       (if de_follow_link self then fs_metadata fs (de_path_on pf self)
        else fs_symlink_metadata fs (de_path_on pf self))"

abbreviation de_fs_metadata :: "fs_ops \<Rightarrow> 'd dir_entry \<Rightarrow> error + fs_metadata" where
  "de_fs_metadata \<equiv> de_fs_metadata_on unix_platform"

definition read_children_spec :: "'d dir_entry \<Rightarrow> 'r \<Rightarrow> 'r read_dir_spec option" where
  "read_children_spec self client_read_state =
     map_option (\<lambda>p. \<lparr>spec_depth = de_depth self, spec_path = p,
                      spec_client_read_state = client_read_state,
                      spec_follow_link_ancestors = de_follow_link_ancestors self\<rparr>)
       (de_read_children_path self)"

lemma read_children_spec_None [simp]:
  "read_children_spec e st = None \<longleftrightarrow> de_read_children_path e = None"
  by (simp add: read_children_spec_def)

lemma read_children_spec_SomeD:
  "read_children_spec e st = Some s \<Longrightarrow>
   spec_depth s = de_depth e \<and> de_read_children_path e = Some (spec_path s) \<and>
   spec_client_read_state s = st \<and> spec_follow_link_ancestors s = de_follow_link_ancestors e"
  by (auto simp: read_children_spec_def)

section \<open>Constructors\<close>

text \<open>\<open>C::DirEntryState::default()\<close> is the argument \<open>dflt\<close>.\<close>

definition from_raw_on :: "platform \<Rightarrow> 'd \<Rightarrow> usize \<Rightarrow> path \<Rightarrow> meta_data option \<Rightarrow> meta_data_ext option \<Rightarrow>
    os_string \<Rightarrow> file_type \<Rightarrow> ancestor_identity list option \<Rightarrow> error + 'd dir_entry" where
  "from_raw_on pf dflt depth parent_path md md_ext name ft ancestors =
     Inr \<lparr>de_depth = depth, de_file_name = name, de_file_type = ft, de_client_state = dflt,
          de_parent_path = parent_path,
          de_read_children_path = (if ft_is_dir ft then Some (pl_join pf parent_path name) else None),
          de_read_children_error = None, de_read_metadata = (md \<noteq> None), de_metadata = md,
          de_read_metadata_ext = (md_ext \<noteq> None), de_metadata_ext = md_ext,
          de_follow_link = False, de_follow_link_ancestors = ancestors\<rparr>"

abbreviation from_raw :: "'d \<Rightarrow> usize \<Rightarrow> path \<Rightarrow> meta_data option \<Rightarrow> meta_data_ext option \<Rightarrow>
    os_string \<Rightarrow> file_type \<Rightarrow> ancestor_identity list option \<Rightarrow> error + 'd dir_entry" where
  "from_raw \<equiv> from_raw_on unix_platform"

definition from_path_on :: "platform \<Rightarrow> fs_ops \<Rightarrow> 'd \<Rightarrow> usize \<Rightarrow> path \<Rightarrow> bool \<Rightarrow> bool \<Rightarrow> bool \<Rightarrow>
    ancestor_identity list option \<Rightarrow> error + 'd dir_entry" where
  "from_path_on pf fs dflt depth p read_md read_md_ext follow_link ancestors =
     (case result_map_err (error_from_path depth p)
             (if follow_link then fs_metadata fs p else fs_symlink_metadata fs p) of
        Inl e \<Rightarrow> Inl e
      | Inr md \<Rightarrow> Inr
          \<lparr>de_depth = depth,
           de_file_name = (case pl_file_name pf p of Some n \<Rightarrow> n | None \<Rightarrow> p),
           de_file_type = fm_file_type (pl_target pf) md, de_client_state = dflt,
           de_parent_path = (case pl_parent pf p of Some q \<Rightarrow> q | None \<Rightarrow> []),
           de_read_children_path = (if ft_is_dir (fm_file_type (pl_target pf) md) then Some p else None),
           de_read_children_error = None,
           de_read_metadata = read_md,
           de_metadata = (if read_md then Some (from_fs_metadata (pl_target pf) md) else None),
           de_read_metadata_ext = read_md_ext,
           de_metadata_ext =
             (if read_md then if read_md_ext then Some (get_metadata_ext (pl_target pf) md) else None else None),
           de_follow_link = follow_link, de_follow_link_ancestors = ancestors\<rparr>)"

abbreviation from_path :: "fs_ops \<Rightarrow> 'd \<Rightarrow> usize \<Rightarrow> path \<Rightarrow> bool \<Rightarrow> bool \<Rightarrow> bool \<Rightarrow>
    ancestor_identity list option \<Rightarrow> error + 'd dir_entry" where
  "from_path \<equiv> from_path_on unix_platform"

text \<open>\<open>std::fs::DirEntry\<close>: the name, the path and the results of its two system calls.\<close>

record fs_dir_entry =
  fde_file_name :: os_string
  fde_path :: path
  fde_file_type :: "io_error + file_type"
  fde_metadata :: "io_error + fs_metadata"

definition from_entry :: "'d \<Rightarrow> usize \<Rightarrow> path \<Rightarrow> meta_data option \<Rightarrow> meta_data_ext option \<Rightarrow>
    fs_dir_entry \<Rightarrow> ancestor_identity list option \<Rightarrow> error + 'd dir_entry" where
  "from_entry dflt depth parent_path md md_ext entry ancestors =
     (case result_map_err (error_from_io depth) (fde_file_type entry) of
        Inl e \<Rightarrow> Inl e
      | Inr ft \<Rightarrow> Inr
          \<lparr>de_depth = depth, de_file_name = fde_file_name entry, de_file_type = ft,
           de_client_state = dflt, de_parent_path = parent_path,
           de_read_children_path = (if ft_is_dir ft then Some (fde_path entry) else None),
           de_read_children_error = None, de_read_metadata = (md \<noteq> None), de_metadata = md,
           de_read_metadata_ext = (md_ext \<noteq> None), de_metadata_ext = md_ext,
           de_follow_link = False, de_follow_link_ancestors = ancestors\<rparr>)"

section \<open>Symbolic links\<close>

text \<open>The search of \<open>follow_symlink\<close> for an ancestor with the target's identity, innermost first.\<close>

definition find_loop_on :: "platform \<Rightarrow> fs_ops \<Rightarrow> path \<Rightarrow> ancestor_identity list option \<Rightarrow> ancestor_identity option" where
  "find_loop_on pf fs canonical_target ancestors =
     (case fs_metadata fs canonical_target of
        Inl e \<Rightarrow> None
      | Inr target_meta \<Rightarrow>
          (case ancestors of
             None \<Rightarrow> None
           | Some as \<Rightarrow> find (ancestor_identity_eq (get_metadata_ext (pl_target pf) target_meta)) (rev as)))"

abbreviation find_loop :: "fs_ops \<Rightarrow> path \<Rightarrow> ancestor_identity list option \<Rightarrow> ancestor_identity option" where
  "find_loop \<equiv> find_loop_on unix_platform"

definition link_target_on :: "platform \<Rightarrow> fs_ops \<Rightarrow> path \<Rightarrow> path \<Rightarrow> path" where
  "link_target_on pf fs parent target =
     (let resolved_target = (if pl_is_absolute pf target then target else pl_join pf parent target)
      in case fs_canonicalize fs resolved_target of Inr c \<Rightarrow> c | Inl e \<Rightarrow> resolved_target)"

abbreviation link_target :: "fs_ops \<Rightarrow> path \<Rightarrow> path \<Rightarrow> path" where
  "link_target \<equiv> link_target_on unix_platform"

definition follow_symlink_on :: "platform \<Rightarrow> fs_ops \<Rightarrow> 'd \<Rightarrow> 'd dir_entry \<Rightarrow> error + 'd dir_entry" where
  "follow_symlink_on pf fs dflt self =
     (let p = de_path_on pf self; origins = de_follow_link_ancestors self in
      case from_path_on pf fs dflt (de_depth self) p (de_read_metadata self) (de_read_metadata_ext self)
             True origins of
        Inl e \<Rightarrow> Inl e
      | Inr dent \<Rightarrow>
          if ft_is_dir (de_file_type dent)
          then case result_map_err (error_from_io (de_depth self)) (fs_read_link fs p) of
                 Inl e \<Rightarrow> Inl e
               | Inr target \<Rightarrow>
                   (case find_loop_on pf fs (link_target_on pf fs (de_parent_path self) target) origins of
                      Some a \<Rightarrow> Inl (error_from_loop (de_depth self) (ancestor_path a) p)
                    | None \<Rightarrow> Inr dent)
          else Inr dent)"

abbreviation follow_symlink :: "fs_ops \<Rightarrow> 'd \<Rightarrow> 'd dir_entry \<Rightarrow> error + 'd dir_entry" where
  "follow_symlink \<equiv> follow_symlink_on unix_platform"

definition process_dir_entry_result_on :: "platform \<Rightarrow> fs_ops \<Rightarrow> 'd \<Rightarrow> error + 'd dir_entry \<Rightarrow> bool \<Rightarrow> error + 'd dir_entry" where
  "process_dir_entry_result_on pf fs dflt result follow_links =
     (case result of
        Inl err \<Rightarrow> Inl err
      | Inr dent \<Rightarrow>
          (case (if follow_links \<and> ft_is_symlink (de_file_type dent)
                 then follow_symlink_on pf fs dflt dent else Inr dent) of
             Inl e \<Rightarrow> Inl e
           | Inr dent \<Rightarrow>
               if \<not> follow_links \<and> de_depth dent = 0 \<and> ft_is_symlink (de_file_type dent)
               then case result_map_err (error_from_path 0 (de_path_on pf dent)) (fs_metadata fs (de_path_on pf dent)) of
                      Inl e \<Rightarrow> Inl e
                    | Inr md \<Rightarrow>
                        Inr (if ft_is_dir (fm_file_type (pl_target pf) md)
                             then dent\<lparr>de_read_children_path := Some (de_path_on pf dent)\<rparr> else dent)
               else Inr dent))"

abbreviation process_dir_entry_result :: "fs_ops \<Rightarrow> 'd \<Rightarrow> error + 'd dir_entry \<Rightarrow> bool \<Rightarrow> error + 'd dir_entry" where
  "process_dir_entry_result \<equiv> process_dir_entry_result_on unix_platform"

section \<open>Properties of entries\<close>

lemma from_raw_Inr: "\<exists>e. from_raw_on pf dflt d p md mx n ft as = Inr e"
  by (simp add: from_raw_on_def)

lemma from_raw_sel:
  assumes "from_raw_on pf dflt d p md mx n ft as = Inr e"
  shows "de_depth e = d" "de_file_name e = n" "de_file_type e = ft" "de_metadata e = md"
    "de_read_children_path e = (if ft_is_dir ft then Some (pl_join pf p n) else None)"
    "de_path_on pf e = pl_join pf p n" "de_follow_link_ancestors e = as"
  using assms by (auto simp: from_raw_on_def de_path_on_def)

lemma from_path_depth: "from_path_on pf fs dflt d p rm rx fl as = Inr e \<Longrightarrow> de_depth e = d"
  by (auto simp: from_path_on_def split: sum.splits)

lemma from_entry_depth: "from_entry dflt d p md mx i as = Inr e \<Longrightarrow> de_depth e = d"
  by (auto simp: from_entry_def split: sum.splits)

lemma follow_symlink_depth:
  assumes "follow_symlink_on pf fs dflt e = Inr x"
  shows "de_depth x = de_depth e"
proof -
  obtain d where d: "from_path_on pf fs dflt (de_depth e) (de_path_on pf e) (de_read_metadata e)
      (de_read_metadata_ext e) True (de_follow_link_ancestors e) = Inr d" and x: "x = d"
    using assms unfolding follow_symlink_on_def Let_def
    by (simp split: sum.splits if_split_asm option.splits)
  show ?thesis using from_path_depth [OF d] x by simp
qed

lemma process_keeps_depth:
  assumes "process_dir_entry_result_on pf fs dflt (Inr e) fl = Inr e'"
  shows "de_depth e' = de_depth e"
  using assms unfolding process_dir_entry_result_on_def
  by (simp split: sum.splits if_split_asm) (auto dest: follow_symlink_depth)

text \<open>
  Without link following, entries below the root pass through unchanged, so an entry is
  descended into exactly when its own type is a directory.
\<close>

lemma process_no_follow: "0 < de_depth e \<Longrightarrow> process_dir_entry_result_on pf fs dflt (Inr e) False = Inr e"
  by (simp add: process_dir_entry_result_on_def)

section \<open>Loop detection\<close>

lemma find_rev_cases:
  obtains "find P (rev xs) = None" "\<forall>x \<in> set xs. \<not> P x"
  | ys x zs where "find P (rev xs) = Some x" "xs = ys @ x # zs" "P x" "\<forall>z \<in> set zs. \<not> P z"
proof (cases "\<exists>x \<in> set xs. P x")
  case False
  then show thesis using that(1) by (simp add: find_None_iff)
next
  case True
  then obtain ys x zs where xs: "xs = ys @ x # zs" "P x" "\<forall>z \<in> set zs. \<not> P z"
    using split_list_last_prop by (metis (full_types))
  then have "find P (rev zs) = None" by (simp add: find_None_iff)
  moreover have "find P (us @ vs) = (case find P us of None \<Rightarrow> find P vs | Some u \<Rightarrow> Some u)" for us vs
    by (induction us) auto
  ultimately have "find P (rev xs) = Some x" using xs(1,2) by simp
  then show thesis using xs by (rule that(2))
qed

text \<open>
  C24. Loop detection when a link to a directory is followed: the link is refused exactly when the
  identity of its target is among the ancestors, and the error names the innermost such ancestor
  and the link; otherwise the entry is the directory behind the link.
\<close>

theorem followed_link_refused_iff_ancestor:
  assumes "from_path_on pf fs dflt (de_depth e) (de_path_on pf e) (de_read_metadata e) (de_read_metadata_ext e) True
      (de_follow_link_ancestors e) = Inr dent"
    and "ft_is_dir (de_file_type dent)" and "fs_read_link fs (de_path_on pf e) = Inr target"
    and "fs_metadata fs (link_target_on pf fs (de_parent_path e) target) = Inr m"
    and "de_follow_link_ancestors e = Some as"
  shows "follow_symlink_on pf fs dflt e = Inr dent \<and>
           (\<forall>a \<in> set as. \<not> ancestor_identity_eq (get_metadata_ext (pl_target pf) m) a) \<or>
         (\<exists>outer a inner. as = outer @ a # inner \<and> ancestor_identity_eq (get_metadata_ext (pl_target pf) m) a \<and>
           (\<forall>b \<in> set inner. \<not> ancestor_identity_eq (get_metadata_ext (pl_target pf) m) b) \<and>
           follow_symlink_on pf fs dflt e = Inl (error_from_loop (de_depth e) (ancestor_path a) (de_path_on pf e)))"
proof -
  have "follow_symlink_on pf fs dflt e =
      (case find (ancestor_identity_eq (get_metadata_ext (pl_target pf) m)) (rev as) of
         Some a \<Rightarrow> Inl (error_from_loop (de_depth e) (ancestor_path a) (de_path_on pf e)) | None \<Rightarrow> Inr dent)"
    using assms by (simp add: follow_symlink_on_def find_loop_on_def Let_def)
  then show ?thesis
    by (cases rule: find_rev_cases [of "ancestor_identity_eq (get_metadata_ext (pl_target pf) m)" as]) auto
qed

text \<open>A file system with one directory \<open>/r\<close>, to which every link leads.\<close>

definition directory_metadata :: fs_metadata where
  "directory_metadata =
     \<lparr>fm_mode = S_IFDIR, fm_len = 4096, fm_created = Inl (OsError 95 OtherKind),
      fm_modified = Inl (OsError 95 OtherKind), fm_accessed = Inl (OsError 95 OtherKind), fm_ino = 1,
      fm_dev = 1, fm_nlink = 2, fm_blksize = 4096, fm_blocks = 0, fm_uid = 0, fm_gid = 0, fm_rdev = 0,
      fm_win_is_directory = True, fm_win_is_symlink = False, fm_file_attributes = 0,
      fm_volume_serial_number = None, fm_number_of_links = None, fm_file_index = None\<rparr>"

definition example_fs :: fs_ops where
  "example_fs =
     \<lparr>fs_metadata = (\<lambda>p. Inr directory_metadata), fs_symlink_metadata = (\<lambda>p. Inr directory_metadata),
      fs_read_link = (\<lambda>p. Inr [47, 114]), fs_canonicalize = (\<lambda>p. Inr p)\<rparr>"

definition example_link :: "ancestor_identity list \<Rightarrow> unit dir_entry" where
  "example_link as =
     \<lparr>de_depth = 1, de_file_name = [108], de_file_type = UnixFileType S_IFLNK, de_client_state = (),
      de_parent_path = [47, 114], de_read_children_path = None, de_read_children_error = None,
      de_read_metadata = False, de_metadata = None, de_read_metadata_ext = False, de_metadata_ext = None,
      de_follow_link = False, de_follow_link_ancestors = Some as\<rparr>"

theorem followed_link_refused_iff_ancestor_witness:
  "follow_symlink example_fs () (example_link [UnixIdentity [47, 114] 1 1]) =
     Inl (error_from_loop 1 [47, 114] [47, 114, 47, 108])"
proof -
  let ?e = "example_link [UnixIdentity [47, 114] 1 1]"
  have sel: "de_follow_link_ancestors ?e = Some [UnixIdentity [47, 114] 1 1]" "de_depth ?e = 1"
    by (simp_all add: example_link_def)
  have path: "de_path ?e = [47, 114, 47, 108]" by code_simp
  obtain dent where d: "from_path example_fs () (de_depth ?e) (de_path ?e) (de_read_metadata ?e)
      (de_read_metadata_ext ?e) True (de_follow_link_ancestors ?e) = Inr dent"
    and ft: "ft_is_dir (de_file_type dent)"
    by (simp add: from_path_on_def example_fs_def directory_metadata_def fm_file_type_def S_IFDIR_def S_IFMT_def)
  have l: "fs_read_link example_fs (de_path ?e) = Inr [47, 114]" by (simp add: example_fs_def)
  have m: "fs_metadata example_fs (link_target example_fs (de_parent_path ?e) [47, 114]) = Inr directory_metadata"
    by (simp add: example_fs_def)
  have "ancestor_identity_eq (get_metadata_ext Unix directory_metadata) (UnixIdentity [47, 114] 1 1)" by code_simp
  then show ?thesis
    using followed_link_refused_iff_ancestor [OF d ft l m sel(1)] by (auto simp: path sel(2) Cons_eq_append_conv)
qed

end
