(* ===== verification/Index_Path.thy ===== *)
theory Index_Path
  imports Prelude
begin

text \<open>
  The keys of the two queues: \<open>core/index_path.rs\<close> (the position of a directory in the walk,
  with its reversed order), \<open>core/ordered.rs\<close> (a result with its position and number of
  children) and \<open>core/weighted.rs\<close> (a unit of work with its position and scheduling weight).
  Each \<open>Ord\<close> implementation is shown to satisfy the contract \<open>rust_ord\<close>.
\<close>

section \<open>\<open>IndexPath\<close>\<close>

datatype index_path = IndexPath (indices: "usize list")

definition index_path_new :: "usize list \<Rightarrow> index_path" where
  "index_path_new is = IndexPath is"

definition adding :: "index_path \<Rightarrow> usize \<Rightarrow> index_path" where
  "adding self index = index_path_new (indices self @ [index])"

definition index_path_push :: "index_path \<Rightarrow> usize \<Rightarrow> index_path" where
  "index_path_push self index = IndexPath (indices self @ [index])"

text \<open>
  \<open>last_mut()\<close> of an empty path is \<open>None\<close> and nothing happens (a debug build asserts that the
  path is not empty). An index numbers a child in a \<open>Vec\<close>, so it stays below \<open>usize::MAX\<close>.
\<close>

definition increment_last :: "index_path \<Rightarrow> index_path" where
  "increment_last self =
     (if indices self = [] then self
      else IndexPath (butlast (indices self) @ [Suc (last (indices self))]))"

definition index_path_pop :: "index_path \<Rightarrow> usize option \<times> index_path" where
  "index_path_pop self =
     (if indices self = [] then (None, self)
      else (Some (last (indices self)), IndexPath (butlast (indices self))))"

definition index_path_is_empty :: "index_path \<Rightarrow> bool" where
  "index_path_is_empty self \<longleftrightarrow> indices self = []"

definition index_path_eq :: "index_path \<Rightarrow> index_path \<Rightarrow> bool" where
  "index_path_eq self o' \<longleftrightarrow> indices self = indices o'"

definition index_path_cmp :: "index_path \<Rightarrow> index_path \<Rightarrow> ordering" where
  "index_path_cmp self o' = cmp_slice cmp_nat (indices o') (indices self)"

definition index_path_partial_cmp :: "index_path \<Rightarrow> index_path \<Rightarrow> ordering option" where
  "index_path_partial_cmp self o' = Some (cmp_slice cmp_nat (indices o') (indices self))"

lemma indices_eq_iff: "indices a = indices b \<longleftrightarrow> a = b"
  by (cases a; cases b) simp

lemma index_path_eq_iff [simp]: "index_path_eq a b \<longleftrightarrow> a = b"
  by (simp add: index_path_eq_def indices_eq_iff)

lemma rust_ord_index_path: "rust_ord index_path_cmp"
  by (rule rust_ord.intro)
    (auto simp: index_path_cmp_def dest: slice_ord.cmp_trans intro: slice_ord.cmp_flip)

interpretation index_path_ord: rust_ord index_path_cmp
  by (rule rust_ord_index_path)

lemma index_path_cmp_Equal [ord_simps]: "index_path_cmp a b = Equal \<longleftrightarrow> a = b"
  by (auto simp: index_path_cmp_def cmp_slice_nat_Equal indices_eq_iff)

text \<open>The order of \<open>IndexPath\<close> as an instance of the library's linear orders.\<close>

instantiation index_path :: linorder
begin

definition less_eq_index_path :: "index_path \<Rightarrow> index_path \<Rightarrow> bool" where
  "a \<le> b \<longleftrightarrow> index_path_cmp a b \<noteq> Greater"

definition less_index_path :: "index_path \<Rightarrow> index_path \<Rightarrow> bool" where
  "a < b \<longleftrightarrow> index_path_cmp a b = Less"

instance
proof
  fix a b c :: index_path
  show "a < b \<longleftrightarrow> a \<le> b \<and> \<not> b \<le> a"
    using index_path_ord.cmp_Greater_iff [of b a] by (auto simp: less_eq_index_path_def less_index_path_def)
  show "a \<le> a" by (simp add: less_eq_index_path_def index_path_ord.cmp_refl)
  show "a \<le> b \<Longrightarrow> b \<le> c \<Longrightarrow> a \<le> c"
    unfolding less_eq_index_path_def by (rule index_path_ord.cmp_trans)
  show "a \<le> b \<Longrightarrow> b \<le> a \<Longrightarrow> a = b"
    using index_path_ord.cmp_Greater_iff [of b a]
    by (cases "index_path_cmp a b") (auto simp: less_eq_index_path_def ord_simps)
  show "a \<le> b \<or> b \<le> a"
    using index_path_ord.cmp_total by (simp add: less_eq_index_path_def)
qed

end

text \<open>A parent is greater than its descendants, an earlier sibling than a later one and its subtree.\<close>

lemma index_path_parent_greater: "IndexPath (is @ j # js) < IndexPath is"
  by (simp add: less_index_path_def index_path_cmp_def cmp_slice_nat_prefix)

lemma index_path_sibling_greater:
  "i < j \<Longrightarrow> IndexPath (is @ j # js) < IndexPath (is @ i # ks)"
  by (simp add: less_index_path_def index_path_cmp_def cmp_slice_nat_diverge)

lemma indices_adding [simp]: "indices (adding p i) = indices p @ [i]"
  by (simp add: adding_def index_path_new_def)

lemma adding_inject [simp]: "adding p i = adding q j \<longleftrightarrow> p = q \<and> i = j"
  by (auto simp: index_path.expand adding_def index_path_new_def)

lemma increment_last_adding [simp]: "increment_last (adding p i) = adding p (Suc i)"
  by (simp add: increment_last_def index_path.expand)

lemma index_path_push_eq_adding [simp]: "index_path_push p i = adding p i"
  by (simp add: index_path_push_def index_path.expand)

lemma index_path_pop_adding [simp]: "index_path_pop (adding p i) = (Some i, p)"
  by (simp add: index_path_pop_def)

lemma index_path_is_empty_adding [simp]: "\<not> index_path_is_empty (adding p i)"
  by (simp add: index_path_is_empty_def)

section \<open>\<open>Ordered\<close>\<close>

record 'a ordered =
  o_value :: 'a
  o_index_path :: index_path
  o_child_count :: usize

definition ordered_new :: "'a \<Rightarrow> index_path \<Rightarrow> usize \<Rightarrow> 'a ordered" where
  "ordered_new v p n = \<lparr>o_value = v, o_index_path = p, o_child_count = n\<rparr>"

definition ordered_eq :: "'a ordered \<Rightarrow> 'a ordered \<Rightarrow> bool" where
  "ordered_eq self o' \<longleftrightarrow> index_path_eq (o_index_path self) (o_index_path o')"

definition ordered_partial_cmp :: "'a ordered \<Rightarrow> 'a ordered \<Rightarrow> ordering option" where
  "ordered_partial_cmp self o' = index_path_partial_cmp (o_index_path self) (o_index_path o')"

definition ordered_cmp :: "'a ordered \<Rightarrow> 'a ordered \<Rightarrow> ordering" where
  "ordered_cmp self o' = index_path_cmp (o_index_path self) (o_index_path o')"

lemma ordered_new_sel [simp]:
  "o_value (ordered_new v p n) = v"
  "o_index_path (ordered_new v p n) = p"
  "o_child_count (ordered_new v p n) = n"
  by (simp_all add: ordered_new_def)

interpretation ordered_ord: rust_ord ordered_cmp
  by unfold_locales
    (auto simp: ordered_cmp_def dest: index_path_ord.cmp_trans intro: index_path_ord.cmp_flip)

lemma ordered_cmp_Less [ord_simps]: "ordered_cmp a b = Less \<longleftrightarrow> o_index_path a < o_index_path b"
  by (simp add: ordered_cmp_def less_index_path_def)

section \<open>\<open>Weighted\<close>\<close>

record 'a weighted =
  w_value :: 'a
  w_index_path :: index_path
  w_weight :: usize

definition weighted_new :: "'a \<Rightarrow> index_path \<Rightarrow> usize \<Rightarrow> 'a weighted" where
  "weighted_new v p w = \<lparr>w_value = v, w_index_path = p, w_weight = w\<rparr>"

definition weighted_eq :: "'a weighted \<Rightarrow> 'a weighted \<Rightarrow> bool" where
  "weighted_eq self other \<longleftrightarrow>
     w_weight self = w_weight other \<and> index_path_eq (w_index_path self) (w_index_path other)"

definition weighted_cmp :: "'a weighted \<Rightarrow> 'a weighted \<Rightarrow> ordering" where
  "weighted_cmp self other =
     (case cmp_nat (w_weight other) (w_weight self) of
        Equal \<Rightarrow> index_path_cmp (w_index_path self) (w_index_path other)
      | ord \<Rightarrow> ord)"

definition weighted_partial_cmp :: "'a weighted \<Rightarrow> 'a weighted \<Rightarrow> ordering option" where
  "weighted_partial_cmp self other = Some (weighted_cmp self other)"

lemma weighted_new_sel [simp]:
  "w_value (weighted_new v p w) = v"
  "w_index_path (weighted_new v p w) = p"
  "w_weight (weighted_new v p w) = w"
  by (simp_all add: weighted_new_def)

lemma weighted_cmp_not_Greater [ord_simps]:
  "weighted_cmp a b \<noteq> Greater \<longleftrightarrow>
     w_weight b < w_weight a \<or> w_weight a = w_weight b \<and> w_index_path a \<le> w_index_path b"
  by (auto simp: weighted_cmp_def less_eq_index_path_def cmp_nat_def)

interpretation weighted_ord: rust_ord weighted_cmp
proof unfold_locales
  fix x y z :: "'a weighted"
  show "weighted_cmp y x = ordering_reverse (weighted_cmp x y)"
    using index_path_ord.cmp_flip [of "w_index_path y" "w_index_path x"]
    by (auto simp: weighted_cmp_def cmp_nat_def)
  show "weighted_cmp x y \<noteq> Greater \<Longrightarrow> weighted_cmp y z \<noteq> Greater \<Longrightarrow> weighted_cmp x z \<noteq> Greater"
    by (auto simp: ord_simps)
qed

text \<open>\<open>partial_cmp\<close> agrees with \<open>cmp\<close> and \<open>eq\<close> with \<open>Equal\<close>, as \<open>BinaryHeap\<close> requires of its keys.\<close>

lemma key_orders_consistent:
  "index_path_partial_cmp p q = Some (index_path_cmp p q)"
  "ordered_partial_cmp a b = Some (ordered_cmp a b)"
  "weighted_partial_cmp v w = Some (weighted_cmp v w)"
  "index_path_eq p q \<longleftrightarrow> index_path_cmp p q = Equal"
  "ordered_eq a b \<longleftrightarrow> ordered_cmp a b = Equal"
  "weighted_eq v w \<longleftrightarrow> weighted_cmp v w = Equal"
  by (auto simp: index_path_partial_cmp_def index_path_cmp_def ordered_partial_cmp_def
      ordered_cmp_def weighted_partial_cmp_def ordered_eq_def weighted_eq_def weighted_cmp_def
      cmp_nat_def indices_eq_iff ord_simps split: ordering.splits)

section \<open>Properties\<close>

text \<open>
  C35. The keys of both queues keep the contract of \<open>Ord\<close> (a total preorder) that
  \<open>BinaryHeap\<close> relies on, and \<open>PartialOrd\<close> and \<open>PartialEq\<close> agree with it; for the scheduling key
  equality is equality of weight and position.
\<close>

theorem heap_keys_lawful:
  "rust_ord (weighted_cmp :: 'a weighted \<Rightarrow> 'a weighted \<Rightarrow> ordering) \<and>
   rust_ord (ordered_cmp :: 'b ordered \<Rightarrow> 'b ordered \<Rightarrow> ordering) \<and>
   weighted_partial_cmp (v :: 'a weighted) w = Some (weighted_cmp v w) \<and>
   ordered_partial_cmp (a :: 'b ordered) b = Some (ordered_cmp a b) \<and>
   (weighted_eq v w \<longleftrightarrow> weighted_cmp v w = Equal) \<and> (ordered_eq a b \<longleftrightarrow> ordered_cmp a b = Equal)"
  using weighted_ord.rust_ord_axioms ordered_ord.rust_ord_axioms
  by (intro conjI key_orders_consistent)

end
