(* ===== verification/Read_Dir.thy ===== *)
theory Read_Dir
  imports Dir_Entry Index_Path
begin

text \<open>
  \<open>core/read_dir.rs\<close>: what reading one directory gives, the specifications of its
  subdirectories, and the weighted specifications that go to the scheduling queue.
\<close>

record ('d, 'r) read_dir =
  read_dir_state :: 'r
  results_list :: "(error + 'd dir_entry) list"
  streamed_child_count :: usize

definition read_dir_new :: "'r \<Rightarrow> (error + 'd dir_entry) list \<Rightarrow> ('d, 'r) read_dir" where
  "read_dir_new st results =
     \<lparr>read_dir_state = st, results_list = results, streamed_child_count = 0\<rparr>"

text \<open>The closure both iterations share: \<open>each.as_ref().ok()?.read_children_spec(state)\<close>.\<close>

definition child_spec :: "'r \<Rightarrow> error + 'd dir_entry \<Rightarrow> 'r read_dir_spec option" where
  "child_spec st each = Option.bind (result_ok each) (\<lambda>e. read_children_spec e st)"

definition read_children_specs :: "('d, 'r) read_dir \<Rightarrow> 'r read_dir_spec list" where
  "read_children_specs self = List.map_filter (child_spec (read_dir_state self)) (results_list self)"

text \<open>The loop of \<open>weighted_children_specs\<close> with its counter of subdirectories and its accumulator.\<close>

fun weighted_loop :: "'r \<Rightarrow> usize \<Rightarrow> index_path \<Rightarrow> usize \<Rightarrow> (error + 'd dir_entry) list \<Rightarrow> usize \<Rightarrow>
    'r read_dir_spec weighted list \<Rightarrow> 'r read_dir_spec weighted list" where
  "weighted_loop st skip p weight [] subdir_counter specs = specs"
| "weighted_loop st skip p weight (entry_result # rest) subdir_counter specs =
     (case child_spec st entry_result of
        Some spec \<Rightarrow>
          weighted_loop st skip p weight rest (subdir_counter + 1)
            (if skip \<le> subdir_counter
             then specs @ [weighted_new spec (adding p subdir_counter) weight] else specs)
      | None \<Rightarrow> weighted_loop st skip p weight rest subdir_counter specs)"

definition weighted_children_specs ::
    "('d, 'r) read_dir \<Rightarrow> index_path \<Rightarrow> usize \<Rightarrow> 'r read_dir_spec weighted list" where
  "weighted_children_specs self p parent_weight =
     (let skip = streamed_child_count self;
          pipe_size = length (results_list self);
          weight = usize_saturating_add parent_weight pipe_size
      in weighted_loop (read_dir_state self) skip p weight (results_list self) 0 [])"

lemma child_spec_simps [simp]:
  "child_spec st (Inl e) = None"
  "child_spec st (Inr d) = read_children_spec d st"
  by (simp_all add: child_spec_def)

lemma map_filter_append: "List.map_filter f (xs @ ys) = List.map_filter f xs @ List.map_filter f ys"
  by (simp add: List.map_filter_def)

lemma map_filter_child_spec_Cons:
  "List.map_filter (child_spec st) (x # xs) =
     (case child_spec st x of Some s \<Rightarrow> [s] | None \<Rightarrow> []) @ List.map_filter (child_spec st) xs"
  by (auto simp: List.map_filter_def)

lemma read_children_specs_new [simp]:
  "read_children_specs (read_dir_new st rs) = List.map_filter (child_spec st) rs"
  by (simp add: read_children_specs_def read_dir_new_def)

lemma weighted_loop_eq:
  "weighted_loop st skip p weight rs k specs =
     specs @ map (\<lambda>(i, s). weighted_new s (adding p i) weight)
       (filter (\<lambda>(i, s). skip \<le> i) (enumerate k (List.map_filter (child_spec st) rs)))"
  by (induction rs arbitrary: k specs)
    (auto simp: List.map_filter_def split: option.splits)

lemma filter_enumerate_drop:
  "filter (\<lambda>(i, s). n + k \<le> i) (enumerate k xs) = drop n (enumerate k xs)"
proof (induction n arbitrary: k xs)
  case 0
  have "\<forall>x \<in> set (enumerate k xs). k \<le> fst x" by (auto simp: in_set_enumerate_eq)
  then show ?case by (auto simp: filter_id_conv case_prod_unfold)
next
  case (Suc n)
  show ?case
  proof (cases xs)
    case (Cons x ys)
    then show ?thesis using Suc [of "Suc k" ys] by simp
  qed simp
qed

text \<open>
  The scheduling list is the list of subdirectories with the streamed ones dropped; the
  position of a subdirectory is its rank among the subdirectories, so positions have no gap.
\<close>

lemma weighted_children_specs_eq:
  "weighted_children_specs rd p w =
     map (\<lambda>(i, s). weighted_new s (adding p i) (usize_saturating_add w (length (results_list rd))))
       (drop (streamed_child_count rd) (enumerate 0 (read_children_specs rd)))"
  using filter_enumerate_drop [of "streamed_child_count rd" 0 "read_children_specs rd"]
  by (simp add: weighted_children_specs_def Let_def weighted_loop_eq read_children_specs_def)

lemma weighted_children_specs_length:
  "length (weighted_children_specs rd p w) = length (read_children_specs rd) - streamed_child_count rd"
  by (simp add: weighted_children_specs_eq)

section \<open>Properties\<close>

text \<open>
  The scheduling list of a read directory against its specification: the subdirectories in
  their order, without the ones already streamed, each at the position of its rank among all
  subdirectories (so positions have no gap) and with the same saturating weight.
\<close>

theorem weighted_children_are_ranked:
  "weighted_children_specs rd p w =
     map (\<lambda>(i, s). weighted_new s (adding p i) (usize_saturating_add w (length (results_list rd))))
       (drop (streamed_child_count rd) (enumerate 0 (read_children_specs rd)))"
  by (rule weighted_children_specs_eq)

end
