(* ===== verification/Walk_Options.thy ===== *)
theory Walk_Options
  imports Dir_Entry
begin

text \<open>
  The builder of \<open>lib.rs\<close>: \<open>Parallelism\<close>, \<open>WalkDirOptions\<close>, \<open>WalkDirGeneric::new\<close> and one
  definition per setter. A builder state is what a chain of these calls gives; the invariant of
  the depth bounds holds for all of them.
\<close>

section \<open>Options\<close>

text \<open>Durations are in microseconds; a pool of rayon is an opaque value of type \<open>'p\<close>.\<close>

datatype 'p parallelism =
    Serial
  | RayonDefaultPool (default_busy_timeout: nat)
  | RayonExistingPool (existing_pool: 'p) (existing_busy_timeout: "nat option")
  | RayonNewPool (num_threads: usize)

fun parallelism_timeout :: "'p parallelism \<Rightarrow> nat option" where
  "parallelism_timeout Serial = None"
| "parallelism_timeout (RayonNewPool n) = None"
| "parallelism_timeout (RayonDefaultPool busy_timeout) = Some busy_timeout"
| "parallelism_timeout (RayonExistingPool pool busy_timeout) = busy_timeout"

text \<open>
  \<open>Parallelism::spawn\<close>: where the work runs. The calling thread keeps one pool of its own, built on the
  first request (\<open>builds\<close> says whether rayon can build it); \<open>tls\<close> is the number of threads it was built with.
\<close>

datatype 'p spawn_target = OnCaller | OnDefaultPool | OnExistingPool 'p | OnThreadPool usize

fun parallelism_spawn :: "(usize \<Rightarrow> bool) \<Rightarrow> 'p parallelism \<Rightarrow> usize option \<Rightarrow> 'p spawn_target \<times> usize option" where
  "parallelism_spawn builds Serial tls = (OnCaller, tls)"
| "parallelism_spawn builds (RayonDefaultPool _) tls = (OnDefaultPool, tls)"
| "parallelism_spawn builds (RayonNewPool n) tls =
     (let tls = (case tls of None \<Rightarrow> if builds n then Some n else None | Some m \<Rightarrow> Some m)
      in (case tls of Some m \<Rightarrow> OnThreadPool m | None \<Rightarrow> OnDefaultPool, tls))"
| "parallelism_spawn builds (RayonExistingPool pool _) tls = (OnExistingPool pool, tls)"

text \<open>The pool of a thread is never rebuilt, whatever number of threads is asked for later.\<close>

lemma thread_pool_never_rebuilt:
  "parallelism_spawn builds (RayonNewPool n) (Some m) = (OnThreadPool m, Some m)"
  by simp

type_synonym ('d, 'r) process_read_dir_function =
  "usize option \<Rightarrow> path \<Rightarrow> 'r \<Rightarrow> (error + 'd dir_entry) list \<Rightarrow> 'r \<times> (error + 'd dir_entry) list"

record ('p, 'd, 'r) walk_dir_options =
  opt_sort :: bool
  opt_min_depth :: usize
  opt_max_depth :: usize
  opt_skip_hidden :: bool
  opt_follow_links :: bool
  opt_read_metadata :: bool
  opt_read_metadata_ext :: bool
  opt_read_hardlink_info :: bool
  opt_dir_entry_capacity :: usize
  opt_parallelism :: "'p parallelism"
  opt_root_read_dir_state :: 'r
  opt_process_read_dir :: "('d, 'r) process_read_dir_function option"
  opt_max_retries :: u8
  opt_channel_capacity :: usize
  opt_max_receive_buffer_size :: usize

record ('p, 'd, 'r) walk_dir =
  wd_root :: path
  wd_options :: "('p, 'd, 'r) walk_dir_options"

definition walk_dir_new :: "'r \<Rightarrow> path \<Rightarrow> ('p, 'd, 'r) walk_dir" where
  "walk_dir_new dflt root =
     \<lparr>wd_root = root,
      wd_options =
        \<lparr>opt_sort = False, opt_min_depth = 0, opt_max_depth = usize_MAX, opt_skip_hidden = False,
         opt_follow_links = False, opt_read_metadata = False, opt_read_metadata_ext = False,
         opt_read_hardlink_info = False, opt_dir_entry_capacity = 512,
         opt_parallelism = RayonDefaultPool 1000000, opt_root_read_dir_state = dflt,
         opt_process_read_dir = None, opt_max_retries = 3, opt_channel_capacity = 4096,
         opt_max_receive_buffer_size = 256\<rparr>\<rparr>"

section \<open>Setters\<close>

definition set_sort :: "bool \<Rightarrow> ('p, 'd, 'r) walk_dir \<Rightarrow> ('p, 'd, 'r) walk_dir" where
  "set_sort b self = self\<lparr>wd_options := (wd_options self)\<lparr>opt_sort := b\<rparr>\<rparr>"

definition set_skip_hidden :: "bool \<Rightarrow> ('p, 'd, 'r) walk_dir \<Rightarrow> ('p, 'd, 'r) walk_dir" where
  "set_skip_hidden b self = self\<lparr>wd_options := (wd_options self)\<lparr>opt_skip_hidden := b\<rparr>\<rparr>"

definition set_follow_links :: "bool \<Rightarrow> ('p, 'd, 'r) walk_dir \<Rightarrow> ('p, 'd, 'r) walk_dir" where
  "set_follow_links b self = self\<lparr>wd_options := (wd_options self)\<lparr>opt_follow_links := b\<rparr>\<rparr>"

definition set_min_depth :: "usize \<Rightarrow> ('p, 'd, 'r) walk_dir \<Rightarrow> ('p, 'd, 'r) walk_dir" where
  "set_min_depth depth self =
     (let opts = (wd_options self)\<lparr>opt_min_depth := depth\<rparr>;
          opts = (if opt_max_depth opts < opt_min_depth opts
                  then opts\<lparr>opt_min_depth := opt_max_depth opts\<rparr> else opts)
      in self\<lparr>wd_options := opts\<rparr>)"

definition set_max_depth :: "usize \<Rightarrow> ('p, 'd, 'r) walk_dir \<Rightarrow> ('p, 'd, 'r) walk_dir" where
  "set_max_depth depth self =
     (let opts = (wd_options self)\<lparr>opt_max_depth := depth\<rparr>;
          opts = (if opt_max_depth opts < opt_min_depth opts
                  then opts\<lparr>opt_max_depth := opt_min_depth opts\<rparr> else opts);
          opts = (if opt_max_depth opts < 2 then opts\<lparr>opt_parallelism := Serial\<rparr> else opts)
      in self\<lparr>wd_options := opts\<rparr>)"

definition set_read_metadata :: "bool \<Rightarrow> ('p, 'd, 'r) walk_dir \<Rightarrow> ('p, 'd, 'r) walk_dir" where
  "set_read_metadata b self = self\<lparr>wd_options := (wd_options self)\<lparr>opt_read_metadata := b\<rparr>\<rparr>"

definition set_read_metadata_ext :: "bool \<Rightarrow> ('p, 'd, 'r) walk_dir \<Rightarrow> ('p, 'd, 'r) walk_dir" where
  "set_read_metadata_ext b self = self\<lparr>wd_options := (wd_options self)\<lparr>opt_read_metadata_ext := b\<rparr>\<rparr>"

definition set_read_hardlink_info :: "bool \<Rightarrow> ('p, 'd, 'r) walk_dir \<Rightarrow> ('p, 'd, 'r) walk_dir" where
  "set_read_hardlink_info b self = self\<lparr>wd_options := (wd_options self)\<lparr>opt_read_hardlink_info := b\<rparr>\<rparr>"

definition set_dir_entry_capacity :: "usize \<Rightarrow> ('p, 'd, 'r) walk_dir \<Rightarrow> ('p, 'd, 'r) walk_dir" where
  "set_dir_entry_capacity n self = self\<lparr>wd_options := (wd_options self)\<lparr>opt_dir_entry_capacity := n\<rparr>\<rparr>"

definition set_parallelism :: "'p parallelism \<Rightarrow> ('p, 'd, 'r) walk_dir \<Rightarrow> ('p, 'd, 'r) walk_dir" where
  "set_parallelism p self = self\<lparr>wd_options := (wd_options self)\<lparr>opt_parallelism := p\<rparr>\<rparr>"

definition set_root_read_dir_state :: "'r \<Rightarrow> ('p, 'd, 'r) walk_dir \<Rightarrow> ('p, 'd, 'r) walk_dir" where
  "set_root_read_dir_state st self =
     self\<lparr>wd_options := (wd_options self)\<lparr>opt_root_read_dir_state := st\<rparr>\<rparr>"

definition set_process_read_dir ::
    "('d, 'r) process_read_dir_function \<Rightarrow> ('p, 'd, 'r) walk_dir \<Rightarrow> ('p, 'd, 'r) walk_dir" where
  "set_process_read_dir f self =
     self\<lparr>wd_options := (wd_options self)\<lparr>opt_process_read_dir := Some f\<rparr>\<rparr>"

definition set_max_retries :: "u8 \<Rightarrow> ('p, 'd, 'r) walk_dir \<Rightarrow> ('p, 'd, 'r) walk_dir" where
  "set_max_retries n self = self\<lparr>wd_options := (wd_options self)\<lparr>opt_max_retries := n\<rparr>\<rparr>"

definition set_channel_capacity :: "usize \<Rightarrow> ('p, 'd, 'r) walk_dir \<Rightarrow> ('p, 'd, 'r) walk_dir" where
  "set_channel_capacity n self = self\<lparr>wd_options := (wd_options self)\<lparr>opt_channel_capacity := n\<rparr>\<rparr>"

definition set_max_receive_buffer_size ::
    "usize \<Rightarrow> ('p, 'd, 'r) walk_dir \<Rightarrow> ('p, 'd, 'r) walk_dir" where
  "set_max_receive_buffer_size n self =
     self\<lparr>wd_options := (wd_options self)\<lparr>opt_max_receive_buffer_size := n\<rparr>\<rparr>"

lemmas setter_defs = set_sort_def set_skip_hidden_def set_follow_links_def set_min_depth_def
  set_max_depth_def set_read_metadata_def set_read_metadata_ext_def set_read_hardlink_info_def
  set_dir_entry_capacity_def set_parallelism_def set_root_read_dir_state_def
  set_process_read_dir_def set_max_retries_def set_channel_capacity_def
  set_max_receive_buffer_size_def

text \<open>\<open>Clone for WalkDirOptions\<close> copies every field.\<close>

definition clone_options :: "('p, 'd, 'r) walk_dir_options \<Rightarrow> ('p, 'd, 'r) walk_dir_options" where
  "clone_options self =
     \<lparr>opt_sort = opt_sort self, opt_min_depth = opt_min_depth self,
      opt_max_depth = opt_max_depth self, opt_skip_hidden = opt_skip_hidden self,
      opt_follow_links = opt_follow_links self, opt_read_metadata = opt_read_metadata self,
      opt_read_metadata_ext = opt_read_metadata_ext self,
      opt_read_hardlink_info = opt_read_hardlink_info self,
      opt_dir_entry_capacity = opt_dir_entry_capacity self,
      opt_parallelism = opt_parallelism self,
      opt_root_read_dir_state = opt_root_read_dir_state self,
      opt_process_read_dir = opt_process_read_dir self, opt_max_retries = opt_max_retries self,
      opt_channel_capacity = opt_channel_capacity self,
      opt_max_receive_buffer_size = opt_max_receive_buffer_size self\<rparr>"

lemma clone_options_id [simp]: "clone_options opts = opts"
  by (simp add: clone_options_def)

section \<open>Chains of builder calls\<close>

inductive built :: "'r \<Rightarrow> path \<Rightarrow> ('p, 'd, 'r) walk_dir \<Rightarrow> bool" for dflt root where
  new: "built dflt root (walk_dir_new dflt root)"
| sort: "built dflt root b \<Longrightarrow> built dflt root (set_sort x b)"
| skip_hidden: "built dflt root b \<Longrightarrow> built dflt root (set_skip_hidden x b)"
| follow_links: "built dflt root b \<Longrightarrow> built dflt root (set_follow_links x b)"
| min_depth: "built dflt root b \<Longrightarrow> n \<le> usize_MAX \<Longrightarrow> built dflt root (set_min_depth n b)"
| max_depth: "built dflt root b \<Longrightarrow> n \<le> usize_MAX \<Longrightarrow> built dflt root (set_max_depth n b)"
| read_metadata: "built dflt root b \<Longrightarrow> built dflt root (set_read_metadata x b)"
| read_metadata_ext: "built dflt root b \<Longrightarrow> built dflt root (set_read_metadata_ext x b)"
| read_hardlink_info: "built dflt root b \<Longrightarrow> built dflt root (set_read_hardlink_info x b)"
| dir_entry_capacity: "built dflt root b \<Longrightarrow> built dflt root (set_dir_entry_capacity n b)"
| parallelism: "built dflt root b \<Longrightarrow> built dflt root (set_parallelism p b)"
| root_read_dir_state: "built dflt root b \<Longrightarrow> built dflt root (set_root_read_dir_state st b)"
| process_read_dir: "built dflt root b \<Longrightarrow> built dflt root (set_process_read_dir f b)"
| max_retries: "built dflt root b \<Longrightarrow> built dflt root (set_max_retries k b)"
| channel_capacity: "built dflt root b \<Longrightarrow> built dflt root (set_channel_capacity n b)"
| max_receive_buffer_size: "built dflt root b \<Longrightarrow> built dflt root (set_max_receive_buffer_size n b)"

text \<open>
  \<open>set_min_depth\<close> and \<open>set_max_depth\<close> clamp the value they set, not the other bound, so the last
  call of the two loses against the earlier one.
\<close>

lemma set_depths:
  "opt_min_depth (wd_options (set_min_depth n b)) = min n (opt_max_depth (wd_options b))"
  "opt_max_depth (wd_options (set_min_depth n b)) = opt_max_depth (wd_options b)"
  "opt_max_depth (wd_options (set_max_depth n b)) = max n (opt_min_depth (wd_options b))"
  "opt_min_depth (wd_options (set_max_depth n b)) = opt_min_depth (wd_options b)"
  "opt_parallelism (wd_options (set_max_depth n b)) =
     (if max n (opt_min_depth (wd_options b)) < 2 then Serial else opt_parallelism (wd_options b))"
  "wd_root (set_min_depth n b) = wd_root b" "wd_root (set_max_depth n b) = wd_root b"
  by (auto simp: set_min_depth_def set_max_depth_def Let_def)

text \<open>
  C30. The builder invariant: after any chain of builder calls the minimum depth does not
  exceed the maximum depth, the maximum depth is a \<open>usize\<close> and the root is the one given to
  \<open>new\<close>.
\<close>

theorem built_depths_ordered:
  assumes "built dflt root b"
  shows "opt_min_depth (wd_options b) \<le> opt_max_depth (wd_options b) \<and>
         opt_max_depth (wd_options b) \<le> usize_MAX \<and> wd_root b = root"
  using assms
proof induction
  case new
  then show ?case by (simp add: walk_dir_new_def)
next
  case (min_depth b n)
  then show ?case by (auto simp: set_depths)
next
  case (max_depth b n)
  then show ?case by (auto simp: set_depths)
qed (simp_all add: setter_defs)

definition example_builder :: "(unit, unit, unit) walk_dir" where
  "example_builder = set_max_depth 1 (set_min_depth 3 (walk_dir_new () [47]))"

theorem built_depths_ordered_witness:
  "built () [47] example_builder \<and> opt_max_depth (wd_options example_builder) = 3 \<and>
   opt_min_depth (wd_options example_builder) \<le> opt_max_depth (wd_options example_builder)"
proof -
  have b: "built () [47] example_builder"
    unfolding example_builder_def by (intro built.intros) (simp_all add: usize_MAX_def)
  have "opt_max_depth (wd_options example_builder) = 3"
    by (simp add: example_builder_def set_depths walk_dir_new_def usize_MAX_def)
  with b built_depths_ordered [OF b] show ?thesis by blast
qed

end
