(* ===== verification/Reader.thy ===== *)
theory Reader
  imports Read_Dir Walk_Options
begin

text \<open>
  What the readers of one directory in \<open>lib.rs\<close> share: hidden files, sorting, the arguments, the
  streaming context, and the end of a read with sorting and the client's callback.
\<close>

section \<open>Hidden files and sorting\<close>

definition is_hidden :: "os_string \<Rightarrow> bool" where
  "is_hidden file_name \<longleftrightarrow> file_name \<noteq> [] \<and> hd file_name = 46"

definition cmp_u8 :: "u8 \<Rightarrow> u8 \<Rightarrow> ordering" where
  "cmp_u8 a b = cmp_nat (unat a) (unat b)"

fun entry_name_cmp :: "error + 'd dir_entry \<Rightarrow> error + 'd dir_entry \<Rightarrow> ordering" where
  "entry_name_cmp (Inr a) (Inr b) = cmp_slice cmp_u8 (de_file_name a) (de_file_name b)"
| "entry_name_cmp (Inr a) (Inl e) = Less"
| "entry_name_cmp (Inl e) (Inr b) = Greater"
| "entry_name_cmp (Inl e) (Inl e') = Equal"

definition sort_dir_entries_by_name :: "(error + 'd dir_entry) list \<Rightarrow> (error + 'd dir_entry) list" where
  "sort_dir_entries_by_name entries = sort_unstable_by entry_name_cmp entries"

interpretation u8_ord: rust_ord cmp_u8
  by unfold_locales (auto simp: cmp_u8_def dest: nat_ord.cmp_trans intro: nat_ord.cmp_flip)

lemma rust_ord_entry_name: "rust_ord entry_name_cmp"
proof
  fix x y z :: "error + 'd dir_entry"
  show "entry_name_cmp y x = ordering_reverse (entry_name_cmp x y)"
    by (cases x; cases y) (auto intro: u8_ord.cmp_slice_flip)
  show "entry_name_cmp x y \<noteq> Greater \<Longrightarrow> entry_name_cmp y z \<noteq> Greater \<Longrightarrow> entry_name_cmp x z \<noteq> Greater"
    by (cases x; cases y; cases z) (auto dest: u8_ord.cmp_slice_trans)
qed

interpretation entry_name_ord: rust_ord entry_name_cmp
  by (rule rust_ord_entry_name)

section \<open>Arguments and streaming\<close>

text \<open>The arguments of \<open>read_dir_unix\<close> and \<open>read_dir_windows\<close>; the capacity of the result vector has no effect.\<close>

record ('d, 'r) read_args =
  ra_path :: path
  ra_read_dir_depth :: usize
  ra_contents_depth :: usize
  ra_follow_links :: bool
  ra_read_metadata :: bool
  ra_read_metadata_ext :: bool
  ra_read_hardlink_info :: bool
  ra_skip_hidden :: bool
  ra_sort :: bool
  ra_ancestors :: "ancestor_identity list option"
  ra_client_read_state :: 'r
  ra_process_read_dir :: "('d, 'r) process_read_dir_function option"

text \<open>\<open>StreamingContext\<close>: its data, and its two operations on the shared queue of type \<open>'q\<close>.\<close>

record ('q, 'r) streaming_context =
  sc_index_path :: index_path
  sc_parent_weight :: usize
  sc_is_stopped :: "'q \<Rightarrow> bool \<times> 'q"
  sc_schedule :: "'r read_dir_spec weighted \<Rightarrow> 'q \<Rightarrow> bool \<times> 'q"

text \<open>The common end of the three readers: sorting and the client's callback.\<close>

definition finish_results :: "('d, 'r) read_args \<Rightarrow> (error + 'd dir_entry) list \<Rightarrow>
    'r \<times> (error + 'd dir_entry) list" where
  "finish_results args results =
     (let results = (if ra_sort args then sort_dir_entries_by_name results else results) in
      case ra_process_read_dir args of
        Some f \<Rightarrow> f (Some (ra_read_dir_depth args)) (ra_path args) (ra_client_read_state args) results
      | None \<Rightarrow> (ra_client_read_state args, results))"

text \<open>A context that is never stopped and records what is scheduled.\<close>

definition recording_context :: "index_path \<Rightarrow> usize \<Rightarrow> ('r read_dir_spec weighted list, 'r) streaming_context" where
  "recording_context p w =
     \<lparr>sc_index_path = p, sc_parent_weight = w, sc_is_stopped = (\<lambda>q. (False, q)),
      sc_schedule = (\<lambda>x q. (True, q @ [x]))\<rparr>"

definition streamed_list :: "index_path \<Rightarrow> usize \<Rightarrow> usize \<Rightarrow> 'r read_dir_spec list \<Rightarrow>
    'r read_dir_spec weighted list" where
  "streamed_list p w n specs =
     map (\<lambda>(i, s). weighted_new s (adding p i) (usize_saturating_add w 1)) (enumerate n specs)"

lemma streamed_list_values [simp]: "map w_value (streamed_list p w n specs) = specs"
  by (simp add: streamed_list_def case_prod_unfold comp_def weighted_new_def flip: map_map [of snd])

lemma read_children_specs_streamed [simp]:
  "read_children_specs (rd\<lparr>streamed_child_count := n\<rparr>) = read_children_specs rd"
  by (simp add: read_children_specs_def)

text \<open>
  The two facts every reader with streaming rests on: the callback of the enumeration schedules the
  visible subdirectories in order, and the entries built from a listing descend into them.
\<close>

lemma fold_streams:
  assumes "\<And>info n q. f info (n, q) =
      (if visible info then (n + 1, q @ [weighted_new (sp info) (adding p n) (usize_saturating_add w 1)])
       else (n, q))"
  shows "fold f infos (n, q) =
    (n + length (filter visible infos), q @ streamed_list p w n (map sp (filter visible infos)))"
  by (induction infos arbitrary: n q) (simp_all add: assms streamed_list_def)

lemma built_child_specs:
  assumes "\<And>info. info \<in> set infos \<Longrightarrow> build info = (if hidden info then None else Some (Inr (entry info)))"
    and "\<And>info. info \<in> set infos \<Longrightarrow>
      read_children_spec (entry info) st = (if dir info then Some (sp info) else None)"
  shows "List.map_filter (child_spec st) (List.map_filter build infos) =
    map sp (filter (\<lambda>info. dir info \<and> \<not> hidden info) infos)"
  using assms
proof (induction infos)
  case (Cons info infos)
  then show ?case
    by (cases "hidden info") (simp_all add: List.map_filter_simps map_filter_child_spec_Cons child_spec_def)
qed (simp add: List.map_filter_simps)

section \<open>Properties\<close>

text \<open>
  Sorting: the result is a permutation of the entries, in ascending order of their names as
  byte strings, with all errors after the entries.
\<close>

theorem sorted_entries_ascending:
  "mset (sort_dir_entries_by_name rs) = mset rs \<and>
   sorted_wrt (\<lambda>a b. entry_name_cmp a b \<noteq> Greater) (sort_dir_entries_by_name rs) \<and>
   (\<exists>es errs. sort_dir_entries_by_name rs = map Inr es @ map Inl errs)"
proof (intro conjI)
  let ?xs = "sort_dir_entries_by_name rs"
  show "mset ?xs = mset rs" by (simp add: sort_dir_entries_by_name_def)
  show sorted: "sorted_wrt (\<lambda>a b. entry_name_cmp a b \<noteq> Greater) ?xs"
    unfolding sort_dir_entries_by_name_def by (rule entry_name_ord.sorted_sort_unstable_by)
  have "\<exists>es errs. xs = map Inr es @ map Inl errs"
    if "sorted_wrt (\<lambda>a b. entry_name_cmp a b \<noteq> Greater) xs" for xs :: "(error + 'a dir_entry) list"
    using that
  proof (induction xs)
    case (Cons x xs)
    then obtain es errs where xs: "xs = map Inr es @ map Inl errs" by auto
    show ?case
    proof (cases x)
      case (Inl e)
      then have "es = []" using Cons.prems xs by (cases es) auto
      with Inl xs show ?thesis by (intro exI [of _ "[]"] exI [of _ "e # errs"]) simp
    next
      case (Inr e)
      with xs show ?thesis by (intro exI [of _ "e # es"] exI [of _ errs]) simp
    qed
  qed simp
  from this [OF sorted] show "\<exists>es errs. ?xs = map Inr es @ map Inl errs" .
qed

end
