(* ===== verification/Ordered_Matcher.thy ===== *)
theory Ordered_Matcher
  imports Index_Path
begin

text \<open>
  \<open>OrderedMatcher\<close> of \<open>core/ordered_queue.rs\<close>: the cursor that says which result the strict
  iterator has to yield next. The specification is a rose tree of results; its labelling with
  index paths and child counts is what the workers of a walk send. The cursor visits exactly
  the preorder of that labelling and then reports that nothing is left.
\<close>

section \<open>The cursor\<close>

text \<open>\<open>child_count_stack\<close> keeps the order of the \<open>Vec\<close>: its last element is the top.\<close>

record ordered_matcher =
  looking_for :: index_path
  child_count_stack :: "usize list"

definition ordered_matcher_default :: ordered_matcher where
  "ordered_matcher_default = \<lparr>looking_for = index_path_new [0], child_count_stack = [1]\<rparr>"

definition matcher_is_none :: "ordered_matcher \<Rightarrow> bool" where
  "matcher_is_none self \<longleftrightarrow> index_path_is_empty (looking_for self)"

definition decrement_remaining_children :: "ordered_matcher \<Rightarrow> ordered_matcher" where
  "decrement_remaining_children self =
     (if child_count_stack self = [] then self
      else self\<lparr>child_count_stack :=
             butlast (child_count_stack self) @ [last (child_count_stack self) - 1]\<rparr>)"

text \<open>The \<open>while\<close> loop of \<open>advance_past\<close>: leave every directory whose children are exhausted.\<close>

function leave_finished :: "ordered_matcher \<Rightarrow> ordered_matcher" where
  "leave_finished self =
     (if child_count_stack self \<noteq> [] \<and> last (child_count_stack self) = 0
      then let lf = snd (index_path_pop (looking_for self));
               lf = (if \<not> index_path_is_empty lf then increment_last lf else lf)
           in leave_finished (self\<lparr>looking_for := lf,
                                   child_count_stack := butlast (child_count_stack self)\<rparr>)
      else self)"
  by pat_completeness auto
termination
  by (relation "measure (length \<circ> child_count_stack)") auto

declare leave_finished.simps [simp del]

definition advance_past :: "ordered_matcher \<Rightarrow> 'a ordered \<Rightarrow> ordered_matcher" where
  "advance_past self ordered =
     (let self = decrement_remaining_children self in
      if 0 < o_child_count ordered
      then self\<lparr>looking_for := index_path_push (looking_for self) 0,
                child_count_stack := child_count_stack self @ [o_child_count ordered]\<rparr>
      else leave_finished (self\<lparr>looking_for := increment_last (looking_for self)\<rparr>))"

section \<open>The tree of results and its labelling\<close>

datatype 'a otree = ONode (oroot: 'a) (okids: "'a otree list")

fun label :: "index_path \<Rightarrow> 'a otree \<Rightarrow> 'a ordered list"
  and label_forest :: "index_path \<Rightarrow> usize \<Rightarrow> 'a otree list \<Rightarrow> 'a ordered list" where
  "label p (ONode v ts) = ordered_new v p (length ts) # label_forest p 0 ts"
| "label_forest p i [] = []"
| "label_forest p i (t # ts) = label (adding p i) t @ label_forest p (Suc i) ts"

fun preorder :: "'a otree \<Rightarrow> 'a list" where
  "preorder (ONode v ts) = v # concat (map preorder ts)"

lemma label_values:
  fixes t :: "'a otree" and ts :: "'a otree list"
  shows "map o_value (label p t) = preorder t"
  "map o_value (label_forest p i ts) = concat (map preorder ts)"
  by (induction p t and p i ts rule: label_label_forest.induct) auto

lemma label_nonempty [simp]: "label p t \<noteq> []"
  by (cases t) simp

text \<open>Every label of a subtree extends its root's path; the preorder is strictly decreasing.\<close>

lemma label_paths:
  fixes t :: "'a otree" and ts :: "'a otree list"
  shows "x \<in> set (label p t) \<Longrightarrow> \<exists>js. indices (o_index_path x) = indices p @ js"
  "x \<in> set (label_forest p i ts) \<Longrightarrow>
     \<exists>j js. i \<le> j \<and> j < i + length ts \<and> indices (o_index_path x) = indices p @ j # js"
proof (induction p t and p i ts arbitrary: x and x rule: label_label_forest.induct)
  case (1 p v ts)
  then show ?case by fastforce
next
  case (2 p i)
  then show ?case by simp
next
  case (3 p i t ts)
  from "3.prems" consider "x \<in> set (label (adding p i) t)" | "x \<in> set (label_forest p (Suc i) ts)"
    by auto
  then show ?case
  proof cases
    case 1
    with "3.IH"(1) show ?thesis by (fastforce intro: exI [of _ i])
  next
    case 2
    with "3.IH"(2) show ?thesis by (fastforce dest: Suc_leD)
  qed
qed

definition dfs_order :: "'a ordered list \<Rightarrow> bool" where
  "dfs_order = sorted_wrt (\<lambda>a b. o_index_path b < o_index_path a)"

lemma index_path_less_parent:
  "indices p = is \<Longrightarrow> indices q = is @ j # js \<Longrightarrow> q < p"
  using index_path_parent_greater [of "is" j js] by (cases p; cases q) simp

lemma index_path_less_sibling:
  "i < j \<Longrightarrow> indices p = is @ i # ks \<Longrightarrow> indices q = is @ j # js \<Longrightarrow> q < p"
  using index_path_sibling_greater [of i j "is" js ks] by (cases p; cases q) simp

lemma label_dfs_order:
  fixes t :: "'a otree" and ts :: "'a otree list"
  shows "dfs_order (label p t)"
  "dfs_order (label_forest p i ts)"
proof (induction p t and p i ts rule: label_label_forest.induct)
  case (1 p v ts)
  have "o_index_path x < p" if "x \<in> set (label_forest p 0 ts)" for x
    using label_paths(2) [OF that] index_path_less_parent by blast
  with 1 show ?case by (simp add: dfs_order_def)
next
  case (3 p i t ts)
  have "o_index_path b < o_index_path a"
    if "a \<in> set (label (adding p i) t)" and "b \<in> set (label_forest p (Suc i) ts)" for a b
  proof -
    from label_paths(1) [OF that(1)] obtain ks where a: "indices (o_index_path a) = indices p @ i # ks"
      by auto
    from label_paths(2) [OF that(2)] obtain j js
      where "i < j" and "indices (o_index_path b) = indices p @ j # js" by auto
    with a show ?thesis by (blast intro: index_path_less_sibling)
  qed
  with 3 show ?case by (simp add: dfs_order_def sorted_wrt_append)
qed (simp add: dfs_order_def)

section \<open>The cursor follows the preorder\<close>

text \<open>
  \<open>dfs_run m os\<close>: from cursor \<open>m\<close>, the list \<open>os\<close> is exactly what the cursor asks for, result
  by result, and afterwards it asks for nothing.
\<close>

fun dfs_run :: "ordered_matcher \<Rightarrow> 'a ordered list \<Rightarrow> bool" where
  "dfs_run m [] \<longleftrightarrow> matcher_is_none m"
| "dfs_run m (x # xs) \<longleftrightarrow>
     \<not> matcher_is_none m \<and> looking_for m = o_index_path x \<and> dfs_run (advance_past m x) xs"

definition cursor :: "index_path \<Rightarrow> usize \<Rightarrow> usize list \<Rightarrow> usize \<Rightarrow> ordered_matcher" where
  "cursor p i cs r = \<lparr>looking_for = adding p i, child_count_stack = cs @ [r]\<rparr>"

lemma cursor_sel [simp]:
  "looking_for (cursor p i cs r) = adding p i"
  "\<not> matcher_is_none (cursor p i cs r)"
  by (simp_all add: cursor_def matcher_is_none_def)

lemma leave_finished_busy [simp]: "leave_finished (cursor p i cs (Suc r)) = cursor p i cs (Suc r)"
  by (simp add: cursor_def leave_finished.simps)

lemma leave_finished_pop:
  "leave_finished (cursor (adding p i) j (cs @ [r]) 0) = leave_finished (cursor p (Suc i) cs r)"
  by (subst leave_finished.simps) (simp add: cursor_def butlast_append)

lemma leave_finished_last:
  "matcher_is_none (leave_finished (cursor (IndexPath []) j [] 0))"
  by (simp add: cursor_def leave_finished.simps matcher_is_none_def index_path_is_empty_def)

lemma advance_past_leaf:
  "o_child_count x = 0 \<Longrightarrow>
   advance_past (cursor p i cs (Suc r)) x = leave_finished (cursor p (Suc i) cs r)"
  by (simp add: advance_past_def cursor_def decrement_remaining_children_def)

lemma advance_past_inner:
  "o_child_count x = Suc n \<Longrightarrow>
   advance_past (cursor p i cs (Suc r)) x = cursor (adding p i) 0 (cs @ [r]) (Suc n)"
  by (simp add: advance_past_def cursor_def decrement_remaining_children_def)

text \<open>
  Reading a whole subtree takes the cursor past its root: the induction that carries the
  correctness of the matcher.
\<close>

lemma dfs_run_label:
  fixes t :: "'a otree" and ts :: "'a otree list"
  shows "q = adding p i \<Longrightarrow> dfs_run (leave_finished (cursor p (Suc i) cs r)) xs \<Longrightarrow>
      dfs_run (cursor p i cs (Suc r)) (label q t @ xs)"
    and "ts \<noteq> [] \<Longrightarrow> dfs_run (leave_finished (cursor q (j + length ts) cs r)) xs \<Longrightarrow>
      dfs_run (cursor q j cs (length ts + r)) (label_forest q j ts @ xs)"
proof (induction q t and q j ts arbitrary: p i cs r xs and cs r xs
    rule: label_label_forest.induct)
  case (1 q v ts)
  show ?case
  proof (cases ts)
    case Nil
    with 1 show ?thesis by (simp add: advance_past_leaf)
  next
    case (Cons t' ts')
    have "dfs_run (leave_finished (cursor q (0 + length ts) (cs @ [r]) 0)) xs"
      using "1.prems" by (simp add: leave_finished_pop)
    then have "dfs_run (cursor q 0 (cs @ [r]) (length ts + 0)) (label_forest q 0 ts @ xs)"
      using Cons "1.IH" by blast
    moreover have "advance_past (cursor p i cs (Suc r)) (ordered_new v q (length ts))
        = cursor q 0 (cs @ [r]) (length ts + 0)"
      using Cons "1.prems"(1) by (simp add: advance_past_inner)
    ultimately show ?thesis using "1.prems"(1) by simp
  qed
next
  case (2 q j)
  then show ?case by simp
next
  case (3 q j t ts)
  have "dfs_run (leave_finished (cursor q (Suc j) cs (length ts + r))) (label_forest q (Suc j) ts @ xs)"
  proof (cases ts)
    case Nil
    with "3.prems" show ?thesis by simp
  next
    case (Cons t' ts')
    then have "dfs_run (cursor q (Suc j) cs (length ts + r)) (label_forest q (Suc j) ts @ xs)"
      using "3.IH"(2) "3.prems" by simp
    with Cons show ?thesis by simp
  qed
  then show ?case using "3.IH"(1) by simp
qed

lemma ordered_matcher_default_cursor: "ordered_matcher_default = cursor (IndexPath []) 0 [] (Suc 0)"
  by (simp add: ordered_matcher_default_def cursor_def adding_def index_path_new_def)

text \<open>
  From its initial state the matcher asks for the whole labelled tree in preorder and then for
  nothing.
\<close>

lemma matcher_follows_preorder: "dfs_run ordered_matcher_default (label (index_path_new [0]) t)"
proof -
  have "dfs_run (cursor (IndexPath []) 0 [] (Suc 0)) (label (adding (IndexPath []) 0) t @ [])"
    by (rule dfs_run_label(1)) (simp_all add: leave_finished_last)
  then show ?thesis
    by (simp add: ordered_matcher_default_cursor adding_def index_path_new_def)
qed

lemma dfs_run_nonempty: "dfs_run m xs \<Longrightarrow> matcher_is_none m \<longleftrightarrow> xs = []"
  by (cases xs) auto

section \<open>Properties\<close>

text \<open>
  C8. The matcher against its specification: from its initial state it asks for the results of
  any tree exactly in preorder, never for a missing one, and then for nothing; the positions it
  asks for are strictly decreasing in the order of the heap, so the next one is always its top.
\<close>

theorem matcher_visits_preorder:
  "dfs_run ordered_matcher_default (label (index_path_new [0]) t) \<and>
   map o_value (label (index_path_new [0]) t) = preorder t \<and>
   dfs_order (label (index_path_new [0]) t)"
  by (intro conjI matcher_follows_preorder label_values label_dfs_order)

end
