(* ===== verification/Ordered_Queue.thy ===== *)
theory Ordered_Queue
  imports Ordered_Matcher
begin

text \<open>
  \<open>core/ordered_queue.rs\<close>: the queue that turns results arriving in any order into the depth
  first order of the walk. The stop flag, the crossbeam channel and the clock are shared with
  other threads, so they live in a world of type \<open>'w\<close> that the operations of \<open>oq_world\<close> read
  and move on; \<open>oq_world_ok\<close> states the documented behaviour the iterator relies on.
\<close>

section \<open>The shared objects\<close>

datatype try_recv_error = Empty | Disconnected
datatype recv_timeout_error = Timeout | RecvDisconnected

text \<open>\<open>stop.load\<close>, \<open>Receiver::try_recv\<close>, \<open>Receiver::recv_timeout\<close> and \<open>Instant::now\<close> (microseconds).\<close>

record ('w, 'a) oq_world =
  load_stop :: "'w \<Rightarrow> bool \<times> 'w"
  try_recv :: "'w \<Rightarrow> (try_recv_error + 'a ordered) \<times> 'w"
  recv_timeout :: "nat \<Rightarrow> 'w \<Rightarrow> (recv_timeout_error + 'a ordered) \<times> 'w"
  instant_now :: "'w \<Rightarrow> nat \<times> 'w"

section \<open>The iterator\<close>

definition STRICT_WAIT_TIMEOUT :: nat where
  "STRICT_WAIT_TIMEOUT = 100000"

record 'a ordered_queue_iter =
  receive_buffer :: "'a ordered list"
  oq_matcher :: ordered_matcher
  max_receive_buffer_size :: usize

definition new_ordered_queue :: "usize \<Rightarrow> 'a ordered_queue_iter" where
  "new_ordered_queue max_size =
     \<lparr>receive_buffer = [], oq_matcher = ordered_matcher_default,
      max_receive_buffer_size = max_size\<rparr>"

definition ordered_queue_push :: "('a ordered \<Rightarrow> 'w \<Rightarrow> ('a ordered + unit) \<times> 'w) \<Rightarrow>
    'a ordered \<Rightarrow> 'w \<Rightarrow> ('a ordered + unit) \<times> 'w" where
  "ordered_queue_push send ordered w = send ordered w"

definition buffer_push :: "'a ordered \<Rightarrow> 'a ordered_queue_iter \<Rightarrow> 'a ordered_queue_iter" where
  "buffer_push x self = self\<lparr>receive_buffer := heap_push x (receive_buffer self)\<rparr>"

function drain_channel ::
    "('w, 'a) oq_world \<Rightarrow> 'a ordered_queue_iter \<Rightarrow> 'w \<Rightarrow> 'a ordered_queue_iter \<times> 'w" where
  "drain_channel ops self w =
     (if length (receive_buffer self) < max_receive_buffer_size self
      then case try_recv ops w of
             (Inr ordered, w) \<Rightarrow> drain_channel ops (buffer_push ordered self) w
           | (Inl _, w) \<Rightarrow> (self, w)
      else (self, w))"
  by pat_completeness auto
termination
  by (relation "measure (\<lambda>(ops, self, w). max_receive_buffer_size self - length (receive_buffer self))")
    (auto simp: buffer_push_def heap_push_def)

declare drain_channel.simps [simp del]

definition top_matches :: "'a ordered_queue_iter \<Rightarrow> bool" where
  "top_matches self =
     (case heap_peek ordered_cmp (receive_buffer self) of
        None \<Rightarrow> False
      | Some top_ordered \<Rightarrow> index_path_eq (o_index_path top_ordered) (looking_for (oq_matcher self)))"

text \<open>\<open>receive_buffer.pop().unwrap()\<close> followed by \<open>advance_past\<close>; \<open>None\<close> is the panic of \<open>unwrap\<close>.\<close>

definition pop_and_advance ::
    "'a ordered_queue_iter \<Rightarrow> ('a ordered \<times> 'a ordered_queue_iter) option" where
  "pop_and_advance self =
     (case heap_pop ordered_cmp (receive_buffer self) of
        None \<Rightarrow> None
      | Some (ordered, rest) \<Rightarrow>
          Some (ordered, self\<lparr>receive_buffer := rest,
                              oq_matcher := advance_past (oq_matcher self) ordered\<rparr>))"

definition drain_unless_matched ::
    "('w, 'a) oq_world \<Rightarrow> 'a ordered_queue_iter \<Rightarrow> 'w \<Rightarrow> 'a ordered_queue_iter \<times> 'w" where
  "drain_unless_matched ops self w =
     (if top_matches self then (self, w) else drain_channel ops self w)"

text \<open>The arm of \<open>recv_timeout\<close> that finds the channel disconnected.\<close>

definition after_disconnect :: "('w, 'a) oq_world \<Rightarrow> 'a ordered_queue_iter \<Rightarrow> 'w \<Rightarrow>
    ((try_recv_error + 'a ordered) \<times> 'a ordered_queue_iter \<times> 'w) option" where
  "after_disconnect ops self w =
     (let (self, w) = drain_channel ops self w in
      if top_matches self
      then map_option (\<lambda>(ordered, self). (Inr ordered, self, w)) (pop_and_advance self)
      else case heap_pop ordered_cmp (receive_buffer self) of
             Some (fallback, rest) \<Rightarrow> Some (Inr fallback, self\<lparr>receive_buffer := rest\<rparr>, w)
           | None \<Rightarrow> Some (Inl Disconnected, self, w))"

partial_function (option) strict_loop :: "('w, 'a) oq_world \<Rightarrow> nat \<Rightarrow> 'a ordered_queue_iter \<Rightarrow>
    'w \<Rightarrow> ((try_recv_error + 'a ordered) \<times> 'a ordered_queue_iter \<times> 'w) option" where
  "strict_loop ops deadline self w =
     (case load_stop ops w of (stopped, w) \<Rightarrow>
      if stopped then Some (Inl Disconnected, self, w)
      else case drain_unless_matched ops self w of (self, w) \<Rightarrow>
      if top_matches self
      then map_option (\<lambda>(ordered, self). (Inr ordered, self, w)) (pop_and_advance self)
      else if matcher_is_none (oq_matcher self) then Some (Inl Disconnected, self, w)
      else case instant_now ops w of (t, w) \<Rightarrow>
      if deadline \<le> t then Some (Inl Empty, self, w)
      else case instant_now ops w of (t, w) \<Rightarrow>
      case recv_timeout ops (max (deadline - t) 100) w of (received, w) \<Rightarrow>
      case received of
        Inr ordered \<Rightarrow> strict_loop ops deadline (buffer_push ordered self) w
      | Inl e \<Rightarrow> (case e of
            Timeout \<Rightarrow> strict_loop ops deadline self w
          | RecvDisconnected \<Rightarrow> after_disconnect ops self w))"

definition try_next_strict :: "('w, 'a) oq_world \<Rightarrow> 'a ordered_queue_iter \<Rightarrow> 'w \<Rightarrow>
    ((try_recv_error + 'a ordered) \<times> 'a ordered_queue_iter \<times> 'w) option" where
  "try_next_strict ops self w =
     (case instant_now ops w of (t, w) \<Rightarrow> strict_loop ops (t + STRICT_WAIT_TIMEOUT) self w)"

text \<open>\<open>Iterator::next\<close>: retry while the strict read times out.\<close>

partial_function (option) ordered_queue_next :: "('w, 'a) oq_world \<Rightarrow> 'a ordered_queue_iter \<Rightarrow>
    'w \<Rightarrow> ('a ordered option \<times> 'a ordered_queue_iter \<times> 'w) option" where
  "ordered_queue_next ops self w =
     (case try_next_strict ops self w of
        None \<Rightarrow> None
      | Some (r, self, w) \<Rightarrow> (case r of
            Inr ordered \<Rightarrow> Some (Some ordered, self, w)
          | Inl e \<Rightarrow> (case e of
                Empty \<Rightarrow> ordered_queue_next ops self w
              | Disconnected \<Rightarrow> Some (None, self, w))))"

section \<open>The contract of the shared objects\<close>

text \<open>
  \<open>unreceived w\<close> is everything sent or still to be sent that the iterator has not taken out of
  the channel. A receive takes one message out, a failed receive and the reads of the flag and
  the clock take none, and the channel reports disconnection only when it is empty and no
  sender is left.
\<close>

definition oq_world_ok :: "('w, 'a) oq_world \<Rightarrow> ('w \<Rightarrow> 'a ordered multiset) \<Rightarrow> bool" where
  "oq_world_ok ops unreceived \<longleftrightarrow>
     (\<forall>w b w'. load_stop ops w = (b, w') \<longrightarrow> unreceived w' = unreceived w) \<and>
     (\<forall>w t w'. instant_now ops w = (t, w') \<longrightarrow> unreceived w' = unreceived w) \<and>
     (\<forall>w x w'. try_recv ops w = (Inr x, w') \<longrightarrow> unreceived w = add_mset x (unreceived w')) \<and>
     (\<forall>w e w'. try_recv ops w = (Inl e, w') \<longrightarrow> unreceived w' = unreceived w) \<and>
     (\<forall>t w x w'. recv_timeout ops t w = (Inr x, w') \<longrightarrow> unreceived w = add_mset x (unreceived w')) \<and>
     (\<forall>t w w'. recv_timeout ops t w = (Inl Timeout, w') \<longrightarrow> unreceived w' = unreceived w) \<and>
     (\<forall>t w w'. recv_timeout ops t w = (Inl RecvDisconnected, w') \<longrightarrow>
        unreceived w = {#} \<and> unreceived w' = {#})"

text \<open>The clock is monotonic and \<open>recv_timeout\<close> times out only after its timeout has passed.\<close>

definition oq_clock_ok :: "('w, 'a) oq_world \<Rightarrow> ('w \<Rightarrow> nat) \<Rightarrow> bool" where
  "oq_clock_ok ops clock \<longleftrightarrow>
     (\<forall>w b w'. load_stop ops w = (b, w') \<longrightarrow> clock w' = clock w) \<and>
     (\<forall>w t w'. instant_now ops w = (t, w') \<longrightarrow> t = clock w \<and> clock w' = clock w) \<and>
     (\<forall>w r w'. try_recv ops w = (r, w') \<longrightarrow> clock w' = clock w) \<and>
     (\<forall>t w r w'. recv_timeout ops t w = (r, w') \<longrightarrow> clock w \<le> clock w') \<and>
     (\<forall>t w w'. recv_timeout ops t w = (Inl Timeout, w') \<longrightarrow> clock w + t \<le> clock w')"

text \<open>The producers are finished at time \<open>T\<close>: from then on a waiting receive is never in vain.\<close>

definition oq_sent_by :: "('w, 'a) oq_world \<Rightarrow> ('w \<Rightarrow> 'a ordered multiset) \<Rightarrow> ('w \<Rightarrow> nat) \<Rightarrow>
    nat \<Rightarrow> bool" where
  "oq_sent_by ops unreceived clock T \<longleftrightarrow>
     (\<forall>t w w'. T \<le> clock w \<longrightarrow> unreceived w \<noteq> {#} \<longrightarrow> recv_timeout ops t w \<noteq> (Inl Timeout, w'))"

definition never_stopped :: "('w, 'a) oq_world \<Rightarrow> bool" where
  "never_stopped ops \<longleftrightarrow> (\<forall>w. \<not> fst (load_stop ops w))"

section \<open>The iterator in step with the rest of the walk\<close>

text \<open>
  \<open>in_step R self w\<close>: the results \<open>R\<close> are what remains of the walk in depth first order, the
  cursor is at the head of \<open>R\<close>, and each of them is in the buffer or not yet received.
\<close>

definition in_step :: "('w \<Rightarrow> 'a ordered multiset) \<Rightarrow> 'a ordered list \<Rightarrow> 'a ordered_queue_iter \<Rightarrow>
    'w \<Rightarrow> bool" where
  "in_step unreceived R self w \<longleftrightarrow>
     dfs_run (oq_matcher self) R \<and> dfs_order R \<and>
     mset (receive_buffer self) + unreceived w = mset R"

lemma in_step_initial:
  "unreceived w = mset (label (index_path_new [0]) t) \<Longrightarrow>
   in_step unreceived (label (index_path_new [0]) t) (new_ordered_queue n) w"
  by (simp add: in_step_def new_ordered_queue_def matcher_follows_preorder label_dfs_order)

lemma in_step_buffer_push:
  "in_step unreceived R self w \<Longrightarrow> unreceived w = add_mset x (unreceived w') \<Longrightarrow>
   in_step unreceived R (buffer_push x self) w'"
  by (simp add: in_step_def buffer_push_def heap_push_def)

lemma in_step_world:
  "in_step unreceived R self w \<Longrightarrow> unreceived w' = unreceived w \<Longrightarrow> in_step unreceived R self w'"
  by (simp add: in_step_def)

lemma in_step_buffer_subset:
  "in_step unreceived R self w \<Longrightarrow> x \<in> set (receive_buffer self) \<Longrightarrow> x \<in> set R"
  unfolding in_step_def by (metis set_mset_mset union_iff)

text \<open>The facts of the contract, one per operation.\<close>

lemma oq_world_okD:
  assumes "oq_world_ok ops unreceived"
  shows "load_stop ops w = (b, w') \<Longrightarrow> unreceived w' = unreceived w"
    and "instant_now ops w = (t, w') \<Longrightarrow> unreceived w' = unreceived w"
    and "try_recv ops w = (Inr x, w') \<Longrightarrow> unreceived w = add_mset x (unreceived w')"
    and "try_recv ops w = (Inl e, w') \<Longrightarrow> unreceived w' = unreceived w"
    and "recv_timeout ops t w = (Inr x, w') \<Longrightarrow> unreceived w = add_mset x (unreceived w')"
    and "recv_timeout ops t w = (Inl Timeout, w') \<Longrightarrow> unreceived w' = unreceived w"
    and "recv_timeout ops t w = (Inl RecvDisconnected, w') \<Longrightarrow> unreceived w = {#} \<and> unreceived w' = {#}"
  using assms unfolding oq_world_ok_def by - metis+

lemma drain_channel_in_step:
  "oq_world_ok ops unreceived \<Longrightarrow> in_step unreceived R self w \<Longrightarrow>
   drain_channel ops self w = (self', w') \<Longrightarrow> in_step unreceived R self' w'"
proof (induction ops self w rule: drain_channel.induct)
  case (1 ops self w)
  obtain r w1 where r: "try_recv ops w = (r, w1)" by fastforce
  show ?case
  proof (cases "length (receive_buffer self) < max_receive_buffer_size self")
    case more: True
    show ?thesis
    proof (cases r)
      case (Inl e)
      with 1 more r show ?thesis
        by (auto simp: drain_channel.simps [of ops self w] intro: in_step_world oq_world_okD(4))
    next
      case (Inr x)
      with r have recv: "try_recv ops w = (Inr x, w1)" by simp
      have "in_step unreceived R (buffer_push x self) w1"
        using "1.prems"(2) oq_world_okD(3) [OF "1.prems"(1) recv] by (rule in_step_buffer_push)
      moreover have "drain_channel ops (buffer_push x self) w1 = (self', w')"
        using "1.prems"(3) more recv by (simp add: drain_channel.simps [of ops self w])
      ultimately show ?thesis using "1.IH" [OF more recv [symmetric] refl] "1.prems"(1) by blast
    qed
  next
    case False
    with 1 show ?thesis by (simp add: drain_channel.simps [of ops self w])
  qed
qed

lemma drain_unless_matched_in_step:
  "oq_world_ok ops unreceived \<Longrightarrow> in_step unreceived R self w \<Longrightarrow>
   drain_unless_matched ops self w = (self', w') \<Longrightarrow> in_step unreceived R self' w'"
  by (auto simp: drain_unless_matched_def split: if_splits intro: drain_channel_in_step)

text \<open>The buffer's top is the head of the remaining walk exactly when that head has arrived.\<close>

lemma in_step_head_greatest:
  assumes "in_step unreceived (x # R) self w" and "y \<in> set (receive_buffer self)" and "y \<noteq> x"
  shows "ordered_cmp y x = Less"
  using assms in_step_buffer_subset [OF assms(1,2)]
  by (auto simp: in_step_def dfs_order_def ord_simps)

lemma top_matches_iff:
  assumes "in_step unreceived (x # R) self w"
  shows "top_matches self \<longleftrightarrow> x \<in> set (receive_buffer self)"
proof
  assume "x \<in> set (receive_buffer self)"
  then have "heap_peek ordered_cmp (receive_buffer self) = Some x"
    using in_step_head_greatest [OF assms] by (rule ordered_ord.heap_peek_unique)
  with assms show "top_matches self" by (simp add: top_matches_def in_step_def)
next
  assume "top_matches self"
  then obtain y where peek: "heap_peek ordered_cmp (receive_buffer self) = Some y"
    and "o_index_path y = o_index_path x"
    using assms by (auto simp: top_matches_def in_step_def split: option.splits)
  from heap_peek_pop [OF peek] have "y \<in> set (receive_buffer self)" by (auto dest: heap_pop_in_set)
  moreover from this have "y = x"
    using in_step_head_greatest [OF assms] \<open>o_index_path y = o_index_path x\<close>
    by (fastforce simp: ord_simps)
  ultimately show "x \<in> set (receive_buffer self)" by simp
qed

lemma pop_and_advance_in_step:
  assumes "in_step unreceived (x # R) self w" and "top_matches self"
  obtains self' where "pop_and_advance self = Some (x, self')" and "in_step unreceived R self' w"
proof -
  have "x \<in> set (receive_buffer self)" using assms by (simp add: top_matches_iff)
  then obtain rest where pop: "heap_pop ordered_cmp (receive_buffer self) = Some (x, rest)"
    using ordered_ord.heap_pop_unique in_step_head_greatest [OF assms(1)] by blast
  have "mset (receive_buffer self) = add_mset x (mset rest)" using pop by (rule heap_pop_mset)
  with assms(1) pop that show thesis
    by (auto simp: pop_and_advance_def in_step_def dfs_order_def)
qed

lemma in_step_Nil: "in_step unreceived [] self w \<Longrightarrow> \<not> top_matches self \<and> receive_buffer self = []
    \<and> unreceived w = {#} \<and> matcher_is_none (oq_matcher self)"
  by (auto simp: in_step_def top_matches_def heap_peek_def)

lemma in_step_matcher: "in_step unreceived R self w \<Longrightarrow> matcher_is_none (oq_matcher self) \<longleftrightarrow> R = []"
  using dfs_run_nonempty by (auto simp: in_step_def)

section \<open>Safety: results come out in depth first order\<close>

text \<open>
  What a strict read may return when \<open>R\<close> is left: the head of \<open>R\<close>, or \<open>Empty\<close> with nothing
  lost, or \<open>Disconnected\<close> when nothing is left (or the walk was stopped).
\<close>

definition strict_outcome :: "('w, 'a) oq_world \<Rightarrow> ('w \<Rightarrow> 'a ordered multiset) \<Rightarrow> 'a ordered list \<Rightarrow>
    (try_recv_error + 'a ordered) \<times> 'a ordered_queue_iter \<times> 'w \<Rightarrow> bool" where
  "strict_outcome ops unreceived R out =
     (case out of (r, self, w) \<Rightarrow> (case r of
        Inr x \<Rightarrow> R \<noteq> [] \<and> x = hd R \<and> in_step unreceived (tl R) self w
      | Inl Empty \<Rightarrow> R \<noteq> [] \<and> in_step unreceived R self w
      | Inl Disconnected \<Rightarrow> in_step unreceived R self w \<and> (R = [] \<or> \<not> never_stopped ops)))"

lemma pop_outcome:
  assumes "in_step unreceived R self w" and "top_matches self"
    and "map_option (\<lambda>(ordered, self). (Inr ordered, self, w)) (pop_and_advance self) = Some out"
  shows "strict_outcome ops unreceived R out"
proof (cases R)
  case Nil
  with assms in_step_Nil [of unreceived self w] show ?thesis by simp
next
  case (Cons x R')
  with assms(1) have "in_step unreceived (x # R') self w" by simp
  then obtain self' where "pop_and_advance self = Some (x, self')" "in_step unreceived R' self' w"
    using assms(2) by (rule pop_and_advance_in_step)
  with assms(3) Cons show ?thesis by (auto simp: strict_outcome_def)
qed

lemma drain_channel_empty:
  assumes ok: "oq_world_ok ops unreceived" and none: "unreceived w = {#}"
    and d: "drain_channel ops self w = (self', w')"
  shows "self' = self \<and> unreceived w' = {#}"
proof -
  obtain r w1 where r: "try_recv ops w = (r, w1)" by fastforce
  with none oq_world_okD(3) [OF ok] obtain e where e: "r = Inl e" by (cases r) auto
  with r none oq_world_okD(4) [OF ok] have "unreceived w1 = {#}" by metis
  with d e r none show ?thesis by (auto simp: drain_channel.simps [of ops self w] split: if_splits)
qed

lemma after_disconnect_outcome:
  assumes ok: "oq_world_ok ops unreceived" and "in_step unreceived R self w"
    and "unreceived w = {#}" and ne: "R \<noteq> []"
    and "after_disconnect ops self w = Some out"
  shows "strict_outcome ops unreceived R out"
proof -
  obtain self' w' where d: "drain_channel ops self w = (self', w')" by fastforce
  have step: "in_step unreceived R self' w'" using ok assms(2) d by (rule drain_channel_in_step)
  have "unreceived w' = {#}" using drain_channel_empty [OF ok assms(3) d] by simp
  then have "mset (receive_buffer self') = mset R" using step by (simp add: in_step_def)
  then have "hd R \<in> set (receive_buffer self')" using ne by (metis hd_in_set set_mset_mset)
  with step ne have "top_matches self'" by (cases R) (auto simp: top_matches_iff)
  with d assms(5) have "map_option (\<lambda>(ordered, self). (Inr ordered, self, w')) (pop_and_advance self') = Some out"
    by (simp add: after_disconnect_def)
  with step \<open>top_matches self'\<close> show ?thesis by (rule pop_outcome)
qed

text \<open>One iteration of the loop, with the recursive call abstracted to \<open>f\<close>.\<close>

definition strict_body :: "('w, 'a) oq_world \<Rightarrow>
    ('a ordered_queue_iter \<Rightarrow> 'w \<Rightarrow> ((try_recv_error + 'a ordered) \<times> 'a ordered_queue_iter \<times> 'w) option) \<Rightarrow>
    nat \<Rightarrow> 'a ordered_queue_iter \<Rightarrow> 'w \<Rightarrow>
    ((try_recv_error + 'a ordered) \<times> 'a ordered_queue_iter \<times> 'w) option" where
  "strict_body ops f deadline self w =
     (case load_stop ops w of (stopped, w) \<Rightarrow>
      if stopped then Some (Inl Disconnected, self, w)
      else case drain_unless_matched ops self w of (self, w) \<Rightarrow>
      if top_matches self
      then map_option (\<lambda>(ordered, self). (Inr ordered, self, w)) (pop_and_advance self)
      else if matcher_is_none (oq_matcher self) then Some (Inl Disconnected, self, w)
      else case instant_now ops w of (t, w) \<Rightarrow>
      if deadline \<le> t then Some (Inl Empty, self, w)
      else case instant_now ops w of (t, w) \<Rightarrow>
      case recv_timeout ops (max (deadline - t) 100) w of (received, w) \<Rightarrow>
      case received of
        Inr ordered \<Rightarrow> f (buffer_push ordered self) w
      | Inl e \<Rightarrow> (case e of
            Timeout \<Rightarrow> f self w
          | RecvDisconnected \<Rightarrow> after_disconnect ops self w))"

lemma strict_loop_body: "strict_loop ops deadline self w = strict_body ops (strict_loop ops deadline) deadline self w"
  by (subst strict_loop.simps) (simp add: strict_body_def)

text \<open>The part of an iteration before the clock is read: the flag is down and the channel drained.\<close>

definition drained_to :: "('w, 'a) oq_world \<Rightarrow> 'a ordered_queue_iter \<Rightarrow> 'w \<Rightarrow>
    'a ordered_queue_iter \<Rightarrow> 'w \<Rightarrow> bool" where
  "drained_to ops self w self' w' \<longleftrightarrow>
     (\<exists>w1. load_stop ops w = (False, w1) \<and> drain_unless_matched ops self w1 = (self', w'))"

lemma drained_to_in_step:
  "oq_world_ok ops unreceived \<Longrightarrow> in_step unreceived R self w \<Longrightarrow> drained_to ops self w self' w' \<Longrightarrow>
   in_step unreceived R self' w'"
  unfolding drained_to_def
  by (metis drain_unless_matched_in_step in_step_world oq_world_okD(1))

lemma strict_body_cases:
  assumes ok: "oq_world_ok ops unreceived" and step: "in_step unreceived R self w"
  obtains
    (stop) w1 where "load_stop ops w = (True, w1)" "in_step unreceived R self w1"
      "\<And>f. strict_body ops f deadline self w = Some (Inl Disconnected, self, w1)"
  | (top) self2 w2 where "drained_to ops self w self2 w2" "top_matches self2"
      "\<And>f. strict_body ops f deadline self w =
         map_option (\<lambda>(ordered, self). (Inr ordered, self, w2)) (pop_and_advance self2)"
  | (none) self2 w2 where "drained_to ops self w self2 w2" "R = []"
      "\<And>f. strict_body ops f deadline self w = Some (Inl Disconnected, self2, w2)"
  | (late) self2 w2 t w3 where "drained_to ops self w self2 w2" "R \<noteq> []"
      "instant_now ops w2 = (t, w3)" "deadline \<le> t"
      "\<And>f. strict_body ops f deadline self w = Some (Inl Empty, self2, w3)"
  | (wait) self2 w2 t w3 t4 w4 r w5 where "drained_to ops self w self2 w2" "R \<noteq> []"
      "\<not> top_matches self2" "instant_now ops w2 = (t, w3)" "t < deadline"
      "instant_now ops w3 = (t4, w4)"
      "recv_timeout ops (max (deadline - t4) 100) w4 = (r, w5)"
      "\<And>f. strict_body ops f deadline self w =
         (case r of Inr x \<Rightarrow> f (buffer_push x self2) w5
          | Inl e \<Rightarrow> (case e of Timeout \<Rightarrow> f self2 w5
              | RecvDisconnected \<Rightarrow> after_disconnect ops self2 w5))"
proof -
  obtain stopped w1 where 1: "load_stop ops w = (stopped, w1)" by fastforce
  obtain self2 w2 where 2: "drain_unless_matched ops self w1 = (self2, w2)" by fastforce
  obtain t3 w3 where 3: "instant_now ops w2 = (t3, w3)" by fastforce
  obtain t4 w4 where 4: "instant_now ops w3 = (t4, w4)" by fastforce
  obtain r w5 where 5: "recv_timeout ops (max (deadline - t4) 100) w4 = (r, w5)" by fastforce
  note body = strict_body_def [of ops _ deadline self w, unfolded 1 prod.case]
  show thesis
  proof (cases stopped)
    case True
    with 1 show thesis
      using in_step_world [OF step oq_world_okD(1) [OF ok 1]] by (intro stop) (simp_all add: body)
  next
    case False
    with 1 2 have d: "drained_to ops self w self2 w2" by (auto simp: drained_to_def)
    have none_iff: "matcher_is_none (oq_matcher self2) \<longleftrightarrow> R = []"
      using ok step d by (intro in_step_matcher) (rule drained_to_in_step)
    note body' = body [unfolded 2 3 4 5 prod.case]
    consider (t) "top_matches self2" | (n) "\<not> top_matches self2" "R = []"
      | (l) "\<not> top_matches self2" "R \<noteq> []" "deadline \<le> t3"
      | (w) "\<not> top_matches self2" "R \<noteq> []" "t3 < deadline"
      by fastforce
    then show thesis
    proof cases
      case t
      with d False show thesis by (intro top) (simp_all add: body')
    next
      case n
      with d False none_iff show thesis by (intro none) (simp_all add: body')
    next
      case l
      with d False none_iff 3 show thesis by (intro late) (simp_all add: body')
    next
      case w
      with d False none_iff 3 4 5 show thesis by (intro wait) (simp_all add: body')
    qed
  qed
qed

lemma recv_cases:
  obtains (got) x where "r = Inr x" | (timeout) "r = Inl Timeout" | (gone) "r = Inl RecvDisconnected"
  by (cases r; cases "projl r") auto

lemma strict_body_outcome:
  assumes ok: "oq_world_ok ops unreceived" and step: "in_step unreceived R self w"
    and rec: "\<And>self w out. in_step unreceived R self w \<Longrightarrow> f self w = Some out \<Longrightarrow>
        strict_outcome ops unreceived R out"
    and ret: "strict_body ops f deadline self w = Some out"
  shows "strict_outcome ops unreceived R out"
  using ok step
proof (cases rule: strict_body_cases [where deadline = deadline])
  case (stop w1)
  then have "\<not> never_stopped ops" by (metis fst_conv never_stopped_def)
  with stop ret show ?thesis by (auto simp: strict_outcome_def)
next
  case (top self2 w2)
  with ret pop_outcome [OF drained_to_in_step [OF ok step top(1)]] show ?thesis by simp
next
  case (none self2 w2)
  with ret drained_to_in_step [OF ok step none(1)] show ?thesis by (auto simp: strict_outcome_def)
next
  case (late self2 w2 t w3)
  with ret in_step_world [OF drained_to_in_step [OF ok step late(1)] oq_world_okD(2) [OF ok late(3)]]
  show ?thesis by (auto simp: strict_outcome_def)
next
  case (wait self2 w2 t w3 t4 w4 r w5)
  have s4: "in_step unreceived R self2 w4"
    using drained_to_in_step [OF ok step wait(1)] oq_world_okD(2) [OF ok wait(4)]
      oq_world_okD(2) [OF ok wait(6)] by (metis in_step_world)
  from wait(7) consider (got) x where "r = Inr x" "in_step unreceived R (buffer_push x self2) w5"
    | (timeout) "r = Inl Timeout" "in_step unreceived R self2 w5"
    | (gone) "r = Inl RecvDisconnected" "in_step unreceived R self2 w5" "unreceived w5 = {#}"
    using in_step_buffer_push [OF s4] in_step_world [OF s4] oq_world_okD(5-7) [OF ok]
    by (cases r rule: recv_cases) auto
  then show ?thesis
  proof cases
    case gone
    with wait ret show ?thesis by (auto intro: after_disconnect_outcome [OF ok])
  qed (use wait ret rec in auto)
qed

lemma strict_loop_outcome:
  assumes ok: "oq_world_ok ops unreceived" and step: "in_step unreceived R self w"
    and ret: "strict_loop ops deadline self w = Some out"
  shows "strict_outcome ops unreceived R out"
proof -
  have "oq_world_ok ops unreceived \<longrightarrow> in_step unreceived R self w \<longrightarrow> strict_outcome ops unreceived R out"
  proof (rule strict_loop.raw_induct [where
        P = "\<lambda>ops deadline self w out. oq_world_ok ops unreceived \<longrightarrow>
          in_step unreceived R self w \<longrightarrow> strict_outcome ops unreceived R out", OF _ ret])
    fix f ops deadline self w out
    assume IH: "\<And>ops deadline self w out. f ops deadline self w = Some out \<Longrightarrow>
        oq_world_ok ops unreceived \<longrightarrow> in_step unreceived R self w \<longrightarrow> strict_outcome ops unreceived R out"
      and eq: "(case load_stop ops w of (stopped, w) \<Rightarrow>
      if stopped then Some (Inl Disconnected, self, w)
      else case drain_unless_matched ops self w of (self, w) \<Rightarrow>
      if top_matches self
      then map_option (\<lambda>(ordered, self). (Inr ordered, self, w)) (pop_and_advance self)
      else if matcher_is_none (oq_matcher self) then Some (Inl Disconnected, self, w)
      else case instant_now ops w of (t, w) \<Rightarrow>
      if deadline \<le> t then Some (Inl Empty, self, w)
      else case instant_now ops w of (t, w) \<Rightarrow>
      case recv_timeout ops (max (deadline - t) 100) w of (received, w) \<Rightarrow>
      case received of
        Inr ordered \<Rightarrow> f ops deadline (buffer_push ordered self) w
      | Inl e \<Rightarrow> (case e of
            Timeout \<Rightarrow> f ops deadline self w
          | RecvDisconnected \<Rightarrow> after_disconnect ops self w)) = Some out"
    from eq have "strict_body ops (f ops deadline) deadline self w = Some out"
      by (simp add: strict_body_def)
    then show "oq_world_ok ops unreceived \<longrightarrow> in_step unreceived R self w \<longrightarrow>
        strict_outcome ops unreceived R out"
      using IH strict_body_outcome [of ops unreceived R self w "f ops deadline"] by metis
  qed
  with ok step show ?thesis by blast
qed

section \<open>Liveness: a strict read returns\<close>

lemma oq_clock_okD:
  assumes "oq_clock_ok ops clock"
  shows "load_stop ops w = (b, w') \<Longrightarrow> clock w' = clock w"
    and "instant_now ops w = (t, w') \<Longrightarrow> t = clock w \<and> clock w' = clock w"
    and "try_recv ops w = (r, w') \<Longrightarrow> clock w' = clock w"
    and "recv_timeout ops t w = (v, w') \<Longrightarrow> clock w \<le> clock w'"
    and "recv_timeout ops t w = (Inl Timeout, w') \<Longrightarrow> clock w + t \<le> clock w'"
  using assms unfolding oq_clock_ok_def by - metis+

lemma drain_channel_progress:
  "oq_world_ok ops unreceived \<Longrightarrow> oq_clock_ok ops clock \<Longrightarrow> drain_channel ops self w = (self', w') \<Longrightarrow>
   clock w' = clock w \<and> size (unreceived w') \<le> size (unreceived w)"
proof (induction ops self w rule: drain_channel.induct)
  case (1 ops self w)
  obtain r w1 where r: "try_recv ops w = (r, w1)" by fastforce
  note c = oq_clock_okD(3) [OF "1.prems"(2) r]
  show ?case
  proof (cases r)
    case (Inl e)
    with 1 r c oq_world_okD(4) [OF "1.prems"(1), of w e w1] show ?thesis
      by (auto simp: drain_channel.simps [of ops self w] split: if_splits)
  next
    case (Inr x)
    with r oq_world_okD(3) [OF "1.prems"(1), of w x w1]
    have "unreceived w = add_mset x (unreceived w1)" by simp
    with 1 Inr r c show ?thesis
      by (auto simp: drain_channel.simps [of ops self w] split: if_splits)
  qed
qed

lemma drain_unless_matched_progress:
  "oq_world_ok ops unreceived \<Longrightarrow> oq_clock_ok ops clock \<Longrightarrow>
   drain_unless_matched ops self w = (self', w') \<Longrightarrow>
   clock w' = clock w \<and> size (unreceived w') \<le> size (unreceived w)"
  by (auto simp: drain_unless_matched_def split: if_splits dest: drain_channel_progress)

lemma pop_and_advance_returns: "top_matches self \<Longrightarrow> \<exists>p. pop_and_advance self = Some p"
  by (auto simp: top_matches_def pop_and_advance_def heap_peek_def split: option.splits)

lemma after_disconnect_returns:
  "\<exists>out. after_disconnect ops self w = Some out \<and> fst out \<noteq> Inl Empty"
proof -
  obtain self' w' where d: "drain_channel ops self w = (self', w')" by fastforce
  show ?thesis
    using pop_and_advance_returns [of self']
    by (auto simp: after_disconnect_def d split: option.splits)
qed

lemma drained_to_progress:
  "oq_world_ok ops unreceived \<Longrightarrow> oq_clock_ok ops clock \<Longrightarrow> drained_to ops self w self' w' \<Longrightarrow>
   clock w' = clock w \<and> size (unreceived w') \<le> size (unreceived w)"
  unfolding drained_to_def
  using drain_unless_matched_progress [of ops unreceived clock self _ self' w']
    oq_clock_okD(1) [of ops clock w False] oq_world_okD(1) [of ops unreceived w False] by fastforce

text \<open>The state in which an iteration starts to wait: it still looks for something, which is not in the buffer.\<close>

lemma wait_state:
  assumes ok: "oq_world_ok ops unreceived" and clk: "oq_clock_ok ops clock" and step: "in_step unreceived R self w"
    and drained: "drained_to ops self w self2 w2" and "R \<noteq> []" and "\<not> top_matches self2"
    and now: "instant_now ops w2 = (t, w3)" "instant_now ops w3 = (t4, w4)"
  shows "in_step unreceived R self2 w4" "clock w4 = clock w" "t = clock w"
    "size (unreceived w4) \<le> size (unreceived w)" "unreceived w4 \<noteq> {#}"
proof -
  have s2: "in_step unreceived R self2 w2" using ok step drained by (rule drained_to_in_step)
  have u: "unreceived w4 = unreceived w2"
    using oq_world_okD(2) [OF ok now(1)] oq_world_okD(2) [OF ok now(2)] by simp
  show s4: "in_step unreceived R self2 w4" using s2 u by (rule in_step_world)
  show "clock w4 = clock w" "t = clock w" "size (unreceived w4) \<le> size (unreceived w)"
    using drained_to_progress [OF ok clk drained] oq_clock_okD(2) [OF clk now(1)] oq_clock_okD(2) [OF clk now(2)] u
    by simp_all
  show "unreceived w4 \<noteq> {#}"
  proof
    assume "unreceived w4 = {#}"
    with s4 assms(5) have "hd R \<in> set (receive_buffer self2)"
      by (metis add.right_neutral hd_in_set in_step_def set_mset_mset)
    with assms(5,6) s2 show False by (cases R) (auto simp: top_matches_iff)
  qed
qed

text \<open>
  One iteration either returns, or continues with something received or with time gone by; if
  it gives up with \<open>Empty\<close>, the deadline has passed.
\<close>

lemma strict_body_progress:
  assumes ok: "oq_world_ok ops unreceived" and clk: "oq_clock_ok ops clock"
    and step: "in_step unreceived R self w"
  obtains (returned) out where "\<And>f. strict_body ops f deadline self w = Some out"
      "fst out = Inl Empty \<Longrightarrow> deadline \<le> clock w \<and> clock w \<le> clock (snd (snd out)) \<and>
        size (unreceived (snd (snd out))) \<le> size (unreceived w)"
  | (received) self' w' where "\<And>f. strict_body ops f deadline self w = f self' w'"
      "in_step unreceived R self' w'" "clock w \<le> clock w'" "size (unreceived w') < size (unreceived w)"
  | (timeout) self' w' w1 t where "\<And>f. strict_body ops f deadline self w = f self' w'"
      "in_step unreceived R self' w'" "clock w < clock w'" "clock w < deadline"
      "size (unreceived w') \<le> size (unreceived w)"
      "recv_timeout ops t w1 = (Inl Timeout, w')" "clock w1 = clock w" "unreceived w1 \<noteq> {#}"
  using ok step
proof (cases rule: strict_body_cases [where deadline = deadline])
  case (stop w1)
  then show thesis by (intro returned) auto
next
  case (top self2 w2)
  then show thesis using pop_and_advance_returns [of self2] by (auto intro: returned)
next
  case (none self2 w2)
  then show thesis by (intro returned) auto
next
  case (late self2 w2 t w3)
  then show thesis
    using drained_to_progress [OF ok clk late(1)] oq_clock_okD(2) [OF clk late(3)]
      oq_world_okD(2) [OF ok late(3)] by (intro returned) auto
next
  case (wait self2 w2 t w3 t4 w4 r w5)
  note ws = wait_state [OF ok clk step wait(1,2,3,4,6)]
  show thesis
  proof (cases r)
    case (Inr x)
    with wait(7) have x: "unreceived w4 = add_mset x (unreceived w5)" using oq_world_okD(5) [OF ok] by simp
    show thesis
      using Inr wait(8) x ws(2-4) oq_clock_okD(4) [OF clk wait(7)] in_step_buffer_push [OF ws(1) x]
      by (intro received) auto
  next
    case Inl: (Inl e)
    show thesis
    proof (cases e)
      case Timeout
      with Inl wait(7) have rt: "recv_timeout ops (max (deadline - t4) 100) w4 = (Inl Timeout, w5)" by simp
      show thesis
        using Inl Timeout wait(5,8) ws(2-5) rt oq_clock_okD(5) [OF clk rt] oq_world_okD(6) [OF ok rt]
          in_step_world [OF ws(1) oq_world_okD(6) [OF ok rt]]
        by (intro timeout [of self2 w5 _ w4]) auto
    next
      case RecvDisconnected
      with Inl wait(8) after_disconnect_returns [of ops self2 w5] show thesis by (auto intro: returned)
    qed
  qed
qed

text \<open>What is known of a read that gave up: time has passed, and once everything is sent, so has a message.\<close>

definition gave_up :: "('w, 'a) oq_world \<Rightarrow> ('w \<Rightarrow> 'a ordered multiset) \<Rightarrow> ('w \<Rightarrow> nat) \<Rightarrow> nat \<Rightarrow> 'w \<Rightarrow>
    (try_recv_error + 'a ordered) \<times> 'a ordered_queue_iter \<times> 'w \<Rightarrow> bool" where
  "gave_up ops unreceived clock deadline w out \<longleftrightarrow>
     clock w \<le> clock (snd (snd out)) \<and> deadline \<le> clock (snd (snd out)) \<and>
     size (unreceived (snd (snd out))) \<le> size (unreceived w) \<and>
     (\<forall>T. oq_sent_by ops unreceived clock T \<longrightarrow> T \<le> clock w \<longrightarrow> clock w < deadline \<longrightarrow>
        size (unreceived (snd (snd out))) < size (unreceived w))"

lemma strict_loop_returns:
  assumes ok: "oq_world_ok ops unreceived" and clk: "oq_clock_ok ops clock"
    and step: "in_step unreceived R self w"
  shows "\<exists>out. strict_loop ops deadline self w = Some out \<and>
           (fst out = Inl Empty \<longrightarrow> gave_up ops unreceived clock deadline w out)"
  using step
proof (induction "(size (unreceived w), deadline - clock w)" arbitrary: self w
    rule: wf_induct_rule [OF wf_lex_prod [OF wf_less_than wf_less_than]])
  case (1 w self)
  note less = "1.hyps" [simplified]
  from ok clk "1.prems" show ?case
  proof (cases rule: strict_body_progress [where deadline = deadline])
    case (returned out)
    then show ?thesis by (auto simp: strict_loop_body [of ops deadline self w] gave_up_def)
  next
    case (received self' w')
    from less [of w' self'] received obtain out where "strict_loop ops deadline self' w' = Some out"
      and "fst out = Inl Empty \<longrightarrow> gave_up ops unreceived clock deadline w' out" by auto
    with received show ?thesis by (auto simp: strict_loop_body [of ops deadline self w] gave_up_def)
  next
    case (timeout self' w' w1 t)
    from less [of w' self'] timeout obtain out where "strict_loop ops deadline self' w' = Some out"
      and "fst out = Inl Empty \<longrightarrow> gave_up ops unreceived clock deadline w' out" by fastforce
    moreover have "\<not> (oq_sent_by ops unreceived clock T \<and> T \<le> clock w)" for T
      using timeout(6-8) unfolding oq_sent_by_def by metis
    ultimately show ?thesis
      using timeout by (auto simp: strict_loop_body [of ops deadline self w] gave_up_def)
  qed
qed

text \<open>A strict read returns, and what it returns is right.\<close>

lemma try_next_strict_total:
  assumes ok: "oq_world_ok ops unreceived" and clk: "oq_clock_ok ops clock"
    and step: "in_step unreceived R self w"
  obtains out where "try_next_strict ops self w = Some out" "strict_outcome ops unreceived R out"
    "fst out = Inl Empty \<Longrightarrow> clock w < clock (snd (snd out)) \<and>
       size (unreceived (snd (snd out))) \<le> size (unreceived w)"
    "\<And>T. fst out = Inl Empty \<Longrightarrow> oq_sent_by ops unreceived clock T \<Longrightarrow> T \<le> clock w \<Longrightarrow>
       size (unreceived (snd (snd out))) < size (unreceived w)"
proof -
  obtain t w1 where now: "instant_now ops w = (t, w1)" by fastforce
  note c = oq_clock_okD(2) [OF clk now] and u = oq_world_okD(2) [OF ok now]
  have s1: "in_step unreceived R self w1" using step u by (rule in_step_world)
  obtain out where out: "strict_loop ops (t + STRICT_WAIT_TIMEOUT) self w1 = Some out"
    and g: "fst out = Inl Empty \<longrightarrow> gave_up ops unreceived clock (t + STRICT_WAIT_TIMEOUT) w1 out"
    using strict_loop_returns [OF ok clk s1] by blast
  show thesis
  proof (rule that [of out])
    show "try_next_strict ops self w = Some out" using now out by (simp add: try_next_strict_def)
    show "strict_outcome ops unreceived R out" using ok s1 out by (rule strict_loop_outcome)
  qed (use g c u in \<open>auto simp: gave_up_def STRICT_WAIT_TIMEOUT_def\<close>)
qed

lemma ordered_queue_next_total:
  assumes ok: "oq_world_ok ops unreceived" and clk: "oq_clock_ok ops clock"
    and sent: "oq_sent_by ops unreceived clock T" and run: "never_stopped ops"
    and step: "in_step unreceived R self w"
  shows "\<exists>self' w'. ordered_queue_next ops self w =
           Some (if R = [] then None else Some (hd R), self', w') \<and> in_step unreceived (tl R) self' w'"
  using step
proof (induction "(T - clock w, size (unreceived w))" arbitrary: self w
    rule: wf_induct_rule [OF wf_lex_prod [OF wf_less_than wf_less_than]])
  case (1 w self)
  note less = "1.hyps" [simplified]
  obtain r self' w' where out: "try_next_strict ops self w = Some (r, self', w')"
    and right: "strict_outcome ops unreceived R (r, self', w')"
    and progress: "r = Inl Empty \<Longrightarrow> clock w < clock w' \<and> size (unreceived w') \<le> size (unreceived w)"
      "r = Inl Empty \<Longrightarrow> T \<le> clock w \<Longrightarrow> size (unreceived w') < size (unreceived w)"
    using try_next_strict_total [OF ok clk "1.prems"] sent by (metis fst_conv snd_conv prod_cases3)
  note next_eq = ordered_queue_next.simps [of ops self w]
  show ?case
  proof (cases "r = Inl Empty")
    case True
    then have "in_step unreceived R self' w'" using right by (simp add: strict_outcome_def)
    moreover have "T - clock w' < T - clock w \<or>
        T - clock w' = T - clock w \<and> size (unreceived w') < size (unreceived w)"
      using progress [OF True] by fastforce
    ultimately show ?thesis using less [of w' self'] True out by (simp add: next_eq)
  next
    case False
    with right run out show ?thesis
      by (cases r) (auto simp: strict_outcome_def next_eq split: try_recv_error.splits)
  qed
qed

section \<open>A concrete channel\<close>

text \<open>
  A channel that holds its messages in their order of arrival, with all producers finished: the
  contracts are satisfiable, by any order of arrival.
\<close>

definition arrived_world :: "('a ordered list \<times> nat, 'a) oq_world" where
  "arrived_world =
     \<lparr>load_stop = (\<lambda>w. (False, w)),
      try_recv = (\<lambda>(ms, t). case ms of [] \<Rightarrow> (Inl Disconnected, (ms, t)) | m # ms \<Rightarrow> (Inr m, (ms, t))),
      recv_timeout = (\<lambda>d (ms, t).
        case ms of [] \<Rightarrow> (Inl RecvDisconnected, (ms, t)) | m # ms \<Rightarrow> (Inr m, (ms, t))),
      instant_now = (\<lambda>(ms, t). (t, (ms, t)))\<rparr>"

lemma arrived_world_ok:
  "oq_world_ok arrived_world (\<lambda>(ms, t). mset ms)"
  "oq_clock_ok arrived_world (\<lambda>(ms, t). t)"
  "oq_sent_by arrived_world (\<lambda>(ms, t). mset ms) (\<lambda>(ms, t). t) 0"
  "never_stopped arrived_world"
  by (auto simp: oq_world_ok_def oq_clock_ok_def oq_sent_by_def never_stopped_def arrived_world_def
      split: list.splits)

section \<open>Properties\<close>

text \<open>
  C9. The strict iterator returns and delivers: as long as every outstanding result is sent
  eventually and the walk is not stopped, \<open>next\<close> ends, yields the first result of the depth
  first order, and leaves the iterator in step with the rest; when nothing is left it yields
  \<open>None\<close>.
\<close>

theorem strict_iterator_delivers_in_order:
  assumes "oq_world_ok ops unreceived" and "oq_clock_ok ops clock"
    and "oq_sent_by ops unreceived clock T" and "never_stopped ops" and "in_step unreceived R self w"
  shows "\<exists>self' w'. ordered_queue_next ops self w =
           Some (if R = [] then None else Some (hd R), self', w') \<and> in_step unreceived (tl R) self' w'"
  using assms by (rule ordered_queue_next_total)

text \<open>Three results that arrive in the reverse of the order they are to be yielded in.\<close>

definition example_results :: "nat ordered list" where
  "example_results = label (index_path_new [0]) (ONode 1 [ONode 2 [], ONode 3 []])"

theorem strict_iterator_delivers_in_order_witness:
  "\<exists>self' w'. ordered_queue_next arrived_world (new_ordered_queue 256) (rev example_results, 0) =
     Some (Some (ordered_new 1 (index_path_new [0]) 2), self', w')"
proof -
  have "in_step (\<lambda>(ms, t). mset ms) example_results (new_ordered_queue 256) (rev example_results, 0)"
    unfolding example_results_def by (rule in_step_initial) simp
  from strict_iterator_delivers_in_order [OF arrived_world_ok this]
  show ?thesis by (auto simp: example_results_def)
qed

end
