(* ===== verification/Read_Dir_Iter.thy ===== *)
theory Read_Dir_Iter
  imports Read_Dir Ordered_Queue
begin

text \<open>
  \<open>core/read_dir_iter.rs\<close>: the iterator over read directories. The serial \<open>Walk\<close> keeps a stack
  of specifications and reads on demand; \<open>ParWalk\<close> takes results out of the ordered queue. The
  results of a walk form a tree (\<open>read_tree\<close>), and both variants deliver its preorder: the two
  interpretations of the interface \<open>read_dir_source\<close>.
\<close>

section \<open>The interface\<close>

text \<open>
  What a consumer of read directories relies on: as long as the results to come are known
  (\<open>remaining\<close>), \<open>next\<close> returns, delivers the first of them and leaves the rest.
\<close>

locale read_dir_source =
  fixes next_result :: "'s \<Rightarrow> ('v option \<times> 's) option"
    and remaining :: "'s \<Rightarrow> 'v list \<Rightarrow> bool"
  assumes next_Cons: "remaining s (v # vs) \<Longrightarrow> \<exists>s'. next_result s = Some (Some v, s') \<and> remaining s' vs"
    and next_Nil: "remaining s [] \<Longrightarrow> \<exists>s'. next_result s = Some (None, s') \<and> remaining s' []"

section \<open>The iterator\<close>

type_synonym ('d, 'r) read_result = "error + ('d, 'r) read_dir"
type_synonym ('d, 'r) read_dir_callback = "'r read_dir_spec \<Rightarrow> ('d, 'r) read_result"

text \<open>As in the \<open>Vec\<close>, the top of the stack is its last element.\<close>

datatype ('d, 'r) read_dir_iter =
    Walk (read_dir_spec_stack: "'r read_dir_spec list")
  | ParWalk (read_dir_result_iter: "('d, 'r) read_result ordered_queue_iter")

definition result_children :: "('d, 'r) read_result \<Rightarrow> 'r read_dir_spec list" where
  "result_children r = (case r of Inr read_dir \<Rightarrow> read_children_specs read_dir | Inl e \<Rightarrow> [])"

definition push_all :: "'a list \<Rightarrow> 'a list \<Rightarrow> 'a list" where
  "push_all stack xs = fold (\<lambda>x st. st @ [x]) xs stack"

text \<open>The \<open>Walk\<close> arm of \<open>next\<close>; \<open>callback\<close> is \<open>core_read_dir_callback\<close> without a streaming context.\<close>

definition walk_next :: "('d, 'r) read_dir_callback \<Rightarrow> 'r read_dir_spec list \<Rightarrow>
    ('d, 'r) read_result option \<times> 'r read_dir_spec list" where
  "walk_next callback stack =
     (if stack = [] then (None, stack)
      else let read_dir_result = callback (last stack); stack = butlast stack in
           case read_dir_result of
             Inr read_dir \<Rightarrow> (Some read_dir_result, push_all stack (rev (read_children_specs read_dir)))
           | Inl e \<Rightarrow> (Some read_dir_result, stack))"

definition read_dir_iter_next :: "('d, 'r) read_dir_callback \<Rightarrow> ('w, ('d, 'r) read_result) oq_world \<Rightarrow>
    ('d, 'r) read_dir_iter \<times> 'w \<Rightarrow>
    (('d, 'r) read_result option \<times> (('d, 'r) read_dir_iter \<times> 'w)) option" where
  "read_dir_iter_next callback ops s =
     (case s of
        (Walk stack, w) \<Rightarrow> (case walk_next callback stack of (r, stack) \<Rightarrow> Some (r, (Walk stack, w)))
      | (ParWalk it, w) \<Rightarrow>
          map_option (\<lambda>(r, it, w). (map_option o_value r, (ParWalk it, w))) (ordered_queue_next ops it w))"

section \<open>The tree of results\<close>

text \<open>
  \<open>read_tree n callback spec\<close> reads \<open>spec\<close> and everything below it; \<open>n\<close> bounds the depth, and
  \<open>None\<close> means that the bound was reached (a tree of unbounded depth exists only with links
  that are followed in a circle).
\<close>

fun read_tree :: "nat \<Rightarrow> ('d, 'r) read_dir_callback \<Rightarrow> 'r read_dir_spec \<Rightarrow>
    ('d, 'r) read_result otree option" where
  "read_tree 0 callback spec = None"
| "read_tree (Suc n) callback spec =
     map_option (ONode (callback spec))
       (those (map (read_tree n callback) (result_children (callback spec))))"

lemma push_all_append: "push_all stack xs = stack @ xs"
  by (induction xs arbitrary: stack) (auto simp: push_all_def)

lemma walk_next_Nil [simp]: "walk_next callback [] = (None, [])"
  by (simp add: walk_next_def)

lemma walk_next_snoc [simp]:
  "walk_next callback (stack @ [s]) =
     (Some (callback s), stack @ rev (result_children (callback s)))"
  by (simp add: walk_next_def Let_def push_all_append result_children_def split: sum.split)

lemma those_Some_iff: "those xs = Some ys \<longleftrightarrow> xs = map Some ys"
  by (induction xs arbitrary: ys) (auto split: option.splits)

text \<open>The inversion rule of \<open>read_tree\<close>, and that more fuel gives the same tree.\<close>

lemma read_tree_SucE:
  assumes "read_tree (Suc n) callback spec = Some t"
  obtains ts where "t = ONode (callback spec) ts"
    and "map (read_tree n callback) (result_children (callback spec)) = map Some ts"
  using assms by (auto simp: those_Some_iff)

lemma read_tree_mono:
  "read_tree n callback spec = Some t \<Longrightarrow> n \<le> m \<Longrightarrow> read_tree m callback spec = Some t"
proof (induction n arbitrary: m spec t)
  case (Suc n)
  from Suc.prems(2) obtain m' where m: "m = Suc m'" "n \<le> m'" by (cases m) auto
  from Suc.prems(1) obtain ts where t: "t = ONode (callback spec) ts"
    and ts: "map (read_tree n callback) (result_children (callback spec)) = map Some ts"
    by (rule read_tree_SucE)
  have len: "length ts = length (result_children (callback spec))" using map_eq_imp_length_eq [OF ts] by simp
  have "map (read_tree m' callback) (result_children (callback spec)) = map Some ts"
  proof (rule nth_equalityI)
    fix i assume "i < length (map (read_tree m' callback) (result_children (callback spec)))"
    then have i: "i < length ts" using len by simp
    then have "read_tree n callback (result_children (callback spec) ! i) = Some (ts ! i)"
      using arg_cong [OF ts, of "\<lambda>xs. xs ! i"] len by simp
    then show "map (read_tree m' callback) (result_children (callback spec)) ! i = map Some ts ! i"
      using Suc.IH [OF _ m(2)] i len by simp
  qed (simp add: len)
  then show ?case using m(1) t by (simp add: those_Some_iff)
qed simp

definition has_tree :: "('d, 'r) read_dir_callback \<Rightarrow> 'r read_dir_spec \<Rightarrow>
    ('d, 'r) read_result otree \<Rightarrow> bool" where
  "has_tree callback spec t \<longleftrightarrow> (\<exists>n. read_tree n callback spec = Some t)"

text \<open>A tree of the walk: its root is the read directory, its subtrees belong to the children.\<close>

lemma has_tree_unfold:
  assumes "has_tree callback spec t"
  obtains ts where "t = ONode (callback spec) ts"
    and "list_all2 (has_tree callback) (result_children (callback spec)) ts"
proof -
  from assms obtain n where "read_tree n callback spec = Some t" by (auto simp: has_tree_def)
  then obtain n' where "read_tree (Suc n') callback spec = Some t" by (cases n) auto
  then obtain ts where t: "t = ONode (callback spec) ts"
    and ts: "map (read_tree n' callback) (result_children (callback spec)) = map Some ts"
    by (rule read_tree_SucE)
  have "list_all2 (has_tree callback) (result_children (callback spec)) ts"
    unfolding list_all2_conv_all_nth has_tree_def
    using ts by (metis length_map nth_map)
  with t show thesis by (rule that)
qed

lemma has_tree_unique: "has_tree callback spec t \<Longrightarrow> has_tree callback spec t' \<Longrightarrow> t = t'"
  unfolding has_tree_def by (metis le_cases option.inject read_tree_mono)

section \<open>The serial walk delivers the preorder\<close>

text \<open>The results a stack of specifications still has to deliver, its last element first.\<close>

definition walk_remaining :: "('d, 'r) read_dir_callback \<Rightarrow> 'r read_dir_spec list \<Rightarrow>
    ('d, 'r) read_result list \<Rightarrow> bool" where
  "walk_remaining callback stack vs \<longleftrightarrow>
     (\<exists>ts. list_all2 (has_tree callback) (rev stack) ts \<and> vs = concat (map preorder ts))"

lemma walk_remaining_step:
  assumes "walk_remaining callback (stack @ [s]) vs"
  shows "\<exists>vs'. vs = callback s # vs' \<and>
           walk_remaining callback (stack @ rev (result_children (callback s))) vs'"
proof -
  from assms obtain t ts where tree: "has_tree callback s t"
    and rest: "list_all2 (has_tree callback) (rev stack) ts"
    and vs: "vs = preorder t @ concat (map preorder ts)"
    by (auto simp: walk_remaining_def list_all2_Cons1)
  from tree obtain us where t: "t = ONode (callback s) us"
    and us: "list_all2 (has_tree callback) (result_children (callback s)) us"
    by (rule has_tree_unfold)
  have "list_all2 (has_tree callback) (rev (stack @ rev (result_children (callback s)))) (us @ ts)"
    using us rest by (simp add: list_all2_appendI)
  then have "walk_remaining callback (stack @ rev (result_children (callback s)))
      (concat (map preorder us) @ concat (map preorder ts))"
    unfolding walk_remaining_def by (intro exI [of _ "us @ ts"]) simp
  then show ?thesis using vs t by auto
qed

section \<open>The parallel walk delivers the preorder\<close>

text \<open>
  The results to come of \<open>ParWalk\<close>: the shared objects keep their contract for some history of
  messages, the walk is not stopped, and the queue iterator is in step with the rest.
\<close>

definition par_remaining :: "('w, ('d, 'r) read_result) oq_world \<Rightarrow>
    ('d, 'r) read_result ordered_queue_iter \<Rightarrow> 'w \<Rightarrow> ('d, 'r) read_result list \<Rightarrow> bool" where
  "par_remaining ops it w vs \<longleftrightarrow>
     (\<exists>unreceived clock T R. oq_world_ok ops unreceived \<and> oq_clock_ok ops clock \<and>
        oq_sent_by ops unreceived clock T \<and> never_stopped ops \<and>
        in_step unreceived R it w \<and> vs = map o_value R)"

lemma par_remaining_next:
  assumes "par_remaining ops it w vs"
  shows "\<exists>x it' w'. ordered_queue_next ops it w = Some (x, it', w') \<and>
           map_option o_value x = (if vs = [] then None else Some (hd vs)) \<and>
           par_remaining ops it' w' (tl vs)"
proof -
  from assms obtain unreceived clock T R where ok: "oq_world_ok ops unreceived"
    "oq_clock_ok ops clock" "oq_sent_by ops unreceived clock T" "never_stopped ops"
    and step: "in_step unreceived R it w" and vs: "vs = map o_value R"
    by (auto simp: par_remaining_def)
  from ordered_queue_next_total [OF ok step] obtain it' w'
    where n: "ordered_queue_next ops it w = Some (if R = [] then None else Some (hd R), it', w')"
    and s: "in_step unreceived (tl R) it' w'" by blast
  have "par_remaining ops it' w' (tl vs)"
    unfolding par_remaining_def using ok s vs by (auto simp: map_tl intro!: exI)
  then show ?thesis using n vs by (auto simp: hd_map)
qed

fun iter_remaining :: "('d, 'r) read_dir_callback \<Rightarrow> ('w, ('d, 'r) read_result) oq_world \<Rightarrow>
    ('d, 'r) read_dir_iter \<times> 'w \<Rightarrow> ('d, 'r) read_result list \<Rightarrow> bool" where
  "iter_remaining callback ops (Walk stack, w) vs = walk_remaining callback stack vs"
| "iter_remaining callback ops (ParWalk it, w) vs = par_remaining ops it w vs"

lemma read_dir_iter_next_Walk:
  "read_dir_iter_next callback ops (Walk stack, w) =
     Some (fst (walk_next callback stack), (Walk (snd (walk_next callback stack)), w))"
  by (simp add: read_dir_iter_next_def split: prod.split)

lemma read_dir_iter_next_ParWalk:
  "read_dir_iter_next callback ops (ParWalk it, w) =
     map_option (\<lambda>(r, it, w). (map_option o_value r, (ParWalk it, w))) (ordered_queue_next ops it w)"
  by (simp add: read_dir_iter_next_def)

interpretation rdi: read_dir_source "read_dir_iter_next callback ops" "iter_remaining callback ops"
  for callback ops
proof unfold_locales
  fix s v vs assume rem: "iter_remaining callback ops s (v # vs)"
  show "\<exists>s'. read_dir_iter_next callback ops s = Some (Some v, s') \<and> iter_remaining callback ops s' vs"
  proof (cases "fst s")
    case (Walk stack)
    then obtain w where s: "s = (Walk stack, w)" by (cases s) auto
    with rem have "stack \<noteq> []" by (auto simp: walk_remaining_def)
    then obtain st x where "stack = st @ [x]" by (metis rev_exhaust)
    with rem s walk_remaining_step [of callback st x "v # vs"] show ?thesis
      by (auto simp: read_dir_iter_next_Walk)
  next
    case (ParWalk it)
    then obtain w where s: "s = (ParWalk it, w)" by (cases s) auto
    with rem par_remaining_next [of ops it w "v # vs"] show ?thesis
      by (fastforce simp: read_dir_iter_next_ParWalk)
  qed
next
  fix s assume rem: "iter_remaining callback ops s []"
  show "\<exists>s'. read_dir_iter_next callback ops s = Some (None, s') \<and> iter_remaining callback ops s' []"
  proof (cases "fst s")
    case (Walk stack)
    then obtain w where s: "s = (Walk stack, w)" by (cases s) auto
    with rem walk_remaining_step [of callback "butlast stack" "last stack" "[]"] have "stack = []"
      by (cases "stack = []") auto
    with s rem show ?thesis by (simp add: read_dir_iter_next_Walk)
  next
    case (ParWalk it)
    then obtain w where s: "s = (ParWalk it, w)" by (cases s) auto
    with rem par_remaining_next [of ops it w "[]"] show ?thesis
      by (fastforce simp: read_dir_iter_next_ParWalk)
  qed
qed

section \<open>Initial states\<close>

lemma walk_remaining_root:
  "has_tree callback spec t \<Longrightarrow> iter_remaining callback ops (Walk [spec], w) (preorder t)"
  by (auto simp: walk_remaining_def)

lemma par_remaining_root:
  assumes "oq_world_ok ops unreceived" "oq_clock_ok ops clock" "oq_sent_by ops unreceived clock T"
    and "never_stopped ops" and "unreceived w = mset (label (index_path_new [0]) t)"
  shows "iter_remaining callback ops (ParWalk (new_ordered_queue n), w) (preorder t)"
proof -
  have "in_step unreceived (label (index_path_new [0]) t) (new_ordered_queue n) w"
    using assms(5) by (rule in_step_initial)
  then show ?thesis
    using assms(1-4) label_values(1) [of "index_path_new [0]" t]
    unfolding iter_remaining.simps par_remaining_def by metis
qed

end
