(* ===== verification/Dir_Entry_Iter.thy ===== *)
theory Dir_Entry_Iter
  imports Read_Dir_Iter Walk_Options
begin

text \<open>
  \<open>core/dir_entry_iter.rs\<close>: the iterator a client of the crate drives. It walks a stack of entry
  lists and, for every entry that is a directory to descend into, takes the next read directory
  from its source. The specification \<open>emit\<close> says what a walk yields, by recursion over the tree
  of read directories; the iterator yields exactly that over every source that keeps the
  interface \<open>read_dir_source\<close>.
\<close>

section \<open>The iterator\<close>

type_synonym 'd entry_result = "error + 'd dir_entry"

text \<open>The source of read directories is of type \<open>'s\<close>; as in the \<open>Vec\<close>, the top of the stack is last.\<close>

record ('s, 'd) dir_entry_iter =
  dei_min_depth :: usize
  dei_read_dir_iter :: "'s option"
  dei_results_stack :: "'d entry_result list list"

text \<open>
  \<open>push_next_read_dir_results\<close>: the outer option is \<open>None\<close> when the source's \<open>next\<close> does not
  return.
\<close>

definition push_next_read_dir_results ::
    "('s \<Rightarrow> (('d, 'r) read_result option \<times> 's) option) \<Rightarrow> 's \<Rightarrow> 'd entry_result list list \<Rightarrow>
     ((error + unit) \<times> 's \<times> 'd entry_result list list) option" where
  "push_next_read_dir_results next_result iter results =
     (case next_result iter of
        None \<Rightarrow> None
      | Some (None, iter) \<Rightarrow> Some (Inl error_busy, iter, results)
      | Some (Some (Inl err), iter) \<Rightarrow> Some (Inl err, iter, results)
      | Some (Some (Inr read_dir), iter) \<Rightarrow> Some (Inr (), iter, results @ [results_list read_dir]))"

text \<open>
  Step 2.2 of \<open>next\<close> for an entry with a \<open>read_children_path\<close>: \<open>Inl\<close> is the early return of an
  error, \<open>Inr\<close> the entry to go on with.
\<close>

definition descend :: "('s \<Rightarrow> (('d, 'r) read_result option \<times> 's) option) \<Rightarrow>
    ('s, 'd) dir_entry_iter \<Rightarrow> 'd dir_entry \<Rightarrow> ('d entry_result \<times> ('s, 'd) dir_entry_iter) option" where
  "descend next_result self dir_entry =
     (case dei_read_dir_iter self of
        None \<Rightarrow> Some (Inl error_busy, self)
      | Some iter \<Rightarrow>
          (case push_next_read_dir_results next_result iter (dei_results_stack self) of
             None \<Rightarrow> None
           | Some (r, iter, stack) \<Rightarrow>
               Some (Inr (case r of
                        Inl err \<Rightarrow> dir_entry\<lparr>de_read_children_error := Some err\<rparr>
                      | Inr _ \<Rightarrow> dir_entry),
                     self\<lparr>dei_read_dir_iter := Some iter, dei_results_stack := stack\<rparr>)))"

partial_function (option) dir_entry_iter_next :: "('s \<Rightarrow> (('d, 'r) read_result option \<times> 's) option) \<Rightarrow>
    ('s, 'd) dir_entry_iter \<Rightarrow> ('d entry_result option \<times> ('s, 'd) dir_entry_iter) option" where
  "dir_entry_iter_next next_result self =
     (if dei_results_stack self = [] then Some (None, self)
      else case last (dei_results_stack self) of
        [] \<Rightarrow> dir_entry_iter_next next_result
               (self\<lparr>dei_results_stack := butlast (dei_results_stack self)\<rparr>)
      | dir_entry_result # rest \<Rightarrow>
          let self = self\<lparr>dei_results_stack := butlast (dei_results_stack self) @ [rest]\<rparr> in
          case dir_entry_result of
            Inl err \<Rightarrow> Some (Some (Inl err), self)
          | Inr dir_entry \<Rightarrow>
              case (if de_read_children_path dir_entry \<noteq> None
                    then descend next_result self dir_entry else Some (Inr dir_entry, self)) of
                None \<Rightarrow> None
              | Some (r, self) \<Rightarrow>
                  case r of
                    Inl err \<Rightarrow> Some (Some (Inl err), self)
                  | Inr dir_entry \<Rightarrow>
                      if dei_min_depth self \<le> de_depth dir_entry then Some (Some (Inr dir_entry), self)
                      else dir_entry_iter_next next_result self)"

text \<open>Driving the iterator to its end, as \<open>collect\<close> does.\<close>

partial_function (option) collect :: "('s \<Rightarrow> (('d, 'r) read_result option \<times> 's) option) \<Rightarrow>
    ('s, 'd) dir_entry_iter \<Rightarrow> 'd entry_result list option" where
  "collect next_result self =
     (case dir_entry_iter_next next_result self of
        None \<Rightarrow> None
      | Some (r, self) \<Rightarrow> (case r of
            None \<Rightarrow> Some []
          | Some x \<Rightarrow> Option.bind (collect next_result self) (\<lambda>xs. Some (x # xs))))"

section \<open>Construction\<close>

text \<open>
  \<open>ReadDirIter::try_new\<close>. Whether the pool started the walk within the busy timeout is decided
  outside the crate (\<open>started\<close>); the specifications a parallel walk starts from are pushed to
  the scheduling queue, which belongs to the workers.
\<close>

definition try_new :: "'r read_dir_spec list \<Rightarrow> 'p parallelism \<Rightarrow> bool \<Rightarrow> usize \<Rightarrow>
    ('d, 'r) read_dir_iter option" where
  "try_new read_dir_specs p started max_size =
     (case p of
        Serial \<Rightarrow> Some (Walk read_dir_specs)
      | _ \<Rightarrow> if parallelism_timeout p \<noteq> None \<and> \<not> started then None
             else Some (ParWalk (new_ordered_queue max_size)))"

definition root_specs :: "'d entry_result list \<Rightarrow> 'r \<Rightarrow> 'r read_dir_spec list" where
  "root_specs root_entry_results st = List.map_filter (child_spec st) root_entry_results"

definition dir_entry_iter_new :: "'d entry_result list \<Rightarrow> 'p parallelism \<Rightarrow> bool \<Rightarrow> usize \<Rightarrow> 'r \<Rightarrow>
    usize \<Rightarrow> 'w \<Rightarrow> (('d, 'r) read_dir_iter \<times> 'w, 'd) dir_entry_iter" where
  "dir_entry_iter_new root_entry_results p started min_depth st max_size w =
     \<lparr>dei_min_depth = min_depth,
      dei_read_dir_iter =
        map_option (\<lambda>it. (it, w)) (try_new (root_specs root_entry_results st) p started max_size),
      dei_results_stack = [root_entry_results]\<rparr>"

section \<open>What a walk yields\<close>

text \<open>
  \<open>emit m rs ts\<close>: the entries \<open>rs\<close> of a directory in order, each followed by what is below it;
  \<open>ts\<close> are the trees of its subdirectories. An entry above the minimum depth is left out, an
  error is not; a subdirectory that could not be read is yielded with the error attached.
\<close>

definition keep_deep :: "usize \<Rightarrow> 'd dir_entry \<Rightarrow> 'd entry_result list" where
  "keep_deep min_depth e = (if min_depth \<le> de_depth e then [Inr e] else [])"

lemma size_okids: "size_list size (okids t) < Suc (size t + n)"
  by (cases t) simp

function emit :: "usize \<Rightarrow> 'd entry_result list \<Rightarrow> ('d, 'r) read_result otree list \<Rightarrow>
    'd entry_result list" where
  "emit m [] ts = []"
| "emit m (Inl err # rs) ts = Inl err # emit m rs ts"
| "emit m (Inr e # rs) ts =
     (if de_read_children_path e = None then keep_deep m e @ emit m rs ts
      else case ts of
        [] \<Rightarrow> keep_deep m (e\<lparr>de_read_children_error := Some error_busy\<rparr>) @ emit m rs []
      | t # ts \<Rightarrow>
          (case oroot t of
             Inl err \<Rightarrow> keep_deep m (e\<lparr>de_read_children_error := Some err\<rparr>) @ emit m rs ts
           | Inr rd \<Rightarrow> keep_deep m e @ emit m (results_list rd) (okids t) @ emit m rs ts))"
  by pat_completeness auto
termination
  by (relation "measures [\<lambda>(m, rs, ts). size_list size ts, \<lambda>(m, rs, ts). length rs]")
    (auto simp: size_okids)

text \<open>A tree is complete when every directory to descend into has a subtree.\<close>

fun complete_tree :: "('d, 'r) read_result otree \<Rightarrow> bool" where
  "complete_tree (ONode r ts) \<longleftrightarrow>
     length ts = length (result_children r) \<and> list_all complete_tree ts"

definition descends :: "'d entry_result \<Rightarrow> bool" where
  "descends r = (case r of Inl err \<Rightarrow> False | Inr e \<Rightarrow> de_read_children_path e \<noteq> None)"

definition complete_level :: "'d entry_result list \<Rightarrow> ('d, 'r) read_result otree list \<Rightarrow> bool" where
  "complete_level rs ts \<longleftrightarrow> length ts = length (filter descends rs) \<and> list_all complete_tree ts"

lemma length_child_specs:
  fixes rs :: "'d entry_result list"
  shows "length (List.map_filter (child_spec st) rs) = length (filter descends rs)"
proof -
  have "child_spec st r \<noteq> None \<longleftrightarrow> descends r" for r :: "'d entry_result"
    using read_children_spec_None [of _ st] by (cases r) (auto simp: descends_def)
  then show ?thesis by (simp add: List.map_filter_def)
qed

lemma complete_tree_level:
  "complete_tree (ONode (Inr rd) ts) \<longleftrightarrow> complete_level (results_list rd) ts"
  by (simp add: complete_level_def result_children_def read_children_specs_def length_child_specs)

lemma has_tree_complete: "has_tree callback spec t \<Longrightarrow> complete_tree t"
proof (induction t arbitrary: spec)
  case (ONode r ts)
  from ONode.prems obtain us where "ONode r ts = ONode (callback spec) us"
    and us: "list_all2 (has_tree callback) (result_children (callback spec)) us"
    by (rule has_tree_unfold)
  then have "r = callback spec" "us = ts" by auto
  moreover have "complete_tree t" if t: "t \<in> set ts" for t
  proof -
    from t us \<open>us = ts\<close> obtain s where "has_tree callback s t"
      by (auto simp: list_all2_conv_all_nth in_set_conv_nth)
    then show ?thesis by (rule ONode.IH [OF t])
  qed
  ultimately show ?case using us by (auto simp: list_all_iff list_all2_lengthD)
qed

section \<open>The iterator yields what the specification says\<close>

lemma map_option_append:
  "map_option ((@) [x]) v = map_option ((#) x) v" "map_option ((@) []) v = v"
  by (cases v; simp)+

lemma collect_skip:
  "dir_entry_iter_next nxt self = dir_entry_iter_next nxt self' \<Longrightarrow>
   collect nxt self = collect nxt self'"
  by (simp add: collect.simps [of nxt self] collect.simps [of nxt self'])

lemma collect_yield:
  "dir_entry_iter_next nxt self = Some (Some x, self') \<Longrightarrow>
   collect nxt self = map_option ((#) x) (collect nxt self')"
  by (cases "collect nxt self'") (simp_all add: collect.simps [of nxt self])

lemma collect_end: "dei_results_stack self = [] \<Longrightarrow> collect nxt self = Some []"
  by (simp add: collect.simps [of nxt self] dir_entry_iter_next.simps [of nxt self])

lemma collect_pop:
  "dei_results_stack self = B @ [[]] \<Longrightarrow> collect nxt self = collect nxt (self\<lparr>dei_results_stack := B\<rparr>)"
  by (rule collect_skip) (simp add: dir_entry_iter_next.simps [of nxt self])

lemma collect_err:
  "dei_results_stack self = B @ [Inl err # rs] \<Longrightarrow>
   collect nxt self =
     map_option ((#) (Inl err)) (collect nxt (self\<lparr>dei_results_stack := B @ [rs]\<rparr>))"
  by (rule collect_yield) (simp add: dir_entry_iter_next.simps [of nxt self] Let_def)

lemma collect_file:
  assumes "dei_results_stack self = B @ [Inr e # rs]" and "de_read_children_path e = None"
  shows "collect nxt self = map_option ((@) (keep_deep (dei_min_depth self) e))
           (collect nxt (self\<lparr>dei_results_stack := B @ [rs]\<rparr>))"
proof (cases "dei_min_depth self \<le> de_depth e")
  case True
  with assms have "dir_entry_iter_next nxt self =
      Some (Some (Inr e), self\<lparr>dei_results_stack := B @ [rs]\<rparr>)"
    by (simp add: dir_entry_iter_next.simps [of nxt self] Let_def)
  with True show ?thesis using collect_yield by (simp add: keep_deep_def map_option_append) blast
next
  case False
  with assms have "dir_entry_iter_next nxt self =
      dir_entry_iter_next nxt (self\<lparr>dei_results_stack := B @ [rs]\<rparr>)"
    by (simp add: dir_entry_iter_next.simps [of nxt self] Let_def)
  with False show ?thesis using collect_skip by (simp add: keep_deep_def map_option_append) blast
qed

lemma collect_dir:
  assumes "dei_results_stack self = B @ [Inr e # rs]" and "de_read_children_path e \<noteq> None"
    and "descend nxt (self\<lparr>dei_results_stack := B @ [rs]\<rparr>) e = Some (Inr e', self')"
  shows "collect nxt self = map_option ((@) (keep_deep (dei_min_depth self') e')) (collect nxt self')"
proof (cases "dei_min_depth self' \<le> de_depth e'")
  case True
  with assms have "dir_entry_iter_next nxt self = Some (Some (Inr e'), self')"
    by (simp add: dir_entry_iter_next.simps [of nxt self] Let_def)
  with True show ?thesis using collect_yield by (simp add: keep_deep_def map_option_append) blast
next
  case False
  with assms have "dir_entry_iter_next nxt self = dir_entry_iter_next nxt self'"
    by (simp add: dir_entry_iter_next.simps [of nxt self] Let_def)
  with False show ?thesis using collect_skip by (simp add: keep_deep_def map_option_append) blast
qed

text \<open>An entry with a listing: the listing goes onto the stack, or its error into the entry.\<close>

lemma collect_child:
  assumes "de_read_children_path e \<noteq> None" and "nxt s = Some (Some r, s')"
  shows "collect nxt \<lparr>dei_min_depth = m, dei_read_dir_iter = Some s, dei_results_stack = B @ [Inr e # rs]\<rparr> =
    (case r of
       Inl err \<Rightarrow> map_option ((@) (keep_deep m (e\<lparr>de_read_children_error := Some err\<rparr>)))
         (collect nxt \<lparr>dei_min_depth = m, dei_read_dir_iter = Some s', dei_results_stack = B @ [rs]\<rparr>)
     | Inr rd \<Rightarrow> map_option ((@) (keep_deep m e))
         (collect nxt \<lparr>dei_min_depth = m, dei_read_dir_iter = Some s', dei_results_stack = (B @ [rs]) @ [results_list rd]\<rparr>))"
proof -
  let ?st = "\<lambda>s B. \<lparr>dei_min_depth = m, dei_read_dir_iter = Some s, dei_results_stack = B\<rparr>"
  have "descend nxt (?st s (B @ [rs])) e = (case r of
      Inl err \<Rightarrow> Some (Inr (e\<lparr>de_read_children_error := Some err\<rparr>), ?st s' (B @ [rs]))
    | Inr rd \<Rightarrow> Some (Inr e, ?st s' ((B @ [rs]) @ [results_list rd])))"
    using assms(2) by (cases r) (simp_all add: descend_def push_next_read_dir_results_def)
  with assms(1) show ?thesis by (cases r) (simp_all add: collect_dir)
qed

locale entry_source = read_dir_source next_result remaining
  for next_result :: "'s \<Rightarrow> (('d, 'r) read_result option \<times> 's) option"
    and remaining :: "'s \<Rightarrow> ('d, 'r) read_result list \<Rightarrow> bool"
begin

text \<open>
  One level of the walk on top of a stack \<open>B\<close>: it yields the level and everything below, and
  then goes on with \<open>B\<close>. The continuation is the hypothesis on \<open>out\<close>.
\<close>

lemma collect_level:
  assumes "complete_level rs ts"
    and "remaining s (concat (map preorder ts) @ vs)"
    and "\<And>s'. remaining s' vs \<Longrightarrow>
           collect next_result \<lparr>dei_min_depth = m, dei_read_dir_iter = Some s', dei_results_stack = B\<rparr> = Some out"
  shows "collect next_result \<lparr>dei_min_depth = m, dei_read_dir_iter = Some s, dei_results_stack = B @ [rs]\<rparr>
           = Some (emit m rs ts @ out)"
  using assms
proof (induction m rs ts arbitrary: s B vs out rule: emit.induct)
  case (1 m ts)
  then show ?case by (simp add: complete_level_def collect_pop)
next
  case (2 m err rs ts)
  then have "complete_level rs ts" by (simp add: complete_level_def descends_def)
  with 2 show ?case by (simp add: collect_err)
next
  case (3 m e rs ts)
  let ?st = "\<lambda>s B. \<lparr>dei_min_depth = m, dei_read_dir_iter = Some s, dei_results_stack = B\<rparr>"
  show ?case
  proof (cases "de_read_children_path e")
    case None
    then have "complete_level rs ts" using "3.prems"(1) by (simp add: complete_level_def descends_def)
    with 3 None show ?thesis by (simp add: collect_file)
  next
    case (Some p)
    then obtain t us where ts: "ts = t # us" and lvl: "complete_level rs us" and "complete_tree t"
      using "3.prems"(1) by (cases ts) (auto simp: complete_level_def descends_def)
    obtain r kids where t: "t = ONode r kids" by (cases t)
    have "remaining s (r # concat (map preorder kids) @ concat (map preorder us) @ vs)"
      using "3.prems"(2) by (simp add: ts t)
    then obtain s' where nxt: "next_result s = Some (Some r, s')"
      and rem: "remaining s' (concat (map preorder kids) @ concat (map preorder us) @ vs)"
      using next_Cons by blast
    have tail: "collect next_result (?st s'' (B @ [rs])) = Some (emit m rs us @ out)"
      if "remaining s'' (concat (map preorder us) @ vs)" for s''
      using "3.IH" Some ts t lvl that "3.prems"(3) by (cases r) auto
    show ?thesis
    proof (cases r)
      case (Inl err)
      have "kids = []" using \<open>complete_tree t\<close> t Inl by (simp add: result_children_def)
      then have "collect next_result (?st s' (B @ [rs])) = Some (emit m rs us @ out)"
        using tail rem by simp
      then show ?thesis using Some collect_child [of e next_result s r s'] nxt by (simp add: ts t Inl)
    next
      case (Inr rd)
      have "complete_level (results_list rd) kids"
        using \<open>complete_tree t\<close> t Inr by (simp only: complete_tree_level)
      then have "collect next_result (?st s' ((B @ [rs]) @ [results_list rd])) =
          Some (emit m (results_list rd) kids @ emit m rs us @ out)"
        using "3.IH"(4) [of t us rd s' "concat (map preorder us) @ vs" "B @ [rs]" "emit m rs us @ out"]
          Some ts t Inr rem tail by simp
      then show ?thesis using Some collect_child [of e next_result s r s'] nxt by (simp add: ts t Inr)
    qed
  qed
qed

lemma collect_emit:
  assumes "complete_level rs ts" and "remaining s (concat (map preorder ts))"
  shows "collect next_result \<lparr>dei_min_depth = m, dei_read_dir_iter = Some s, dei_results_stack = [rs]\<rparr>
           = Some (emit m rs ts)"
  using collect_level [of rs ts s "[]" m "[]" "[]"] assms by (simp add: collect_end)

end

interpretation rde: entry_source "read_dir_iter_next callback ops" "iter_remaining callback ops"
  for callback ops
  by (rule entry_source.intro) (rule rdi.read_dir_source_axioms)

section \<open>Whole walks\<close>

lemma complete_root:
  assumes "root_specs roots st = [spec]" and "has_tree callback spec t"
  shows "complete_level roots [t]"
  using assms length_child_specs [of st roots] has_tree_complete
  by (simp add: complete_level_def root_specs_def)

lemma serial_run:
  assumes "root_specs roots st = [spec]" and "has_tree callback spec t"
  shows "collect (read_dir_iter_next callback ops)
           (dir_entry_iter_new roots Serial started m st n w) = Some (emit m roots [t])"
proof -
  have "iter_remaining callback ops (Walk [spec], w) (concat (map preorder [t]))"
    using walk_remaining_root [OF assms(2)] by simp
  note rde.collect_emit [OF complete_root [OF assms] this]
  then show ?thesis using assms(1) by (simp add: dir_entry_iter_new_def try_new_def)
qed

lemma serial_run_leaf:
  fixes callback :: "('d, 'r) read_dir_callback" and st :: 'r
  assumes "root_specs roots st = []"
  shows "collect (read_dir_iter_next callback ops)
           (dir_entry_iter_new roots Serial started m st n w) =
         Some (emit m roots ([] :: ('d, 'r) read_result otree list))"
proof -
  have "complete_level roots ([] :: ('d, 'r) read_result otree list)"
    using assms length_child_specs [of st roots] by (simp add: complete_level_def root_specs_def)
  moreover have "iter_remaining callback ops (Walk [], w)
      (concat (map preorder ([] :: ('d, 'r) read_result otree list)))"
    by (simp add: walk_remaining_def)
  ultimately show ?thesis
    using rde.collect_emit assms by (fastforce simp: dir_entry_iter_new_def try_new_def)
qed

lemma try_new_parallel: "p \<noteq> Serial \<Longrightarrow> try_new specs p True n = Some (ParWalk (new_ordered_queue n))"
  by (cases p) (simp_all add: try_new_def)

lemma parallel_run:
  assumes "root_specs roots st = [spec]" and "has_tree callback spec t"
    and ok: "oq_world_ok ops unreceived" "oq_clock_ok ops clock"
      "oq_sent_by ops unreceived clock T" "never_stopped ops"
    and sent: "unreceived w = mset (label (index_path_new [0]) t)"
    and "p \<noteq> Serial" and "started"
  shows "collect (read_dir_iter_next callback ops)
           (dir_entry_iter_new roots p started m st n w) = Some (emit m roots [t])"
proof -
  have "iter_remaining callback ops (ParWalk (new_ordered_queue n), w) (concat (map preorder [t]))"
    using par_remaining_root [OF ok sent] by simp
  note rde.collect_emit [OF complete_root [OF assms(1,2)] this]
  then show ?thesis using assms(1,8,9) by (simp add: dir_entry_iter_new_def try_new_parallel)
qed

section \<open>Several roots\<close>

text \<open>
  A client's \<open>process_read_dir\<close> may add entries next to the root. A serial walk then reads the
  last of them first: the iterator yields the first root and puts the listing of the second one
  below it.
\<close>

theorem second_root_listed_below_first:
  assumes "read_children_spec e1 st = Some s1" and "read_children_spec e2 st = Some s2"
    and "callback s2 = Inr rd"
  shows "\<exists>it. dir_entry_iter_next (read_dir_iter_next callback ops)
           (dir_entry_iter_new [Inr e1, Inr e2] Serial started 0 st n w) = Some (Some (Inr e1), it) \<and>
         dei_results_stack it = [[Inr e2], results_list rd]"
proof -
  have "de_read_children_path e1 \<noteq> None" using assms(1) read_children_spec_None [of e1 st] by auto
  moreover have "root_specs [Inr e1, Inr e2] st = [] @ [s1] @ [s2]"
    using assms(1,2) by (simp add: root_specs_def List.map_filter_def)
  ultimately show ?thesis
    using assms(3) walk_next_snoc [of callback "[s1]" s2]
    by (simp add: dir_entry_iter_new_def try_new_def dir_entry_iter_next.simps Let_def descend_def
        push_next_read_dir_results_def read_dir_iter_next_Walk)
qed

text \<open>Roots \<open>a\<close> and \<open>b\<close>; only \<open>b\<close> has an entry \<open>x\<close>, and it turns up below \<open>a\<close>.\<close>

definition two_roots :: "unit entry_result list" where
  "two_roots = [from_raw () 0 [] None None [97] (UnixFileType S_IFDIR) None,
                from_raw () 0 [] None None [98] (UnixFileType S_IFDIR) None]"

definition two_roots_callback :: "(unit, unit) read_dir_callback" where
  "two_roots_callback spec =
     Inr (read_dir_new () (if spec_path spec = [98]
       then [from_raw () 1 [98] None None [120] (UnixFileType S_IFREG) None] else []))"

theorem second_root_listed_below_first_witness:
  "\<exists>e it. dir_entry_iter_next (read_dir_iter_next two_roots_callback arrived_world)
       (dir_entry_iter_new two_roots Serial True 0 () 256 ([], 0)) = Some (Some (Inr e), it) \<and>
     de_file_name e = [97] \<and>
     last (dei_results_stack it) = [from_raw () 1 [98] None None [120] (UnixFileType S_IFREG) None]"
proof -
  obtain e1 e2 where e: "two_roots = [Inr e1, Inr e2]" and n: "de_file_name e1 = [97]"
    by (auto simp: two_roots_def from_raw_on_def)
  have "map_option spec_path (child_spec () (two_roots ! 0)) = Some [97]"
    "map_option spec_path (child_spec () (two_roots ! 1)) = Some [98]" by code_simp+
  then obtain s1 s2 where "read_children_spec e1 () = Some s1" "read_children_spec e2 () = Some s2"
    and "spec_path s2 = [98]" by (auto simp: e)
  then show ?thesis
    using second_root_listed_below_first [of e1 "()" s1 e2 s2 two_roots_callback _ arrived_world True 256 "([], 0)"] n
    by (fastforce simp: e two_roots_callback_def read_dir_new_def)
qed

end
