(* ===== verification/Priority_Queue.thy ===== *)
theory Priority_Queue
  imports Ordered_Queue
begin

text \<open>
  \<open>core/priority_queue.rs\<close>: the queue of directories to read. Producers count a unit of work
  before they send it; the iterator that feeds the workers drains the channel into a heap and
  ends when nothing is pending. The channel, the counter and the flags are shared, so they live
  in a world behind the operations \<open>pq_world\<close>.
\<close>

section \<open>The shared objects\<close>

record ('w, 'a) pq_world =
  pq_load_stop :: "'w \<Rightarrow> bool \<times> 'w"
  pq_try_recv :: "'w \<Rightarrow> (try_recv_error + 'a weighted) \<times> 'w"
  pq_recv_timeout :: "nat \<Rightarrow> 'w \<Rightarrow> (recv_timeout_error + 'a weighted) \<times> 'w"
  pq_send :: "'a weighted \<Rightarrow> 'w \<Rightarrow> ('a weighted + unit) \<times> 'w"
  load_pending :: "'w \<Rightarrow> u64 \<times> 'w"
  fetch_add_pending :: "u64 \<Rightarrow> 'w \<Rightarrow> 'w"
  fetch_sub_pending :: "u64 \<Rightarrow> 'w \<Rightarrow> 'w"

section \<open>Producers\<close>

definition priority_queue_push :: "('w, 'a) pq_world \<Rightarrow> 'a weighted \<Rightarrow> 'w \<Rightarrow>
    ('a weighted + unit) \<times> 'w" where
  "priority_queue_push ops weighted w =
     (let w = fetch_add_pending ops 1 w in
      case pq_send ops weighted w of
        (Inr u, w) \<Rightarrow> (Inr u, w)
      | (Inl e, w) \<Rightarrow> (Inl e, fetch_sub_pending ops 1 w))"

definition priority_queue_complete_item :: "('w, 'a) pq_world \<Rightarrow> 'w \<Rightarrow> 'w" where
  "priority_queue_complete_item ops w = fetch_sub_pending ops 1 w"

section \<open>The iterator\<close>

record 'a priority_queue_iter =
  pq_receive_buffer :: "'a weighted list"

definition new_priority_queue :: "'a priority_queue_iter" where
  "new_priority_queue = \<lparr>pq_receive_buffer = []\<rparr>"

definition pq_buffer_push :: "'a weighted \<Rightarrow> 'a priority_queue_iter \<Rightarrow> 'a priority_queue_iter" where
  "pq_buffer_push x self = self\<lparr>pq_receive_buffer := heap_push x (pq_receive_buffer self)\<rparr>"

text \<open>The \<open>while let\<close> loop; it resets the back-off counter whenever it receives something.\<close>

partial_function (option) pq_drain :: "('w, 'a) pq_world \<Rightarrow> u32 \<Rightarrow> 'a priority_queue_iter \<Rightarrow> 'w \<Rightarrow>
    (u32 \<times> 'a priority_queue_iter \<times> 'w) option" where
  "pq_drain ops spin_count self w =
     (case pq_try_recv ops w of (received, w) \<Rightarrow>
      case received of
        Inr weighted \<Rightarrow> pq_drain ops 0 (pq_buffer_push weighted self) w
      | Inl e \<Rightarrow> Some (spin_count, self, w))"

definition backoff_timeout :: "u32 \<Rightarrow> nat" where
  "backoff_timeout spin_count =
     (if spin_count \<le> 10 then 10 else if spin_count \<le> 50 then 100 else 1000)"

partial_function (option) pq_try_next_loop :: "('w, 'a) pq_world \<Rightarrow> u32 \<Rightarrow>
    'a priority_queue_iter \<Rightarrow> 'w \<Rightarrow>
    ((try_recv_error + 'a weighted) \<times> 'a priority_queue_iter \<times> 'w) option" where
  "pq_try_next_loop ops spin_count self w =
     (case pq_load_stop ops w of (stopped, w) \<Rightarrow>
      if stopped then Some (Inl Disconnected, self, w)
      else case pq_drain ops spin_count self w of
        None \<Rightarrow> None
      | Some (spin_count, self, w) \<Rightarrow>
          (case heap_pop weighted_cmp (pq_receive_buffer self) of
             Some (weighted, rest) \<Rightarrow> Some (Inr weighted, self\<lparr>pq_receive_buffer := rest\<rparr>, w)
           | None \<Rightarrow>
               case load_pending ops w of (pending, w) \<Rightarrow>
               if pending = 0 then Some (Inl Disconnected, self, w)
               else case pq_recv_timeout ops (backoff_timeout spin_count) w of (received, w) \<Rightarrow>
                 case received of
                   Inr weighted \<Rightarrow> pq_try_next_loop ops (spin_count + 1) (pq_buffer_push weighted self) w
                 | Inl e \<Rightarrow> (case e of
                       Timeout \<Rightarrow> pq_try_next_loop ops (spin_count + 1) self w
                     | RecvDisconnected \<Rightarrow> Some (Inl Disconnected, self, w))))"

definition pq_try_next :: "('w, 'a) pq_world \<Rightarrow> 'a priority_queue_iter \<Rightarrow> 'w \<Rightarrow>
    ((try_recv_error + 'a weighted) \<times> 'a priority_queue_iter \<times> 'w) option" where
  "pq_try_next ops self w = pq_try_next_loop ops 0 self w"

partial_function (option) priority_queue_next :: "('w, 'a) pq_world \<Rightarrow> 'a priority_queue_iter \<Rightarrow>
    'w \<Rightarrow> ('a weighted option \<times> 'a priority_queue_iter \<times> 'w) option" where
  "priority_queue_next ops self w =
     (case pq_try_next ops self w of
        None \<Rightarrow> None
      | Some (r, self, w) \<Rightarrow> (case r of
            Inr weighted \<Rightarrow> Some (Some weighted, self, w)
          | Inl e \<Rightarrow> (case e of
                Empty \<Rightarrow> priority_queue_next ops self w
              | Disconnected \<Rightarrow> Some (None, self, w))))"

section \<open>The contract of the shared objects\<close>

text \<open>
  \<open>unreceived w\<close> is the work sent or still to be sent that the iterator has not taken out of the
  channel. The counter covers all of it (the invariant of the parallel walk), and \<open>idle w\<close>
  bounds how often a wait can still run into its timeout: the producers make progress.
\<close>

definition pq_world_ok :: "('w, 'a) pq_world \<Rightarrow> ('w \<Rightarrow> 'a weighted multiset) \<Rightarrow> ('w \<Rightarrow> nat) \<Rightarrow> bool" where
  "pq_world_ok ops unreceived idle \<longleftrightarrow>
     (\<forall>w b w'. pq_load_stop ops w = (b, w') \<longrightarrow> unreceived w' = unreceived w \<and> idle w' \<le> idle w) \<and>
     (\<forall>w n w'. load_pending ops w = (n, w') \<longrightarrow> unreceived w' = unreceived w \<and> idle w' \<le> idle w \<and>
        (n = 0 \<longrightarrow> unreceived w = {#})) \<and>
     (\<forall>w x w'. pq_try_recv ops w = (Inr x, w') \<longrightarrow>
        unreceived w = add_mset x (unreceived w') \<and> idle w' \<le> idle w) \<and>
     (\<forall>w e w'. pq_try_recv ops w = (Inl e, w') \<longrightarrow> unreceived w' = unreceived w \<and> idle w' \<le> idle w) \<and>
     (\<forall>t w x w'. pq_recv_timeout ops t w = (Inr x, w') \<longrightarrow>
        unreceived w = add_mset x (unreceived w') \<and> idle w' \<le> idle w) \<and>
     (\<forall>t w w'. pq_recv_timeout ops t w = (Inl Timeout, w') \<longrightarrow>
        unreceived w' = unreceived w \<and> idle w' < idle w) \<and>
     (\<forall>t w w'. pq_recv_timeout ops t w = (Inl RecvDisconnected, w') \<longrightarrow>
        unreceived w = {#} \<and> unreceived w' = {#})"

lemma pq_world_okD:
  assumes "pq_world_ok ops unreceived idle"
  shows "pq_load_stop ops w = (b, w') \<Longrightarrow> unreceived w' = unreceived w \<and> idle w' \<le> idle w"
    and "load_pending ops w = (n, w') \<Longrightarrow> unreceived w' = unreceived w \<and> idle w' \<le> idle w \<and>
      (n = 0 \<longrightarrow> unreceived w = {#})"
    and "pq_try_recv ops w = (Inr x, w') \<Longrightarrow> unreceived w = add_mset x (unreceived w') \<and> idle w' \<le> idle w"
    and "pq_try_recv ops w = (Inl e, w') \<Longrightarrow> unreceived w' = unreceived w \<and> idle w' \<le> idle w"
    and "pq_recv_timeout ops t w = (Inr x, w') \<Longrightarrow>
      unreceived w = add_mset x (unreceived w') \<and> idle w' \<le> idle w"
    and "pq_recv_timeout ops t w = (Inl Timeout, w') \<Longrightarrow> unreceived w' = unreceived w \<and> idle w' < idle w"
    and "pq_recv_timeout ops t w = (Inl RecvDisconnected, w') \<Longrightarrow> unreceived w = {#} \<and> unreceived w' = {#}"
  using assms unfolding pq_world_ok_def by - metis+

definition pq_never_stopped :: "('w, 'a) pq_world \<Rightarrow> bool" where
  "pq_never_stopped ops \<longleftrightarrow> (\<forall>w. \<not> fst (pq_load_stop ops w))"

text \<open>All work that the iterator still has to hand out.\<close>

definition pq_work :: "('w \<Rightarrow> 'a weighted multiset) \<Rightarrow> 'a priority_queue_iter \<Rightarrow> 'w \<Rightarrow> 'a weighted multiset" where
  "pq_work unreceived self w = mset (pq_receive_buffer self) + unreceived w"

lemma pq_work_buffer_push:
  "unreceived w = add_mset x (unreceived w') \<Longrightarrow>
   pq_work unreceived (pq_buffer_push x self) w' = pq_work unreceived self w"
  by (simp add: pq_work_def pq_buffer_push_def heap_push_def)

section \<open>The iterator hands out all work\<close>

lemma pq_drain_total:
  assumes "pq_world_ok ops unreceived idle"
  shows "\<exists>k self' w'. pq_drain ops spin self w = Some (k, self', w') \<and>
           pq_work unreceived self' w' = pq_work unreceived self w \<and> idle w' \<le> idle w \<and>
           size (unreceived w') \<le> size (unreceived w)"
proof (induction "size (unreceived w)" arbitrary: spin self w rule: less_induct)
  case less
  obtain r w1 where r: "pq_try_recv ops w = (r, w1)" by fastforce
  note eq = pq_drain.simps [of ops spin self w, unfolded r prod.case]
  show ?case
  proof (cases r)
    case (Inl e)
    with eq pq_world_okD(4) [OF assms, of w e w1] r show ?thesis by (simp add: pq_work_def)
  next
    case (Inr x)
    then have x: "unreceived w = add_mset x (unreceived w1)" "idle w1 \<le> idle w"
      using pq_world_okD(3) [OF assms, of w x w1] r by auto
    then obtain k self' w' where IH: "pq_drain ops 0 (pq_buffer_push x self) w1 = Some (k, self', w')"
      "pq_work unreceived self' w' = pq_work unreceived (pq_buffer_push x self) w1"
      "idle w' \<le> idle w1" "size (unreceived w') \<le> size (unreceived w1)"
      using less [of w1 0 "pq_buffer_push x self"] by auto
    moreover have "pq_work unreceived (pq_buffer_push x self) w1 = pq_work unreceived self w"
      using x(1) by (rule pq_work_buffer_push)
    ultimately have "pq_drain ops spin self w = Some (k, self', w') \<and>
        pq_work unreceived self' w' = pq_work unreceived self w \<and> idle w' \<le> idle w \<and>
        size (unreceived w') \<le> size (unreceived w)"
      using eq Inr x by simp
    then show ?thesis by blast
  qed
qed

text \<open>
  What one call may return: a unit of work that is a maximum of the heap it came from, or
  nothing, when nothing is left (or the walk was stopped).
\<close>

definition pq_outcome :: "('w, 'a) pq_world \<Rightarrow> ('w \<Rightarrow> 'a weighted multiset) \<Rightarrow> 'a weighted multiset \<Rightarrow>
    'a weighted option \<times> 'a priority_queue_iter \<times> 'w \<Rightarrow> bool" where
  "pq_outcome ops unreceived work out =
     (case out of (r, self, w) \<Rightarrow> (case r of
        Some x \<Rightarrow> work = add_mset x (pq_work unreceived self w) \<and>
          (\<forall>y \<in> set (pq_receive_buffer self). weighted_cmp y x \<noteq> Greater)
      | None \<Rightarrow> work = pq_work unreceived self w \<and> (work = {#} \<or> \<not> pq_never_stopped ops)))"

lemma pq_popped_outcome:
  assumes pop: "heap_pop weighted_cmp (pq_receive_buffer self) = Some (x, rest)"
  shows "pq_outcome ops unreceived (pq_work unreceived self w) (Some x, self\<lparr>pq_receive_buffer := rest\<rparr>, w)"
proof -
  have m: "mset (pq_receive_buffer self) = add_mset x (mset rest)" using pop by (rule heap_pop_mset)
  have "\<forall>y \<in> set rest. weighted_cmp y x \<noteq> Greater"
    using weighted_ord.heap_pop_max [OF pop] m by (metis insert_iff set_mset_add_mset_insert set_mset_mset)
  with m show ?thesis by (simp add: pq_outcome_def pq_work_def)
qed

text \<open>A wait receives a unit of work, runs into its timeout, or finds the channel closed.\<close>

lemma pq_wait_cases:
  assumes ok: "pq_world_ok ops unreceived idle" and "pq_recv_timeout ops t w = (r, w')"
  obtains (Got) x where "r = Inr x" "pq_work unreceived (pq_buffer_push x self) w' = pq_work unreceived self w"
      "size (unreceived w') < size (unreceived w)" "idle w' \<le> idle w"
  | (Waited) "r = Inl Timeout" "unreceived w' = unreceived w" "idle w' < idle w"
  | (Gone) "r = Inl RecvDisconnected" "unreceived w = {#}" "unreceived w' = {#}"
proof (cases r rule: recv_cases)
  case (got x)
  with pq_world_okD(5) [OF ok, of t w x w'] assms(2) show thesis
    by (intro Got [of x]) (simp_all add: pq_work_buffer_push)
next
  case timeout
  with pq_world_okD(6) [OF ok, of t w w'] assms(2) show thesis by (intro Waited) simp_all
next
  case gone
  with pq_world_okD(7) [OF ok, of t w w'] assms(2) show thesis by (intro Gone) simp_all
qed

text \<open>One pass of the loop: it returns, or it goes round with the same work and a smaller bound.\<close>

lemma pq_pass:
  assumes ok: "pq_world_ok ops unreceived idle"
  obtains (Done) r self' w' where "pq_try_next_loop ops spin self w = Some (r, self', w')" "r \<noteq> Inl Empty"
      "pq_outcome ops unreceived (pq_work unreceived self w) (result_ok r, self', w')"
  | (Again) spin' self' w' where "pq_try_next_loop ops spin self w = pq_try_next_loop ops spin' self' w'"
      "pq_work unreceived self' w' = pq_work unreceived self w"
      "idle w' < idle w \<or> idle w' = idle w \<and> size (unreceived w') < size (unreceived w)"
proof -
  obtain stopped w1 where s: "pq_load_stop ops w = (stopped, w1)" by fastforce
  note w1 = pq_world_okD(1) [OF ok s]
  obtain k self2 w2 where d: "pq_drain ops spin self w1 = Some (k, self2, w2)"
    "pq_work unreceived self2 w2 = pq_work unreceived self w1" "idle w2 \<le> idle w1"
    "size (unreceived w2) \<le> size (unreceived w1)"
    using pq_drain_total [OF ok, of spin self w1] by blast
  obtain n w3 where n: "load_pending ops w2 = (n, w3)" by fastforce
  note w3 = pq_world_okD(2) [OF ok n]
  obtain r w4 where r: "pq_recv_timeout ops (backoff_timeout k) w3 = (r, w4)" by fastforce
  note eq = pq_try_next_loop.simps [of ops spin self w, unfolded s d(1) prod.case option.case]
  have work: "pq_work unreceived self2 w2 = pq_work unreceived self w" using d(2) w1 by (simp add: pq_work_def)
  consider (stop) stopped
    | (pop) x rest where "\<not> stopped" "heap_pop weighted_cmp (pq_receive_buffer self2) = Some (x, rest)"
    | (zero) "\<not> stopped" "heap_pop weighted_cmp (pq_receive_buffer self2) = None" "n = 0"
    | (wait) "\<not> stopped" "heap_pop weighted_cmp (pq_receive_buffer self2) = None" "n \<noteq> 0"
    by (cases "heap_pop weighted_cmp (pq_receive_buffer self2)") fastforce+
  then show thesis
  proof cases
    case stop
    then have "\<not> pq_never_stopped ops" using s by (metis fst_conv pq_never_stopped_def)
    with stop w1 eq show ?thesis by (intro Done [of "Inl Disconnected" self w1]) (simp_all add: pq_outcome_def pq_work_def)
  next
    case (pop x rest)
    with eq pq_popped_outcome [OF pop(2), of ops unreceived w2] work show ?thesis
      by (intro Done [of "Inr x" "self2\<lparr>pq_receive_buffer := rest\<rparr>" w2]) simp_all
  next
    case zero
    with eq n w3 work show ?thesis
      by (intro Done [of "Inl Disconnected" self2 w3]) (simp_all add: pq_outcome_def pq_work_def heap_pop_None_iff)
  next
    case wait
    note eq = eq [unfolded n r prod.case]
    from ok r show ?thesis
    proof (cases rule: pq_wait_cases [where self = self2])
      case (Got x)
      then show ?thesis using eq wait d(3,4) w1 w3 work
        by (intro Again [of "k + 1" "pq_buffer_push x self2" w4]) (auto simp: pq_work_def)
    next
      case Waited
      then show ?thesis using eq wait d(3) w1 w3 work
        by (intro Again [of "k + 1" self2 w4]) (auto simp: pq_work_def)
    next
      case Gone
      then show ?thesis
        using eq wait w3 work by (intro Done [of "Inl Disconnected" self2 w4]) (simp_all add: pq_outcome_def pq_work_def heap_pop_None_iff)
    qed
  qed
qed

lemma pq_try_next_loop_total:
  assumes ok: "pq_world_ok ops unreceived idle"
  shows "\<exists>r self' w'. pq_try_next_loop ops spin self w = Some (r, self', w') \<and>
           r \<noteq> Inl Empty \<and>
           pq_outcome ops unreceived (pq_work unreceived self w) (result_ok r, self', w')"
proof (induction "(idle w, size (unreceived w))" arbitrary: spin self w
    rule: wf_induct_rule [OF wf_lex_prod [OF wf_less_than wf_less_than]])
  case (1 w spin self)
  note IH = "1" [simplified]
  from ok show ?case
  proof (cases rule: pq_pass [where spin = spin and self = self and w = w])
    case (Again spin' self' w')
    then show ?thesis using IH [of w' spin' self'] by simp
  qed blast
qed

lemma priority_queue_next_total:
  assumes "pq_world_ok ops unreceived idle"
  shows "\<exists>out. priority_queue_next ops self w = Some out \<and>
           pq_outcome ops unreceived (pq_work unreceived self w) out"
proof -
  obtain r self' w' where r: "pq_try_next ops self w = Some (r, self', w')" "r \<noteq> Inl Empty"
    "pq_outcome ops unreceived (pq_work unreceived self w) (result_ok r, self', w')"
    using pq_try_next_loop_total [OF assms] unfolding pq_try_next_def by blast
  have "priority_queue_next ops self w = Some (result_ok r, self', w')"
    using r(1,2) by (cases r) (auto simp: priority_queue_next.simps [of ops self w] split: try_recv_error.splits)
  with r(3) show ?thesis by blast
qed

section \<open>Properties\<close>

text \<open>
  C25. The scheduling iterator returns and loses nothing: while the producers make progress and
  the counter covers all outstanding work, \<open>next\<close> ends; what it hands out is a maximum of the
  heap and was outstanding, everything else stays outstanding, and it ends the iteration only
  when nothing is outstanding (or the walk was stopped).
\<close>

theorem scheduler_hands_out_all_work:
  assumes "pq_world_ok ops unreceived idle"
  shows "\<exists>out. priority_queue_next ops self w = Some out \<and>
           pq_outcome ops unreceived (pq_work unreceived self w) out"
  using assms by (rule priority_queue_next_total)

text \<open>A channel whose producers have finished; the counter is the number of messages left.\<close>

definition finished_producers :: "('a weighted list, 'a) pq_world" where
  "finished_producers =
     \<lparr>pq_load_stop = (\<lambda>w. (False, w)),
      pq_try_recv = (\<lambda>w. case w of [] \<Rightarrow> (Inl Empty, []) | m # ms \<Rightarrow> (Inr m, ms)),
      pq_recv_timeout = (\<lambda>d w. case w of [] \<Rightarrow> (Inl RecvDisconnected, []) | m # ms \<Rightarrow> (Inr m, ms)),
      pq_send = (\<lambda>x w. (Inr (), w @ [x])), load_pending = (\<lambda>w. (if w = [] then 0 else 1, w)),
      fetch_add_pending = (\<lambda>n w. w), fetch_sub_pending = (\<lambda>n w. w)\<rparr>"

theorem scheduler_hands_out_all_work_witness:
  "\<exists>out. priority_queue_next finished_producers new_priority_queue
       [weighted_new CHR ''a'' (index_path_new [0]) 7, weighted_new CHR ''b'' (index_path_new [1]) 3] = Some out \<and>
     pq_outcome finished_producers mset
       {#weighted_new CHR ''a'' (index_path_new [0]) 7, weighted_new CHR ''b'' (index_path_new [1]) 3#} out"
proof -
  have "pq_world_ok finished_producers mset (\<lambda>w. 0)"
    by (auto simp: pq_world_ok_def finished_producers_def split: list.splits if_splits)
  from scheduler_hands_out_all_work [OF this, of new_priority_queue
      "[weighted_new CHR ''a'' (index_path_new [0]) 7, weighted_new CHR ''b'' (index_path_new [1]) 3]"]
  show ?thesis by (simp add: pq_work_def new_priority_queue_def)
qed

text \<open>
  The order of scheduling: what comes out of the heap has the lowest weight in it, and among
  equal weights the position that is first in depth first order. The comments of the source
  announce the opposite for the weights.
\<close>

theorem scheduler_takes_lowest_weight:
  assumes "heap_pop weighted_cmp h = Some (x, rest)"
  shows "\<forall>y \<in> set h. w_weight x < w_weight y \<or>
           w_weight x = w_weight y \<and> w_index_path y \<le> w_index_path x"
proof
  fix y assume "y \<in> set h"
  with weighted_ord.heap_pop_max [OF assms] have "weighted_cmp y x \<noteq> Greater" by blast
  then show "w_weight x < w_weight y \<or> w_weight x = w_weight y \<and> w_index_path y \<le> w_index_path x"
    by (auto simp: ord_simps)
qed

theorem scheduler_takes_lowest_weight_witness:
  "heap_pop weighted_cmp [weighted_new () (index_path_new [0]) 7, weighted_new () (index_path_new [1]) 3] =
     Some (weighted_new () (index_path_new [1]) 3, [weighted_new () (index_path_new [0]) 7]) \<and>
   w_weight (weighted_new () (index_path_new [1]) 3) < w_weight (weighted_new () (index_path_new [0]) 7)"
proof -
  have pop: "heap_pop weighted_cmp [weighted_new () (index_path_new [0]) 7, weighted_new () (index_path_new [1]) 3] =
     Some (weighted_new () (index_path_new [1]) 3, [weighted_new () (index_path_new [0]) 7])" by code_simp
  with scheduler_takes_lowest_weight [OF pop] show ?thesis by simp
qed

end
