(* ===== verification/Par_Walk.thy ===== *)
theory Par_Walk
  imports Read_Dir_Iter Priority_Queue
begin

text \<open>
  The worker side of a parallel walk: \<open>multi_threaded_walk_dir\<close> and the start of \<open>ParWalk\<close> of
  \<open>core/read_dir_iter.rs\<close>, \<open>StreamingContext\<close>, \<open>core/run_context.rs\<close> and the scheduling queue, run
  by any number of threads that share the counter of pending work, the bounded channel and the
  queue iterator (a mutex, as in rayon's \<open>par_bridge\<close>). The interleavings are the step relation
  \<open>par_step\<close>; every access to a shared object is a step of its own.
\<close>

section \<open>Handling one directory\<close>

text \<open>
  The callback of a parallel walk: while it enumerates the directory it offers the listed
  subdirectories to \<open>StreamingContext::schedule\<close>, and it returns its result given how many of
  them were scheduled.
\<close>

type_synonym ('d, 'r) par_callback =
  "'r read_dir_spec \<Rightarrow> 'r read_dir_spec list \<times> (usize \<Rightarrow> ('d, 'r) read_result)"

definition result_streamed_count :: "('d, 'r) read_result \<Rightarrow> usize" where
  "result_streamed_count r = (case r of Inr rd \<Rightarrow> streamed_child_count rd | Inl e \<Rightarrow> 0)"

text \<open>The children that \<open>multi_threaded_walk_dir\<close> schedules itself, after the result is sent.\<close>

definition regular_children ::
    "('d, 'r) read_result \<Rightarrow> 'r read_dir_spec weighted \<Rightarrow> 'r read_dir_spec weighted list" where
  "regular_children r x =
     (case r of
        Inr rd \<Rightarrow> if streamed_child_count rd = 0
                  then weighted_children_specs rd (w_index_path x) (w_weight x) else []
      | Inl e \<Rightarrow> [])"

definition ordered_read_dir_result ::
    "('d, 'r) read_result \<Rightarrow> 'r read_dir_spec weighted \<Rightarrow> ('d, 'r) read_result ordered" where
  "ordered_read_dir_result r x =
     ordered_new r (w_index_path x) (result_streamed_count r + length (regular_children r x))"

text \<open>The weight and position of a streamed child: the \<open>n\<close>-th scheduled one.\<close>

definition streamed_child :: "'r read_dir_spec weighted \<Rightarrow> usize \<Rightarrow> 'r read_dir_spec \<Rightarrow>
    'r read_dir_spec weighted" where
  "streamed_child x n s =
     weighted_new s (adding (w_index_path x) n) (usize_saturating_add (w_weight x) 1)"

definition ROOT_WEIGHT :: usize where
  "ROOT_WEIGHT = usize_MAX div 2"

definition root_item :: "'r read_dir_spec \<Rightarrow> 'r read_dir_spec weighted" where
  "root_item spec = weighted_new spec (index_path_new [0]) ROOT_WEIGHT"

section \<open>The threads\<close>

text \<open>
  Where a thread is. \<open>IterStop\<close> to \<open>IterWait\<close> are the points of \<open>PriorityQueueIter::try_next\<close>; a
  thread there holds the mutex of the iterator. The flag of \<open>Streaming\<close> and \<open>Scheduling\<close> says that
  the counter was incremented for the next child and the send is still to come.
\<close>

datatype ('d, 'r) pc =
    Idle
  | IterStop
  | IterDrain
  | IterPending
  | IterWait
  | Got "'r read_dir_spec weighted"
  | Streaming "'r read_dir_spec weighted" "'r read_dir_spec list" usize bool "usize \<Rightarrow> ('d, 'r) read_result"
  | SendResult "'r read_dir_spec weighted" "('d, 'r) read_result"
  | Scheduling "'r read_dir_spec weighted" "'r read_dir_spec weighted list" bool
  | Completing "'r read_dir_spec weighted"
  | Exited

fun holds_iterator :: "('d, 'r) pc \<Rightarrow> bool" where
  "holds_iterator IterStop = True"
| "holds_iterator IterDrain = True"
| "holds_iterator IterPending = True"
| "holds_iterator IterWait = True"
| "holds_iterator _ = False"

record ('d, 'r) par_state =
  ps_pending :: u64
  ps_chan :: "'r read_dir_spec weighted list"
  ps_heap :: "'r read_dir_spec weighted list"
  ps_sent :: "('d, 'r) read_result ordered list"
  ps_stop :: bool
  ps_done :: bool
  ps_pcs :: "('d, 'r) pc list"

text \<open>The state in which \<open>try_new\<close> leaves the shared objects: the root is counted and sent.\<close>

definition par_init :: "nat \<Rightarrow> 'r read_dir_spec \<Rightarrow> ('d, 'r) par_state" where
  "par_init n spec =
     \<lparr>ps_pending = 1, ps_chan = [root_item spec], ps_heap = [], ps_sent = [], ps_stop = False,
      ps_done = False, ps_pcs = replicate n Idle\<rparr>"

definition at_pc :: "('d, 'r) par_state \<Rightarrow> nat \<Rightarrow> ('d, 'r) pc \<Rightarrow> bool" where
  "at_pc s i p \<longleftrightarrow> i < length (ps_pcs s) \<and> ps_pcs s ! i = p"

definition goto :: "nat \<Rightarrow> ('d, 'r) pc \<Rightarrow> ('d, 'r) par_state \<Rightarrow> ('d, 'r) par_state" where
  "goto i p s = s\<lparr>ps_pcs := (ps_pcs s)[i := p]\<rparr>"

inductive par_step :: "('d, 'r) par_callback \<Rightarrow> usize \<Rightarrow> ('d, 'r) par_state \<Rightarrow> ('d, 'r) par_state \<Rightarrow> bool"
  for callback channel_capacity where
  lock: "at_pc s i Idle \<Longrightarrow> \<not> ps_done s \<Longrightarrow> \<not> list_ex holds_iterator (ps_pcs s) \<Longrightarrow>
    par_step callback channel_capacity s (goto i IterStop s)"
| exhausted: "at_pc s i Idle \<Longrightarrow> ps_done s \<Longrightarrow>
    par_step callback channel_capacity s (goto i Exited s)"
| stop_set: "at_pc s i IterStop \<Longrightarrow> ps_stop s \<Longrightarrow>
    par_step callback channel_capacity s (goto i Exited (s\<lparr>ps_done := True\<rparr>))"
| stop_clear: "at_pc s i IterStop \<Longrightarrow> \<not> ps_stop s \<Longrightarrow>
    par_step callback channel_capacity s (goto i IterDrain s)"
| drain: "at_pc s i IterDrain \<Longrightarrow> ps_chan s = x # xs \<Longrightarrow>
    par_step callback channel_capacity s (s\<lparr>ps_chan := xs, ps_heap := heap_push x (ps_heap s)\<rparr>)"
| pop: "at_pc s i IterDrain \<Longrightarrow> ps_chan s = [] \<Longrightarrow> heap_pop weighted_cmp (ps_heap s) = Some (x, rest) \<Longrightarrow>
    par_step callback channel_capacity s (goto i (Got x) (s\<lparr>ps_heap := rest\<rparr>))"
| empty: "at_pc s i IterDrain \<Longrightarrow> ps_chan s = [] \<Longrightarrow> heap_pop weighted_cmp (ps_heap s) = None \<Longrightarrow>
    par_step callback channel_capacity s (goto i IterPending s)"
| pending_zero: "at_pc s i IterPending \<Longrightarrow> ps_pending s = 0 \<Longrightarrow>
    par_step callback channel_capacity s (goto i Exited (s\<lparr>ps_done := True\<rparr>))"
| pending_more: "at_pc s i IterPending \<Longrightarrow> ps_pending s \<noteq> 0 \<Longrightarrow>
    par_step callback channel_capacity s (goto i IterWait s)"
| wait_recv: "at_pc s i IterWait \<Longrightarrow> ps_chan s = x # xs \<Longrightarrow>
    par_step callback channel_capacity s
      (goto i IterStop (s\<lparr>ps_chan := xs, ps_heap := heap_push x (ps_heap s)\<rparr>))"
| wait_timeout: "at_pc s i IterWait \<Longrightarrow>
    par_step callback channel_capacity s (goto i IterStop s)"
| skip: "at_pc s i (Got x) \<Longrightarrow> ps_stop s \<Longrightarrow>
    par_step callback channel_capacity s (goto i (Completing x) s)"
| read: "at_pc s i (Got x) \<Longrightarrow> \<not> ps_stop s \<Longrightarrow> callback (w_value x) = (ss, f) \<Longrightarrow>
    par_step callback channel_capacity s (goto i (Streaming x ss 0 False f) s)"
| stream_skip: "at_pc s i (Streaming x (c # ss) n False f) \<Longrightarrow> ps_stop s \<Longrightarrow>
    par_step callback channel_capacity s (goto i (Streaming x ss n False f) s)"
| stream_count: "at_pc s i (Streaming x (c # ss) n False f) \<Longrightarrow> \<not> ps_stop s \<Longrightarrow>
    par_step callback channel_capacity s
      (goto i (Streaming x (c # ss) n True f) (s\<lparr>ps_pending := ps_pending s + 1\<rparr>))"
| stream_send: "at_pc s i (Streaming x (c # ss) n True f) \<Longrightarrow> length (ps_chan s) < channel_capacity \<Longrightarrow>
    par_step callback channel_capacity s
      (goto i (Streaming x ss (n + 1) False f) (s\<lparr>ps_chan := ps_chan s @ [streamed_child x n c]\<rparr>))"
| stream_end: "at_pc s i (Streaming x [] n False f) \<Longrightarrow>
    par_step callback channel_capacity s (goto i (SendResult x (f n)) s)"
| send_ok: "at_pc s i (SendResult x r) \<Longrightarrow>
    par_step callback channel_capacity s
      (goto i (Scheduling x (regular_children r x) False)
        (s\<lparr>ps_sent := ps_sent s @ [ordered_read_dir_result r x]\<rparr>))"
| send_fails: "at_pc s i (SendResult x r) \<Longrightarrow> ps_stop s \<Longrightarrow>
    par_step callback channel_capacity s (goto i (Completing x) s)"
| sched_count: "at_pc s i (Scheduling x (c # cs) False) \<Longrightarrow>
    par_step callback channel_capacity s
      (goto i (Scheduling x (c # cs) True) (s\<lparr>ps_pending := ps_pending s + 1\<rparr>))"
| sched_send: "at_pc s i (Scheduling x (c # cs) True) \<Longrightarrow> length (ps_chan s) < channel_capacity \<Longrightarrow>
    par_step callback channel_capacity s
      (goto i (Scheduling x cs False) (s\<lparr>ps_chan := ps_chan s @ [c]\<rparr>))"
| sched_end: "at_pc s i (Scheduling x [] False) \<Longrightarrow>
    par_step callback channel_capacity s (goto i (Completing x) s)"
| complete: "at_pc s i (Completing x) \<Longrightarrow>
    par_step callback channel_capacity s (goto i Idle (s\<lparr>ps_pending := ps_pending s - 1\<rparr>))"
| client_stop: "par_step callback channel_capacity s (s\<lparr>ps_stop := True\<rparr>)"

inductive par_reachable :: "('d, 'r) par_callback \<Rightarrow> usize \<Rightarrow> ('d, 'r) par_state \<Rightarrow> ('d, 'r) par_state \<Rightarrow> bool"
  for callback channel_capacity s0 where
  init: "par_reachable callback channel_capacity s0 s0"
| step: "par_reachable callback channel_capacity s0 s \<Longrightarrow>
    par_step callback channel_capacity s s' \<Longrightarrow> par_reachable callback channel_capacity s0 s'"

section \<open>The counter of pending work\<close>

text \<open>How many units of the counter a thread accounts for.\<close>

fun pc_units :: "('d, 'r) pc \<Rightarrow> nat" where
  "pc_units (Got x) = 1"
| "pc_units (Streaming x ss n counted f) = (if counted then 2 else 1)"
| "pc_units (SendResult x r) = 1"
| "pc_units (Scheduling x cs counted) = (if counted then 2 else 1)"
| "pc_units (Completing x) = 1"
| "pc_units _ = 0"

definition outstanding :: "('d, 'r) par_state \<Rightarrow> nat" where
  "outstanding s = length (ps_chan s) + length (ps_heap s) + sum_list (map pc_units (ps_pcs s))"

definition counter_exact :: "('d, 'r) par_state \<Rightarrow> bool" where
  "counter_exact s \<longleftrightarrow> ps_pending s = of_nat (outstanding s)"

text \<open>Replacing the program counter of one thread, for any quantity summed over the threads.\<close>

definition sum_others :: "('a \<Rightarrow> 'b :: comm_monoid_add) \<Rightarrow> nat \<Rightarrow> 'a list \<Rightarrow> 'b" where
  "sum_others f i xs = sum_list (map f (take i xs)) + sum_list (map f (drop (Suc i) xs))"

lemma sum_list_split: "i < length xs \<Longrightarrow> sum_list (map f xs) = f (xs ! i) + sum_others f i xs"
  unfolding sum_others_def by (subst (1) id_take_nth_drop) (simp_all add: ac_simps)

lemma sum_list_update: "i < length xs \<Longrightarrow> sum_list (map f (xs[i := y])) = f y + sum_others f i xs"
  by (subst upd_conv_take_nth_drop) (simp_all add: sum_others_def ac_simps)

lemma goto_sel [simp]:
  "ps_pending (goto i p s) = ps_pending s" "ps_chan (goto i p s) = ps_chan s"
  "ps_heap (goto i p s) = ps_heap s" "ps_sent (goto i p s) = ps_sent s"
  "ps_stop (goto i p s) = ps_stop s" "ps_done (goto i p s) = ps_done s"
  "ps_pcs (goto i p s) = (ps_pcs s)[i := p]"
  by (simp_all add: goto_def)

text \<open>What moving one thread does to a quantity summed over the threads.\<close>

lemma sum_pcs_move:
  fixes f :: "('d, 'r) pc \<Rightarrow> nat"
  assumes "at_pc s i p" and "ps_pcs s' = ps_pcs s"
  shows "sum_list (map f (ps_pcs (goto i q s'))) + f p = sum_list (map f (ps_pcs s)) + f q"
proof -
  from assms(1) have i: "i < length (ps_pcs s)" "ps_pcs s ! i = p" by (auto simp: at_pc_def)
  then show ?thesis
    using assms(2) sum_list_split [OF i(1), of f] sum_list_update [OF i(1), of f q] by simp
qed

text \<open>Moving one thread: \<open>a\<close> units go and \<open>b\<close> units come.\<close>

lemma outstanding_move:
  assumes "at_pc s i p" and "ps_pcs s' = ps_pcs s"
    and "length (ps_chan s') + length (ps_heap s') + pc_units q + a =
         length (ps_chan s) + length (ps_heap s) + pc_units p + b"
  shows "outstanding (goto i q s') + a = outstanding s + b"
  using sum_pcs_move [OF assms(1,2), of pc_units q] assms(3) by (simp add: outstanding_def)

lemma counter_exact_move:
  assumes "at_pc s i p" and "counter_exact s" and "ps_pcs s' = ps_pcs s"
    and "length (ps_chan s') + length (ps_heap s') + pc_units q + a =
         length (ps_chan s) + length (ps_heap s) + pc_units p + b"
    and "ps_pending s' + of_nat a = ps_pending s + of_nat b"
  shows "counter_exact (goto i q s')"
proof -
  have "outstanding (goto i q s') + a = outstanding s + b" using assms(1,3,4) by (rule outstanding_move)
  then have "of_nat (outstanding (goto i q s')) + of_nat a = (of_nat (outstanding s) + of_nat b :: u64)"
    by (metis of_nat_add)
  with assms(2,5) have "ps_pending s' + of_nat a = of_nat (outstanding (goto i q s')) + of_nat a"
    by (simp add: counter_exact_def)
  then show ?thesis by (simp add: counter_exact_def)
qed

text \<open>Every step keeps the counter exact: what is counted is queued or held by a thread.\<close>

lemma par_step_counter_exact:
  "par_step callback cap s s' \<Longrightarrow> counter_exact s \<Longrightarrow> counter_exact s'"
proof (induction rule: par_step.induct)
  case (drain s i x xs)
  then show ?case by (simp add: counter_exact_def outstanding_def heap_push_def)
next
  case (pop s i x rest)
  note len = heap_pop_length [OF pop.hyps(3)]
  show ?case
    by (rule counter_exact_move [OF pop.hyps(1) pop.prems, where a = 0 and b = 0]) (simp_all add: len)
next
  case (wait_recv s i x xs)
  show ?case
    by (rule counter_exact_move [OF wait_recv.hyps(1) wait_recv.prems, where a = 0 and b = 0])
      (simp_all add: heap_push_def wait_recv.hyps)
next
  case (stream_count s i x c ss n f)
  show ?case
    by (rule counter_exact_move [OF stream_count.hyps(1) stream_count.prems, where a = 0 and b = 1]) simp_all
next
  case (sched_count s i x c cs)
  show ?case
    by (rule counter_exact_move [OF sched_count.hyps(1) sched_count.prems, where a = 0 and b = 1]) simp_all
next
  case (complete s i x)
  show ?case
    by (rule counter_exact_move [OF complete.hyps(1) complete.prems, where a = 1 and b = 0]) simp_all
next
  case (client_stop s)
  then show ?case by (simp add: counter_exact_def outstanding_def)
qed (erule (1) counter_exact_move [where a = 0 and b = 0]; simp; fail)+

lemma par_init_counter_exact: "counter_exact (par_init n spec)"
  by (simp add: counter_exact_def outstanding_def par_init_def sum_list_replicate)

lemma reachable_counter_exact:
  "par_reachable callback cap (par_init n spec) s \<Longrightarrow> counter_exact s"
  by (induction rule: par_reachable.induct) (auto intro: par_init_counter_exact par_step_counter_exact)

section \<open>The results still to come\<close>

text \<open>The result of a callback whose offered subdirectories were all scheduled.\<close>

definition full_result :: "('d, 'r) par_callback \<Rightarrow> ('d, 'r) read_dir_callback" where
  "full_result callback spec = (case callback spec of (ss, f) \<Rightarrow> f (length ss))"

text \<open>
  The contract of streaming: the result reports what was streamed, and a directory that streams
  at all streams exactly the subdirectories of its result, in their order.
\<close>

definition streams_ok :: "('d, 'r) par_callback \<Rightarrow> bool" where
  "streams_ok callback \<longleftrightarrow>
     (\<forall>spec. let ss = fst (callback spec); r = full_result callback spec in
        result_streamed_count r = length ss \<and> (ss \<noteq> [] \<longrightarrow> ss = result_children r))"

definition streamed_items :: "'r read_dir_spec weighted \<Rightarrow> usize \<Rightarrow> 'r read_dir_spec list \<Rightarrow>
    'r read_dir_spec weighted list" where
  "streamed_items x n ss = map (\<lambda>(k, s). streamed_child x k s) (enumerate n ss)"

text \<open>The work a thread holds, and the result it has yet to send.\<close>

fun pc_items :: "('d, 'r) pc \<Rightarrow> 'r read_dir_spec weighted list" where
  "pc_items (Got x) = [x]"
| "pc_items (Streaming x ss n counted f) =
     streamed_items x n ss @ regular_children (f (n + length ss)) x"
| "pc_items (SendResult x r) = regular_children r x"
| "pc_items (Scheduling x cs counted) = cs"
| "pc_items _ = []"

fun pc_own :: "('d, 'r) pc \<Rightarrow> ('d, 'r) read_result ordered multiset" where
  "pc_own (Streaming x ss n counted f) = {#ordered_read_dir_result (f (n + length ss)) x#}"
| "pc_own (SendResult x r) = {#ordered_read_dir_result r x#}"
| "pc_own _ = {#}"

definition items :: "('d, 'r) par_state \<Rightarrow> 'r read_dir_spec weighted multiset" where
  "items s = mset (ps_chan s) + mset (ps_heap s) + sum_list (map (mset \<circ> pc_items) (ps_pcs s))"

definition own_results :: "('d, 'r) par_state \<Rightarrow> ('d, 'r) read_result ordered multiset" where
  "own_results s = mset (ps_sent s) + sum_list (map pc_own (ps_pcs s))"

definition item_tree :: "nat \<Rightarrow> ('d, 'r) read_dir_callback \<Rightarrow> 'r read_dir_spec weighted \<Rightarrow>
    ('d, 'r) read_result otree" where
  "item_tree n cb x = the (read_tree n cb (w_value x))"

definition item_results :: "nat \<Rightarrow> ('d, 'r) read_dir_callback \<Rightarrow> 'r read_dir_spec weighted \<Rightarrow>
    ('d, 'r) read_result ordered multiset" where
  "item_results n cb x = mset (label (w_index_path x) (item_tree n cb x))"

definition results_conserved :: "nat \<Rightarrow> ('d, 'r) read_dir_callback \<Rightarrow> ('d, 'r) read_result otree \<Rightarrow>
    ('d, 'r) par_state \<Rightarrow> bool" where
  "results_conserved n cb t s \<longleftrightarrow>
     (\<forall>x \<in># items s. read_tree n cb (w_value x) \<noteq> None) \<and>
     own_results s + (\<Sum>x \<in># items s. item_results n cb x) = mset (label (index_path_new [0]) t)"

text \<open>A directory's results are its own and those of its children at their positions.\<close>

lemma label_forest_enumerate:
  "label_forest p k ts = concat (map (\<lambda>(i, t). label (adding p i) t) (enumerate k ts))"
  by (induction ts arbitrary: k) auto

lemma read_tree_children:
  assumes "read_tree n cb spec = Some t"
  shows "t = ONode (cb spec) (map (the \<circ> read_tree n cb) (result_children (cb spec)))"
    and "\<forall>c \<in> set (result_children (cb spec)). read_tree n cb c \<noteq> None"
proof -
  from assms obtain n' where n: "n = Suc n'" by (cases n) auto
  with assms obtain ts where t: "t = ONode (cb spec) ts"
    and ts: "map (read_tree n' cb) (result_children (cb spec)) = map Some ts"
    by (auto simp: those_Some_iff)
  let ?ch = "result_children (cb spec)"
  have len: "length ?ch = length ts" using map_eq_imp_length_eq [OF ts] by simp
  have nth: "read_tree n cb (?ch ! i) = Some (ts ! i)" if "i < length ?ch" for i
  proof -
    have "read_tree n' cb (?ch ! i) = Some (ts ! i)"
      using arg_cong [OF ts, of "\<lambda>xs. xs ! i"] that len by simp
    then show ?thesis by (rule read_tree_mono) (simp add: n)
  qed
  have "map (the \<circ> read_tree n cb) ?ch = ts"
    by (rule nth_equalityI) (simp_all add: len nth)
  then show "t = ONode (cb spec) (map (the \<circ> read_tree n cb) ?ch)" using t by simp
  show "\<forall>c \<in> set ?ch. read_tree n cb c \<noteq> None"
    using nth by (auto simp: in_set_conv_nth)
qed

text \<open>
  What a thread has to do for a directory after reading it, streamed or not: one unit of work
  per subdirectory, at consecutive positions.
\<close>

definition item_key :: "'r read_dir_spec weighted \<Rightarrow> index_path \<times> 'r read_dir_spec" where
  "item_key x = (w_index_path x, w_value x)"

lemma item_key_streamed:
  "map item_key (streamed_items x n ss) = map (\<lambda>(i, s). (adding (w_index_path x) i, s)) (enumerate n ss)"
  by (auto simp: streamed_items_def item_key_def streamed_child_def)

lemma item_key_regular:
  "result_streamed_count r = 0 \<Longrightarrow>
   map item_key (regular_children r x) =
     map (\<lambda>(i, s). (adding (w_index_path x) i, s)) (enumerate 0 (result_children r))"
  by (auto simp: regular_children_def result_streamed_count_def result_children_def item_key_def
      weighted_children_specs_eq split: sum.splits)

lemma regular_children_streamed: "result_streamed_count r \<noteq> 0 \<Longrightarrow> regular_children r x = []"
  by (auto simp: regular_children_def result_streamed_count_def split: sum.splits)

lemma length_regular_children:
  "result_streamed_count r = 0 \<Longrightarrow> length (regular_children r x) = length (result_children r)"
  using arg_cong [OF item_key_regular, of r length x] by simp

lemma streamed_all_or_none:
  assumes "streams_ok callback" and read: "callback (w_value x) = (ss, f)"
  shows "full_result callback (w_value x) = f (length ss)"
    and "result_streamed_count (f (length ss)) = length ss"
    and "ss \<noteq> [] \<Longrightarrow> result_children (f (length ss)) = ss"
proof -
  show r: "full_result callback (w_value x) = f (length ss)" by (simp add: full_result_def read)
  have "let ss = fst (callback (w_value x)); r = full_result callback (w_value x) in
        result_streamed_count r = length ss \<and> (ss \<noteq> [] \<longrightarrow> ss = result_children r)"
    using assms(1) unfolding streams_ok_def by blast
  then show "result_streamed_count (f (length ss)) = length ss"
    "ss \<noteq> [] \<Longrightarrow> result_children (f (length ss)) = ss"
    unfolding r read Let_def by simp_all
qed

lemma read_items:
  assumes "streams_ok callback" and "callback (w_value x) = (ss, f)"
  shows "map item_key (pc_items (Streaming x ss 0 False f)) =
      map (\<lambda>(i, s). (adding (w_index_path x) i, s)) (enumerate 0 (result_children (f (length ss))))"
    and "ordered_read_dir_result (f (length ss)) x =
      ordered_new (f (length ss)) (w_index_path x) (length (result_children (f (length ss))))"
proof -
  note c = streamed_all_or_none [OF assms]
  have "map item_key (pc_items (Streaming x ss 0 False f)) =
      map (\<lambda>(i, s). (adding (w_index_path x) i, s)) (enumerate 0 (result_children (f (length ss))))
    \<and> result_streamed_count (f (length ss)) + length (regular_children (f (length ss)) x) =
      length (result_children (f (length ss)))"
  proof (cases "ss = []")
    case True
    then show ?thesis
      using c(2) item_key_regular [of "f 0" x] length_regular_children [of "f 0" x]
      by (simp add: streamed_items_def)
  next
    case False
    then have "regular_children (f (length ss)) x = []"
      using c(2) by (intro regular_children_streamed) simp
    then show ?thesis using c(2,3) item_key_streamed [of x 0 ss] False by simp
  qed
  then show "map item_key (pc_items (Streaming x ss 0 False f)) =
      map (\<lambda>(i, s). (adding (w_index_path x) i, s)) (enumerate 0 (result_children (f (length ss))))"
    and "ordered_read_dir_result (f (length ss)) x =
      ordered_new (f (length ss)) (w_index_path x) (length (result_children (f (length ss))))"
    by (simp_all add: ordered_read_dir_result_def)
qed

lemma item_results_key:
  "item_results n cb x = (case item_key x of (p, s) \<Rightarrow> mset (label p (the (read_tree n cb s))))"
  by (simp add: item_results_def item_tree_def item_key_def)

lemma sum_item_results:
  "(\<Sum>y \<in># mset ys. item_results n cb y) =
     mset (concat (map (\<lambda>(p, s). label p (the (read_tree n cb s))) (map item_key ys)))"
  by (induction ys) (auto simp: item_results_key split: prod.splits)

text \<open>Reading a directory replaces its results by its own and those of its children.\<close>

lemma read_conserves:
  assumes "streams_ok callback" and "callback (w_value x) = (ss, f)"
    and tree: "read_tree n (full_result callback) (w_value x) \<noteq> None"
  shows "item_results n (full_result callback) x =
      pc_own (Streaming x ss 0 False f) +
      (\<Sum>y \<in># mset (pc_items (Streaming x ss 0 False f)). item_results n (full_result callback) y)"
    and "\<forall>y \<in> set (pc_items (Streaming x ss 0 False f)).
      read_tree n (full_result callback) (w_value y) \<noteq> None"
proof -
  let ?cb = "full_result callback" and ?p = "w_index_path x"
  let ?ch = "result_children (f (length ss))" and ?I = "pc_items (Streaming x ss 0 False f)"
  note r = streamed_all_or_none(1) [OF assms(1,2)] and I = read_items [OF assms(1,2)]
  from tree obtain t where t: "read_tree n ?cb (w_value x) = Some t" by blast
  note kids = read_tree_children [OF t, unfolded r]
  have this_results: "item_results n ?cb x = mset (label ?p t)"
    by (simp add: item_results_def item_tree_def t)
  have "mset (label ?p t) = {#ordered_new (f (length ss)) ?p (length ?ch)#} +
      mset (label_forest ?p 0 (map (the \<circ> read_tree n ?cb) ?ch))"
    by (simp add: kids(1))
  moreover have "label_forest ?p 0 (map (the \<circ> read_tree n ?cb) ?ch) =
      concat (map (\<lambda>(p, s). label p (the (read_tree n ?cb s))) (map item_key ?I))"
    unfolding I(1)
    by (simp add: label_forest_enumerate enumerate_eq_zip zip_map2 case_prod_unfold comp_def)
  ultimately show "item_results n ?cb x = pc_own (Streaming x ss 0 False f) +
      (\<Sum>y \<in># mset ?I. item_results n ?cb y)"
    unfolding this_results sum_item_results by (simp add: I(2) del: pc_items.simps)
  have "w_value y \<in> set ?ch" if "y \<in> set ?I" for y
  proof -
    have "item_key y \<in> set (map item_key ?I)" using that by (simp del: pc_items.simps)
    then have "item_key y \<in> (\<lambda>(i, s). (adding ?p i, s)) ` set (enumerate 0 ?ch)"
      unfolding I(1) by simp
    then show ?thesis by (auto simp: item_key_def in_set_enumerate_eq) (metis nth_mem)
  qed
  then show "\<forall>y \<in> set ?I. read_tree n ?cb (w_value y) \<noteq> None" using kids(2) by blast
qed

section \<open>No result is lost or invented\<close>

text \<open>A step of one thread conserves the results when it only moves work and results around.\<close>

lemma results_conserved_move:
  assumes at: "at_pc s i p" and inv: "results_conserved n cb t s"
    and pcs: "ps_pcs s' = ps_pcs s"
    and moved: "mset (ps_chan s') + mset (ps_heap s') + mset (pc_items q) =
      mset (ps_chan s) + mset (ps_heap s) + mset (pc_items p)"
    and sent: "mset (ps_sent s') + pc_own q = mset (ps_sent s) + pc_own p"
  shows "results_conserved n cb t (goto i q s')"
proof -
  from at have i: "i < length (ps_pcs s)" "ps_pcs s ! i = p" by (auto simp: at_pc_def)
  have "items (goto i q s') = items s"
    using moved pcs sum_list_split [OF i(1), of "mset \<circ> pc_items"]
      sum_list_update [OF i(1), of "mset \<circ> pc_items" q] i(2)
    unfolding items_def by (simp add: add.assoc [symmetric])
  moreover have "own_results (goto i q s') = own_results s"
    using sent pcs sum_list_split [OF i(1), of pc_own] sum_list_update [OF i(1), of pc_own q] i(2)
    unfolding own_results_def by (simp add: add.assoc [symmetric])
  ultimately show ?thesis using inv by (simp add: results_conserved_def)
qed

lemma results_conserved_read:
  assumes at: "at_pc s i (Got x)" and inv: "results_conserved n (full_result callback) t s"
    and ok: "streams_ok callback" and read: "callback (w_value x) = (ss, f)"
  shows "results_conserved n (full_result callback) t (goto i (Streaming x ss 0 False f) s)"
proof -
  let ?q = "Streaming x ss 0 False f" and ?cb = "full_result callback"
  let ?R = "item_results n ?cb" and ?M = "mset (ps_chan s) + mset (ps_heap s) +
    sum_others (mset \<circ> pc_items) i (ps_pcs s)"
  from at have i: "i < length (ps_pcs s)" "ps_pcs s ! i = Got x" by (auto simp: at_pc_def)
  have old: "items s = add_mset x ?M"
    using sum_list_split [OF i(1), of "mset \<circ> pc_items"] i(2) by (simp add: items_def)
  have new: "items (goto i ?q s) = mset (pc_items ?q) + ?M"
    using sum_list_update [OF i(1), of "mset \<circ> pc_items" ?q] by (simp add: items_def ac_simps)
  have own: "own_results (goto i ?q s) = pc_own ?q + own_results s"
    using sum_list_split [OF i(1), of pc_own] sum_list_update [OF i(1), of pc_own ?q] i(2)
    by (simp add: own_results_def)
  have "read_tree n ?cb (w_value x) \<noteq> None" using inv old by (simp add: results_conserved_def)
  note r = read_conserves [OF ok read this]
  have "own_results (goto i ?q s) + (\<Sum>y \<in># items (goto i ?q s). ?R y) =
      own_results s + (\<Sum>y \<in># items s. ?R y)"
    unfolding own new old using r(1) by (simp add: ac_simps del: pc_items.simps pc_own.simps)
  moreover have "\<forall>y \<in># items (goto i ?q s). read_tree n ?cb (w_value y) \<noteq> None"
    unfolding new using r(2) inv old
    by (auto simp: results_conserved_def simp del: pc_items.simps)
  ultimately show ?thesis using inv by (simp add: results_conserved_def)
qed

lemma streamed_items_Cons: "streamed_items x n (c # ss) = streamed_child x n c # streamed_items x (Suc n) ss"
  by (simp add: streamed_items_def)

lemma par_step_results_conserved:
  assumes "par_step callback cap s s'" and "streams_ok callback" and "\<not> ps_stop s'"
    and "results_conserved n (full_result callback) t s"
  shows "results_conserved n (full_result callback) t s'"
  using assms
proof (induction rule: par_step.induct)
  case (drain s i x xs)
  then show ?case
    by (simp add: results_conserved_def items_def own_results_def heap_push_def)
next
  case (pop s i x rest)
  note m = heap_pop_mset [OF pop.hyps(3)]
  show ?case
    by (rule results_conserved_move [OF pop.hyps(1) pop.prems(3)]) (simp_all add: m)
next
  case (wait_recv s i x xs)
  show ?case
    by (rule results_conserved_move [OF wait_recv.hyps(1) wait_recv.prems(3)])
      (simp_all add: heap_push_def wait_recv.hyps)
next
  case (read s i x ss f)
  show ?case
    by (rule results_conserved_read [OF read.hyps(1) read.prems(3) read.prems(1) read.hyps(3)])
next
  case (stream_send s i x c ss n' f)
  show ?case
    by (rule results_conserved_move [OF stream_send.hyps(1) stream_send.prems(3)])
      (simp_all add: streamed_items_Cons)
next
  case (stream_end s i x n' f)
  show ?case
    by (rule results_conserved_move [OF stream_end.hyps(1) stream_end.prems(3)])
      (simp_all add: streamed_items_def)
qed (simp; fail | erule results_conserved_move; simp; fail)+

text \<open>The flags only go up, and threads neither appear nor vanish.\<close>

lemma par_step_mono:
  "par_step callback cap s s' \<Longrightarrow>
   (ps_stop s \<longrightarrow> ps_stop s') \<and> (ps_done s \<longrightarrow> ps_done s') \<and> length (ps_pcs s') = length (ps_pcs s)"
  by (induction rule: par_step.induct) auto

lemma reachable_threads:
  "par_reachable callback cap s0 s \<Longrightarrow> length (ps_pcs s) = length (ps_pcs s0)"
  by (induction rule: par_reachable.induct) (auto dest: par_step_mono)

lemma sum_list_replicate_empty: "sum_list (replicate k {#}) = {#}"
  by (induction k) simp_all

lemma par_init_results_conserved:
  "read_tree n cb spec = Some t \<Longrightarrow> results_conserved n cb t (par_init k spec)"
  by (simp add: results_conserved_def items_def own_results_def par_init_def item_results_def
      item_tree_def root_item_def sum_list_replicate_empty map_replicate_const)

lemma reachable_results_conserved:
  assumes "par_reachable callback cap (par_init k spec) s" and "streams_ok callback"
    and "read_tree n (full_result callback) spec = Some t" and "\<not> ps_stop s"
  shows "results_conserved n (full_result callback) t s"
  using assms
proof (induction rule: par_reachable.induct)
  case init
  then show ?case by (simp add: par_init_results_conserved)
next
  case (step s s')
  then have "\<not> ps_stop s" by (auto dest: par_step_mono)
  with step show ?case by (auto intro: par_step_results_conserved)
qed

section \<open>Termination detection\<close>

lemma size_sum_ge: "(\<And>x. x \<in># M \<Longrightarrow> f x \<noteq> {#}) \<Longrightarrow> size M \<le> size (\<Sum>x \<in># M. f x)"
proof (induction M)
  case (add x M)
  then have "0 < size (f x)" by (simp add: nonempty_has_size)
  with add show ?case by (simp add: Suc_le_eq add_strict_increasing)
qed simp

lemma items_bounded:
  assumes "results_conserved n cb t s"
  shows "size (items s) \<le> length (label (index_path_new [0]) t)"
proof -
  have "size (items s) \<le> size (\<Sum>x \<in># items s. item_results n cb x)"
    by (rule size_sum_ge) (simp add: item_results_def)
  also have "\<dots> \<le> size (own_results s + (\<Sum>x \<in># items s. item_results n cb x))" by simp
  also have "\<dots> = length (label (index_path_new [0]) t)"
    using assms by (simp only: results_conserved_def size_mset)
  finally show ?thesis .
qed

lemma queued_le_items: "length (ps_chan s) + length (ps_heap s) \<le> size (items s)"
  by (simp add: items_def)

lemma pc_units_le: "pc_units p \<le> 2"
  by (cases p) auto

lemma outstanding_bounded:
  assumes "results_conserved n cb t s"
  shows "outstanding s \<le> length (label (index_path_new [0]) t) + 2 * length (ps_pcs s)"
proof -
  have "sum_list (map pc_units ps) \<le> 2 * length ps" for ps :: "('d, 'r) pc list"
  proof (induction ps)
    case (Cons p ps)
    then show ?case using pc_units_le [of p] by simp
  qed simp
  from this [of "ps_pcs s"] show ?thesis
    using items_bounded [OF assms] queued_le_items [of s] unfolding outstanding_def by linarith
qed

lemma nothing_outstanding:
  assumes "outstanding s = 0"
  shows "items s = {#}" and "own_results s = mset (ps_sent s)"
proof -
  have none: "pc_items p = [] \<and> pc_own p = {#}" if "p \<in> set (ps_pcs s)" for p
  proof -
    have "pc_units p = 0" using assms that by (simp add: outstanding_def)
    then show ?thesis by (cases p) (auto split: if_splits)
  qed
  then have "sum_list (map (mset \<circ> pc_items) (ps_pcs s)) = {#}" "sum_list (map pc_own (ps_pcs s)) = {#}"
    by (simp_all add: sum_list_0 cong: map_cong)
  with assms show "items s = {#}" "own_results s = mset (ps_sent s)"
    by (simp_all add: items_def own_results_def outstanding_def)
qed

text \<open>With nothing outstanding, no thread can start anything, and this stays so.\<close>

lemma idle_units: "at_pc s i p \<Longrightarrow> outstanding s = 0 \<Longrightarrow> pc_units p = 0"
  by (auto simp: outstanding_def at_pc_def)

lemma idle_move:
  assumes "at_pc s i p" and "outstanding s = 0" and "ps_pcs s' = ps_pcs s"
    and "ps_chan s' = ps_chan s" and "ps_heap s' = ps_heap s" and "pc_units q = 0"
  shows "outstanding (goto i q s') = 0"
  using outstanding_move [OF assms(1,3), where a = 0 and b = 0 and q = q] idle_units [OF assms(1,2)]
    assms by simp

lemma par_step_idle:
  assumes "par_step callback cap s s'" and "outstanding s = 0"
  shows "outstanding s' = 0"
  using assms
proof (induction rule: par_step.induct)
  case (client_stop s)
  then show ?case by (simp add: outstanding_def)
next
  case (drain s i x xs)
  then show ?case by (simp add: outstanding_def)
next
  case (wait_recv s i x xs)
  then show ?case by (simp add: outstanding_def)
next
  case (pop s i x rest)
  then show ?case by (simp add: outstanding_def)
qed ((drule (1) idle_units, simp; fail) |
     (erule (1) idle_move; simp; fail))+

text \<open>When the iterator has ended without a stop, nothing is outstanding.\<close>

lemma exact_zero:
  assumes "counter_exact s" and "ps_pending s = 0" and "outstanding s < 2 ^ 64"
  shows "outstanding s = 0"
proof -
  have "unat (of_nat (outstanding s) :: u64) = outstanding s"
    using assms(3) by (simp add: unat_of_nat take_bit_nat_eq_self)
  with assms(1,2) show ?thesis by (simp add: counter_exact_def)
qed

lemma reachable_done:
  assumes "par_reachable callback cap (par_init k spec) s" and "streams_ok callback"
    and "read_tree n (full_result callback) spec = Some t"
    and "length (preorder t) + 2 * k < 2 ^ 64" and "ps_done s" and "\<not> ps_stop s"
  shows "outstanding s = 0"
  using assms
proof (induction rule: par_reachable.induct)
  case init
  then show ?case by (simp add: par_init_def)
next
  case (step s s')
  have ns: "\<not> ps_stop s" using step.hyps(2) step.prems(5) by (auto dest: par_step_mono)
  show ?case
  proof (cases "ps_done s")
    case True
    then have "outstanding s = 0" using step ns by blast
    with step.hyps(2) show ?thesis by (rule par_step_idle)
  next
    case False
    have "results_conserved n (full_result callback) t s"
      using step.hyps(1) step.prems(1,2) ns by (rule reachable_results_conserved)
    then have "outstanding s \<le> length (label (index_path_new [0]) t) + 2 * length (ps_pcs s)"
      by (rule outstanding_bounded)
    also have "\<dots> = length (preorder t) + 2 * k"
      using reachable_threads [OF step.hyps(1)] arg_cong [OF label_values(1), of length "index_path_new [0]" t]
      by (simp add: par_init_def)
    finally have bound: "outstanding s < 2 ^ 64" using step.prems(3) by simp
    have "ps_pending s = 0"
      using step.hyps(2) False step.prems(4,5) by (cases rule: par_step.cases) auto
    then have "outstanding s = 0"
      using reachable_counter_exact [OF step.hyps(1)] bound by (intro exact_zero)
    with step.hyps(2) show ?thesis by (rule par_step_idle)
  qed
qed

lemma reachable_sent_all:
  assumes "par_reachable callback cap (par_init k spec) s" and "streams_ok callback"
    and "read_tree n (full_result callback) spec = Some t"
    and "length (preorder t) + 2 * k < 2 ^ 64" and "ps_done s" and "\<not> ps_stop s"
  shows "mset (ps_sent s) = mset (label (index_path_new [0]) t)"
proof -
  have "outstanding s = 0" using assms by (rule reachable_done)
  moreover have "results_conserved n (full_result callback) t s"
    using assms(1,2,3,6) by (rule reachable_results_conserved)
  ultimately show ?thesis using nothing_outstanding [of s] by (simp add: results_conserved_def)
qed

section \<open>Running a schedule\<close>

text \<open>
  The step of thread \<open>i\<close> as a function, \<open>None\<close> when the thread is blocked or gone: a waiting
  receive takes a message if there is one and times out otherwise, and sending a result works.
\<close>

definition thread_step :: "('d, 'r) par_callback \<Rightarrow> usize \<Rightarrow> nat \<Rightarrow> ('d, 'r) par_state \<Rightarrow>
    ('d, 'r) par_state option" where
  "thread_step callback cap i s =
     (if length (ps_pcs s) \<le> i then None
      else case ps_pcs s ! i of
        Idle \<Rightarrow> if ps_done s then Some (goto i Exited s)
                else if list_ex holds_iterator (ps_pcs s) then None else Some (goto i IterStop s)
      | IterStop \<Rightarrow> Some (if ps_stop s then goto i Exited (s\<lparr>ps_done := True\<rparr>) else goto i IterDrain s)
      | IterDrain \<Rightarrow> (case ps_chan s of
            x # xs \<Rightarrow> Some (s\<lparr>ps_chan := xs, ps_heap := heap_push x (ps_heap s)\<rparr>)
          | [] \<Rightarrow> (case heap_pop weighted_cmp (ps_heap s) of
              Some (x, rest) \<Rightarrow> Some (goto i (Got x) (s\<lparr>ps_heap := rest\<rparr>))
            | None \<Rightarrow> Some (goto i IterPending s)))
      | IterPending \<Rightarrow> Some (if ps_pending s = 0 then goto i Exited (s\<lparr>ps_done := True\<rparr>)
                             else goto i IterWait s)
      | IterWait \<Rightarrow> (case ps_chan s of
            x # xs \<Rightarrow> Some (goto i IterStop (s\<lparr>ps_chan := xs, ps_heap := heap_push x (ps_heap s)\<rparr>))
          | [] \<Rightarrow> Some (goto i IterStop s))
      | Got x \<Rightarrow> if ps_stop s then Some (goto i (Completing x) s)
                 else (case callback (w_value x) of (ss, f) \<Rightarrow> Some (goto i (Streaming x ss 0 False f) s))
      | Streaming x ss n counted f \<Rightarrow> (case ss of
            [] \<Rightarrow> if counted then None else Some (goto i (SendResult x (f n)) s)
          | c # ss' \<Rightarrow>
              if counted
              then if length (ps_chan s) < cap
                   then Some (goto i (Streaming x ss' (n + 1) False f)
                                (s\<lparr>ps_chan := ps_chan s @ [streamed_child x n c]\<rparr>))
                   else None
              else if ps_stop s then Some (goto i (Streaming x ss' n False f) s)
              else Some (goto i (Streaming x ss n True f) (s\<lparr>ps_pending := ps_pending s + 1\<rparr>)))
      | SendResult x r \<Rightarrow> Some (goto i (Scheduling x (regular_children r x) False)
                                  (s\<lparr>ps_sent := ps_sent s @ [ordered_read_dir_result r x]\<rparr>))
      | Scheduling x cs counted \<Rightarrow> (case cs of
            [] \<Rightarrow> if counted then None else Some (goto i (Completing x) s)
          | c # cs' \<Rightarrow>
              if counted
              then if length (ps_chan s) < cap
                   then Some (goto i (Scheduling x cs' False) (s\<lparr>ps_chan := ps_chan s @ [c]\<rparr>))
                   else None
              else Some (goto i (Scheduling x cs True) (s\<lparr>ps_pending := ps_pending s + 1\<rparr>)))
      | Completing x \<Rightarrow> Some (goto i Idle (s\<lparr>ps_pending := ps_pending s - 1\<rparr>))
      | Exited \<Rightarrow> None)"

fun par_run :: "('d, 'r) par_callback \<Rightarrow> usize \<Rightarrow> nat list \<Rightarrow> ('d, 'r) par_state \<Rightarrow>
    ('d, 'r) par_state option" where
  "par_run callback cap [] s = Some s"
| "par_run callback cap (i # sched) s =
     Option.bind (thread_step callback cap i s) (par_run callback cap sched)"

lemma thread_step_sound:
  assumes "thread_step callback cap i s = Some s'"
  shows "par_step callback cap s s'"
proof (cases "ps_pcs s ! i")
  case (Streaming x ss n counted f)
  then show ?thesis
    using assms unfolding thread_step_def
    by (cases ss) (auto simp: at_pc_def intro: stream_end stream_send [unfolded Suc_eq_plus1 [symmetric]] stream_skip stream_count
        split: if_splits)
next
  case (Scheduling x cs counted)
  then show ?thesis
    using assms unfolding thread_step_def
    by (cases cs) (auto simp: at_pc_def intro: sched_end sched_send sched_count split: if_splits)
next
  case IterDrain
  then show ?thesis
    using assms unfolding thread_step_def
    by (auto simp: at_pc_def intro: drain [where i = i] pop empty
        split: if_splits list.splits option.splits)
qed (use assms in \<open>auto simp: thread_step_def at_pc_def intro: par_step.intros
      split: if_splits list.splits option.splits prod.splits\<close>)

lemma reachable_trans:
  "par_reachable callback cap s1 s2 \<Longrightarrow> par_reachable callback cap s0 s1 \<Longrightarrow> par_reachable callback cap s0 s2"
  by (induction rule: par_reachable.induct) (auto intro: par_reachable.step)

lemma par_run_reachable:
  "par_run callback cap sched s = Some s' \<Longrightarrow> par_reachable callback cap s s'"
proof (induction sched arbitrary: s)
  case Nil
  then show ?case by (simp add: par_reachable.init)
next
  case (Cons i sched)
  then obtain s1 where "thread_step callback cap i s = Some s1" "par_run callback cap sched s1 = Some s'"
    by (auto simp: bind_eq_Some_conv)
  with Cons.IH show ?case
    by (meson par_reachable.init par_reachable.step reachable_trans thread_step_sound)
qed

lemma par_run_reachable_the:
  "\<not> Option.is_none (par_run callback cap sched s) \<Longrightarrow>
   par_reachable callback cap s (the (par_run callback cap sched s))"
  by (auto simp: Option.is_none_def intro: par_run_reachable)

text \<open>A counted child is still in the list of the thread that counted it.\<close>

fun pc_wf :: "('d, 'r) pc \<Rightarrow> bool" where
  "pc_wf (Streaming x ss n counted f) = (counted \<longrightarrow> ss \<noteq> [])"
| "pc_wf (Scheduling x cs counted) = (counted \<longrightarrow> cs \<noteq> [])"
| "pc_wf _ = True"

lemma par_step_wf:
  "par_step callback cap s s' \<Longrightarrow> list_all pc_wf (ps_pcs s) \<Longrightarrow> list_all pc_wf (ps_pcs s')"
  by (induction rule: par_step.induct)
    (auto simp: list_all_iff at_pc_def dest!: set_update_subset_insert [THEN subsetD])

lemma reachable_wf:
  "par_reachable callback cap (par_init k spec) s \<Longrightarrow> list_all pc_wf (ps_pcs s)"
  by (induction rule: par_reachable.induct)
    (auto simp: par_init_def list_all_iff intro: par_step_wf [unfolded list_all_iff, rule_format])

lemma thread_step_enabled:
  assumes "at_pc s i p" and "0 < pc_units p" and "pc_wf p"
    and "pc_items p \<noteq> [] \<Longrightarrow> length (ps_chan s) < cap"
  shows "\<exists>s'. thread_step callback cap i s = Some s'"
proof (cases p)
  case (Streaming x ss n counted f)
  then show ?thesis
    using assms by (cases ss; cases counted) (auto simp: thread_step_def at_pc_def streamed_items_Cons)
next
  case (Scheduling x cs counted)
  then show ?thesis
    using assms by (cases cs; cases counted) (auto simp: thread_step_def at_pc_def)
qed (use assms in \<open>auto simp: thread_step_def at_pc_def split: prod.splits\<close>)

section \<open>Examples for the witnesses\<close>

definition example_spec :: "path \<Rightarrow> unit read_dir_spec" where
  "example_spec p = \<lparr>spec_depth = 0, spec_path = p, spec_client_read_state = (),
                     spec_follow_link_ancestors = None\<rparr>"

text \<open>Root \<open>r\<close> with the directories \<open>a\<close>, \<open>b\<close> below it; \<open>wide_callback\<close> schedules them regularly.\<close>

definition wide_listing :: "(error + unit dir_entry) list" where
  "wide_listing =
     [from_raw () 1 [114] None None [97] (UnixFileType S_IFDIR) None,
      from_raw () 1 [114] None None [98] (UnixFileType S_IFDIR) None]"

definition wide_callback :: "(unit, unit) par_callback" where
  "wide_callback spec =
     ([], \<lambda>n. Inr (read_dir_new () (if spec_path spec = [114] then wide_listing else [])))"

text \<open>The same directory, streamed.\<close>

definition streaming_callback :: "(unit, unit) par_callback" where
  "streaming_callback spec =
     (if spec_path spec = [114]
      then (read_children_specs (read_dir_new () wide_listing),
            \<lambda>n. Inr ((read_dir_new () wide_listing)\<lparr>streamed_child_count := n\<rparr>))
      else ([], \<lambda>n. Inr ((read_dir_new () [])\<lparr>streamed_child_count := n\<rparr>)))"

lemma example_streams_ok: "streams_ok wide_callback" "streams_ok streaming_callback"
  by (simp_all add: streams_ok_def wide_callback_def streaming_callback_def full_result_def
      result_streamed_count_def result_children_def read_children_specs_def read_dir_new_def)

text \<open>Two threads; thread 1 reads \<open>a\<close> and sends its result before thread 0 sends the root's.\<close>

definition finished_run :: "(unit, unit) par_state" where
  "finished_run = the (par_run streaming_callback 8
     (replicate 7 0 @ replicate 7 1 @ replicate 6 0 @ replicate 2 1 @ replicate 13 0 @ [1])
     (par_init 2 (example_spec [114])))"

definition mid_run :: "(unit, unit) par_state" where
  "mid_run = the (par_run streaming_callback 8 (replicate 8 0) (par_init 2 (example_spec [114])))"

definition example_tree :: "(unit, unit) read_result otree" where
  "example_tree = the (read_tree 2 (full_result streaming_callback) (example_spec [114]))"

lemma finished_run_reachable:
  "par_reachable streaming_callback 8 (par_init 2 (example_spec [114])) finished_run"
  unfolding finished_run_def by (rule par_run_reachable_the) code_simp

lemma example_tree_read:
  "read_tree 2 (full_result streaming_callback) (example_spec [114]) = Some example_tree"
proof -
  have "\<not> Option.is_none (read_tree 2 (full_result streaming_callback) (example_spec [114]))" by code_simp
  then show ?thesis by (auto simp: example_tree_def Option.is_none_def)
qed

section \<open>A full channel blocks the last worker\<close>

text \<open>
  Only threads that ask for work drain the channel, so a thread that is sending into a full
  channel waits for another one. A single thread that reads a directory with more
  subdirectories than the channel has room for never gets on.
\<close>

lemma blocked_thread:
  assumes "ps_pcs s = Scheduling x (c # cs) True # replicate k Exited" and "cap \<le> length (ps_chan s)"
  shows "Collect (par_step callback cap s) = {s\<lparr>ps_stop := True\<rparr>}"
proof -
  have pcs: "at_pc s i p \<Longrightarrow> p = Scheduling x (c # cs) True \<or> p = Exited" for i p
    using assms(1) by (cases i) (auto simp: at_pc_def)
  have "s' = s\<lparr>ps_stop := True\<rparr>" if "par_step callback cap s s'" for s'
    using that assms(2) by (cases rule: par_step.cases) (auto dest: pcs)
  then show ?thesis by (auto intro: client_stop)
qed

lemma schedule_children:
  assumes "ps_pcs s = Scheduling x cs False # ps" and "k \<le> length cs" and "length (ps_chan s) + k \<le> cap"
  shows "\<exists>s'. par_reachable callback cap s s' \<and> ps_pcs s' = Scheduling x (drop k cs) False # ps \<and>
           length (ps_chan s') = length (ps_chan s) + k \<and> ps_sent s' = ps_sent s \<and> ps_stop s' = ps_stop s \<and>
           ps_done s' = ps_done s"
  using assms(2,3)
proof (induction k)
  case 0
  then show ?case using assms(1) by (auto intro: par_reachable.init)
next
  case (Suc k)
  then obtain s1 where r: "par_reachable callback cap s s1"
    and s1: "ps_pcs s1 = Scheduling x (drop k cs) False # ps" "length (ps_chan s1) = length (ps_chan s) + k"
      "ps_sent s1 = ps_sent s" "ps_stop s1 = ps_stop s" "ps_done s1 = ps_done s"
    by auto
  obtain c where c: "drop k cs = c # drop (Suc k) cs" using Suc.prems(1) by (metis Cons_nth_drop_Suc Suc_le_lessD)
  let ?s2 = "goto 0 (Scheduling x (drop k cs) True) (s1\<lparr>ps_pending := ps_pending s1 + 1\<rparr>)"
  let ?s3 = "goto 0 (Scheduling x (drop (Suc k) cs) False) (?s2\<lparr>ps_chan := ps_chan ?s2 @ [c]\<rparr>)"
  have "par_step callback cap s1 ?s2" unfolding c by (rule sched_count) (simp add: at_pc_def s1 c)
  moreover have "par_step callback cap ?s2 ?s3"
    by (rule sched_send) (use s1 c Suc.prems in \<open>auto simp: at_pc_def\<close>)
  ultimately have "par_reachable callback cap s ?s3" using r by (meson par_reachable.step)
  moreover have "ps_pcs ?s3 = Scheduling x (drop (Suc k) cs) False # ps \<and>
      length (ps_chan ?s3) = length (ps_chan s) + Suc k \<and> ps_sent ?s3 = ps_sent s \<and> ps_stop ?s3 = ps_stop s \<and>
      ps_done ?s3 = ps_done s"
    using s1 by simp
  ultimately show ?case by blast
qed

text \<open>Thread 0 reads a root with more subdirectories than there is room for, before the other threads take a step.\<close>

lemma wide_directory_fills_channel:
  assumes "callback spec = ([], f)" and "f 0 = Inr rd" and "streamed_child_count rd = 0"
    and "cap < length (read_children_specs rd)"
  shows "\<exists>s x c cs. par_reachable callback cap (par_init (Suc k) spec) s \<and> \<not> ps_stop s \<and> \<not> ps_done s \<and>
    length (ps_sent s) = 1 \<and> length (ps_chan s) = cap \<and>
    ps_pcs s = Scheduling x (c # cs) True # replicate k Idle"
proof -
  let ?x = "root_item spec"
  let ?cs = "regular_children (f 0) ?x"
  let ?s = "\<lparr>ps_pending = 1, ps_chan = [], ps_heap = [], ps_sent = [ordered_read_dir_result (f 0) ?x],
    ps_stop = False, ps_done = False, ps_pcs = Scheduling ?x ?cs False # replicate k Idle\<rparr>"
  have "par_run callback cap [0, 0, 0, 0, 0, 0, 0] (par_init (Suc k) spec) = Some ?s"
    using assms(1) by (simp add: thread_step_def par_init_def goto_def heap_push_def root_item_def list_ex_iff)
  then have r: "par_reachable callback cap (par_init (Suc k) spec) ?s" by (rule par_run_reachable)
  have len: "cap < length ?cs"
    using assms by (simp add: regular_children_def weighted_children_specs_length)
  have "\<exists>s'. par_reachable callback cap ?s s' \<and> ps_pcs s' = Scheduling ?x (drop cap ?cs) False # replicate k Idle \<and>
      length (ps_chan s') = cap \<and> length (ps_sent s') = 1 \<and> \<not> ps_stop s' \<and> \<not> ps_done s'"
    using schedule_children [of ?s ?x ?cs "replicate k Idle" cap cap callback] len by auto
  then obtain s' where r': "par_reachable callback cap ?s s'"
    and s': "ps_pcs s' = Scheduling ?x (drop cap ?cs) False # replicate k Idle" "length (ps_chan s') = cap"
      "length (ps_sent s') = 1" "\<not> ps_stop s'" "\<not> ps_done s'" by blast
  obtain c cs where c: "drop cap ?cs = c # cs" using len by (metis Cons_nth_drop_Suc)
  let ?s2 = "goto 0 (Scheduling ?x (c # cs) True) (s'\<lparr>ps_pending := ps_pending s' + 1\<rparr>)"
  have "par_step callback cap s' ?s2" by (rule sched_count) (simp add: at_pc_def s' c)
  then have "par_reachable callback cap (par_init (Suc k) spec) ?s2"
    using r r' by (meson par_reachable.step reachable_trans)
  then show ?thesis using s' by (intro exI [of _ ?s2] exI [of _ ?x] exI [of _ c] exI [of _ cs]) simp
qed

text \<open>With room in the channel for the whole tree a thread that holds work can go on.\<close>

lemma worker_enabled:
  assumes "par_reachable callback cap (par_init k spec) s" and "streams_ok callback"
    and "read_tree n (full_result callback) spec = Some t" and "length (preorder t) \<le> cap"
    and "\<not> ps_stop s" and "at_pc s i p" and "0 < pc_units p"
  shows "\<exists>s'. thread_step callback cap i s = Some s' \<and> par_step callback cap s s'"
proof -
  have inv: "results_conserved n (full_result callback) t s"
    using assms(1,2,3,5) by (rule reachable_results_conserved)
  have size: "size (items s) \<le> cap"
    using items_bounded [OF inv] assms(4) arg_cong [OF label_values(1), of length "index_path_new [0]" t]
    by simp
  have i: "i < length (ps_pcs s)" "ps_pcs s ! i = p" using assms(6) by (auto simp: at_pc_def)
  have "length (ps_chan s) + length (pc_items p) \<le> size (items s)"
    using sum_list_split [OF i(1), of "mset \<circ> pc_items"] i(2) by (simp add: items_def)
  with size have room: "pc_items p \<noteq> [] \<Longrightarrow> length (ps_chan s) < cap" by (cases "pc_items p") auto
  have "pc_wf p" using reachable_wf [OF assms(1)] i by (auto simp: list_all_iff)
  then have "\<exists>s'. thread_step callback cap i s = Some s'"
    using assms(6,7) room by (intro thread_step_enabled)
  then show ?thesis using thread_step_sound by blast
qed

section \<open>Properties of the parallel walk\<close>

text \<open>
  C10. The counter of pending work is exact in every reachable state of every interleaving: it
  is the number of queued, buffered and held units of work plus those counted but not yet sent
  (modulo the width of the counter). It is never zero while work is outstanding and never
  underflows.
\<close>

theorem pending_counts_outstanding:
  assumes "par_reachable callback cap (par_init k spec) s" and "outstanding s < 2 ^ 64"
  shows "unat (ps_pending s) = outstanding s"
proof -
  have "ps_pending s = of_nat (outstanding s)"
    using reachable_counter_exact [OF assms(1)] by (simp add: counter_exact_def)
  then show ?thesis using assms(2) by (simp add: unat_of_nat take_bit_nat_eq_self)
qed

theorem pending_counts_outstanding_witness:
  "unat (ps_pending (the (par_run streaming_callback 8 [0, 0, 0, 0, 0, 0, 0, 0, 1, 1, 1]
      (par_init 2 (example_spec [114]))))) = 3"
proof -
  let ?s = "the (par_run streaming_callback 8 [0, 0, 0, 0, 0, 0, 0, 0, 1, 1, 1]
      (par_init 2 (example_spec [114])))"
  have r: "par_reachable streaming_callback 8 (par_init 2 (example_spec [114])) ?s"
    by (rule par_run_reachable_the) code_simp
  have n: "outstanding ?s = 3" by code_simp
  from pending_counts_outstanding [OF r] show ?thesis unfolding n by simp
qed

text \<open>
  C7. Termination detection is sound: when the queue iterator has ended in a walk that was not
  stopped, every directory of the tree has been read and its result sent, exactly once and at
  its position, and nothing is left in the queues. The tree is finite and small enough for the
  64-bit counter; the callback keeps the streaming contract.
\<close>

theorem iterator_ends_only_when_complete:
  assumes "par_reachable callback cap (par_init k spec) s" and "streams_ok callback"
    and "read_tree n (full_result callback) spec = Some t"
    and "length (preorder t) + 2 * k < 2 ^ 64" and "ps_done s" and "\<not> ps_stop s"
  shows "mset (ps_sent s) = mset (label (index_path_new [0]) t) \<and> ps_chan s = [] \<and> ps_heap s = []"
  using reachable_sent_all [OF assms] reachable_done [OF assms] by (simp add: outstanding_def)

theorem iterator_ends_only_when_complete_witness:
  "ps_done finished_run \<and> \<not> ps_stop finished_run \<and>
   mset (ps_sent finished_run) = mset (label (index_path_new [0]) example_tree) \<and>
   map o_index_path (ps_sent finished_run) = [IndexPath [0, 0], IndexPath [0], IndexPath [0, 1]]"
proof -
  have flags: "ps_done finished_run" "\<not> ps_stop finished_run" by code_simp+
  have size: "length (preorder example_tree) + 2 * 2 < 2 ^ 64" by code_simp
  have order: "map o_index_path (ps_sent finished_run) = [IndexPath [0, 0], IndexPath [0], IndexPath [0, 1]]"
    by code_simp
  from iterator_ends_only_when_complete [OF finished_run_reachable example_streams_ok(2)
      example_tree_read size flags] flags order show ?thesis by blast
qed

text \<open>
  With a channel that has room for the whole tree, no worker ever blocks: every thread that
  holds work can take its next step, in every reachable state of a walk that was not stopped.
\<close>

theorem workers_never_block:
  assumes "par_reachable callback cap (par_init k spec) s" and "streams_ok callback"
    and "read_tree n (full_result callback) spec = Some t" and "length (preorder t) \<le> cap"
    and "\<not> ps_stop s" and "at_pc s i p" and "0 < pc_units p"
  shows "\<exists>s'. thread_step callback cap i s = Some s' \<and> par_step callback cap s s'"
  using assms by (rule worker_enabled)

theorem workers_never_block_witness:
  "\<exists>s'. thread_step streaming_callback 8 0 mid_run = Some s' \<and> par_step streaming_callback 8 mid_run s'"
proof -
  have "par_reachable streaming_callback 8 (par_init 2 (example_spec [114])) mid_run"
    unfolding mid_run_def by (rule par_run_reachable_the) code_simp
  moreover have "length (preorder example_tree) \<le> 8" "\<not> ps_stop mid_run"
    and "length (ps_pcs mid_run) = 2" and "pc_units (ps_pcs mid_run ! 0) = 2" by code_simp+
  moreover from this have "at_pc mid_run 0 (ps_pcs mid_run ! 0)" "0 < pc_units (ps_pcs mid_run ! 0)"
    by (simp_all add: at_pc_def)
  ultimately show ?thesis
    using workers_never_block example_streams_ok(2) example_tree_read by blast
qed

text \<open>
  C40. The limit of the scheduling queue: on a pool with one thread, a root directory with more
  subdirectories than the channel has room for (not streamed) leads to a state in which the
  only thing that can still happen is that the client stops the walk, with just the root read.
\<close>

theorem single_worker_wide_directory_blocks:
  assumes "callback spec = ([], f)" and "f 0 = Inr rd" and "streamed_child_count rd = 0"
    and "cap < length (read_children_specs rd)"
  shows "\<exists>s. par_reachable callback cap (par_init 1 spec) s \<and> \<not> ps_stop s \<and> length (ps_sent s) = 1 \<and>
           Collect (par_step callback cap s) = {s\<lparr>ps_stop := True\<rparr>}"
proof -
  obtain s x c cs where "par_reachable callback cap (par_init 1 spec) s" "\<not> ps_stop s" "length (ps_sent s) = 1"
    "length (ps_chan s) = cap" "ps_pcs s = Scheduling x (c # cs) True # replicate 0 Idle"
    using wide_directory_fills_channel [of callback spec f rd cap 0] assms by auto
  then show ?thesis using blocked_thread [of s x c cs 0 cap callback] by auto
qed

theorem single_worker_wide_directory_blocks_witness:
  "\<exists>s. par_reachable wide_callback 1 (par_init 1 (example_spec [114])) s \<and> \<not> ps_stop s \<and>
     length (ps_sent s) = 1 \<and> Collect (par_step wide_callback 1 s) = {s\<lparr>ps_stop := True\<rparr>}"
proof -
  have "1 < length (read_children_specs (read_dir_new () wide_listing))" by code_simp
  then show ?thesis
    by (intro single_worker_wide_directory_blocks
        [where f = "\<lambda>n. Inr (read_dir_new () wide_listing)" and rd = "read_dir_new () wide_listing"])
      (simp_all add: wide_callback_def example_spec_def read_dir_new_def)
qed

end
