(* ===== verification/Core_Callback.thy ===== *)
theory Core_Callback
  imports Reader Dir_Entry_Iter Par_Walk
begin

text \<open>
  \<open>WalkDirGeneric::into_iter\<close> (\<open>lib.rs\<close>): the root entry, the closure that reads one directory
  (\<open>core_read_dir_callback\<close>) with its depth limit, its chain of ancestors and its retries, and
  \<open>try_into_iter\<close>. The closure calls \<open>read_dir_unix\<close> or \<open>read_dir_windows\<close>, as \<open>cfg\<close> selects: here the
  reader is an argument. The locale \<open>dir_reader\<close> states what the walk needs of a reader; its lemmas
  bound the tree when a maximum depth is set and show that streaming keeps the contract of the
  parallel walk.
\<close>

section \<open>The closure\<close>

text \<open>The reader of one directory, over the state of the system and the queue of a streaming context.\<close>

type_synonym ('d, 'r, 's, 'q) reader =
  "('d, 'r) read_args \<Rightarrow> ('q, 'r) streaming_context option \<Rightarrow> 's \<Rightarrow> 'q \<Rightarrow>
    ((error + ('d, 'r) read_dir) \<times> 's \<times> 'q) option"

definition extend_ancestors :: "target \<Rightarrow> fs_ops \<Rightarrow> path \<Rightarrow> ancestor_identity list option \<Rightarrow>
    ancestor_identity list option" where
  "extend_ancestors cfg fs p ancestors =
     (let existing = (case ancestors of Some as \<Rightarrow> as | None \<Rightarrow> []) in
      Some (case ancestor_identity_from_path cfg (fs_symlink_metadata fs) p of
              Some identity \<Rightarrow> existing @ [identity]
            | None \<Rightarrow> existing))"

text \<open>
  One attempt of \<open>retry_transient_io\<close>: the state holds the streaming context (\<open>take()\<close> leaves
  \<open>None\<close>), the system and the queue; a read that does not return leaves no state.
\<close>

type_synonym ('s, 'q, 'r) attempt_state = "(('q, 'r) streaming_context option \<times> 's \<times> 'q) option"

definition read_attempt :: "('d, 'r, 's, 'q) reader \<Rightarrow> ('d, 'r) read_args \<Rightarrow> ('s, 'q, 'r) attempt_state \<Rightarrow>
    (error + ('d, 'r) read_dir) \<times> ('s, 'q, 'r) attempt_state" where
  "read_attempt read args st =
     (case st of
        None \<Rightarrow> (Inl error_busy, None)
      | Some (streaming_ctx, s, q) \<Rightarrow>
          (case read args streaming_ctx s q of
             None \<Rightarrow> (Inl error_busy, None)
           | Some (r, s, q) \<Rightarrow> (r, Some (None, s, q))))"

definition callback_args :: "target \<Rightarrow> fs_ops \<Rightarrow> ('p, 'd, 'r) walk_dir_options \<Rightarrow> 'r read_dir_spec \<Rightarrow>
    ('d, 'r) read_args" where
  "callback_args cfg fs opts spec =
     \<lparr>ra_path = spec_path spec, ra_read_dir_depth = spec_depth spec,
      ra_contents_depth = usize_saturating_add (spec_depth spec) 1,
      ra_follow_links = opt_follow_links opts, ra_read_metadata = opt_read_metadata opts,
      ra_read_metadata_ext = opt_read_metadata_ext opts,
      ra_read_hardlink_info = opt_read_hardlink_info opts, ra_skip_hidden = opt_skip_hidden opts,
      ra_sort = opt_sort opts,
      ra_ancestors = (if opt_follow_links opts
        then extend_ancestors cfg fs (spec_path spec) (spec_follow_link_ancestors spec)
        else spec_follow_link_ancestors spec),
      ra_client_read_state = spec_client_read_state spec,
      ra_process_read_dir = opt_process_read_dir opts\<rparr>"

definition core_read_dir_callback :: "target \<Rightarrow> fs_ops \<Rightarrow> ('d, 'r, 's, 'q) reader \<Rightarrow>
    ('p, 'd, 'r) walk_dir_options \<Rightarrow> 'r read_dir_spec \<Rightarrow> ('q, 'r) streaming_context option \<Rightarrow> 's \<Rightarrow> 'q \<Rightarrow>
    ((error + ('d, 'r) read_dir) \<times> 's \<times> 'q) option" where
  "core_read_dir_callback cfg fs read opts spec streaming_ctx s q =
     (if opt_max_depth opts < usize_saturating_add (spec_depth spec) 1
      then Some (Inr (read_dir_new (spec_client_read_state spec) []), s, q)
      else case retry_transient_io cfg (unat (opt_max_retries opts))
                  (read_attempt read (callback_args cfg fs opts spec)) (Some (streaming_ctx, s, q)) of
             Some (r, Some (_, s, q)) \<Rightarrow> Some (r, s, q)
           | _ \<Rightarrow> None)"

section \<open>The start of a walk\<close>

definition root_entry :: "platform \<Rightarrow> fs_ops \<Rightarrow> 'd \<Rightarrow> ('p, 'd, 'r) walk_dir \<Rightarrow> error + 'd dir_entry" where
  "root_entry pf fs dflt self =
     (let opts = wd_options self;
          ancestors = (if opt_follow_links opts
            then map_option (\<lambda>id. [id])
                   (ancestor_identity_from_path (pl_target pf) (fs_symlink_metadata fs) (wd_root self))
            else None)
      in from_path_on pf fs dflt 0 (wd_root self) (opt_read_metadata opts) (opt_read_metadata_ext opts) False
           ancestors)"

definition root_results :: "platform \<Rightarrow> fs_ops \<Rightarrow> 'd \<Rightarrow> ('p, 'd, 'r) walk_dir \<Rightarrow> 'r \<times> 'd entry_result list" where
  "root_results pf fs dflt self =
     (let opts = wd_options self;
          entry = root_entry pf fs dflt self;
          root_parent_path = (case entry of Inr root \<Rightarrow> de_parent_path root | Inl e \<Rightarrow> []);
          results = [process_dir_entry_result_on pf fs dflt entry (opt_follow_links opts)]
      in case opt_process_read_dir opts of
           Some f \<Rightarrow> f None root_parent_path (opt_root_read_dir_state opts) results
         | None \<Rightarrow> (opt_root_read_dir_state opts, results))"

definition walk_into_iter :: "platform \<Rightarrow> fs_ops \<Rightarrow> 'd \<Rightarrow> ('p, 'd, 'r) walk_dir \<Rightarrow> bool \<Rightarrow> 'w \<Rightarrow>
    (('d, 'r) read_dir_iter \<times> 'w, 'd) dir_entry_iter" where
  "walk_into_iter pf fs dflt self started w =
     (case root_results pf fs dflt self of (st, results) \<Rightarrow>
        dir_entry_iter_new results (opt_parallelism (wd_options self)) started
          (opt_min_depth (wd_options self)) st (opt_max_receive_buffer_size (wd_options self)) w)"

definition try_into_iter :: "platform \<Rightarrow> fs_ops \<Rightarrow> 'd \<Rightarrow> ('p, 'd, 'r) walk_dir \<Rightarrow> bool \<Rightarrow> 'w \<Rightarrow>
    error + (('d, 'r) read_dir_iter \<times> 'w, 'd) dir_entry_iter" where
  "try_into_iter pf fs dflt self started w =
     (let iter = walk_into_iter pf fs dflt self started w
      in if dei_read_dir_iter iter = None then Inl error_busy else Inr iter)"

section \<open>What the closure returns\<close>

lemma callback_args_sel [simp]:
  "ra_path (callback_args cfg fs opts spec) = spec_path spec"
  "ra_contents_depth (callback_args cfg fs opts spec) = usize_saturating_add (spec_depth spec) 1"
  "ra_follow_links (callback_args cfg fs opts spec) = opt_follow_links opts"
  "ra_sort (callback_args cfg fs opts spec) = opt_sort opts"
  "ra_process_read_dir (callback_args cfg fs opts spec) = opt_process_read_dir opts"
  by (simp_all add: callback_args_def)

text \<open>A directory the closure read: the result of some attempt, in the state that attempt found.\<close>

lemma core_read_dir_callback_cases:
  assumes "core_read_dir_callback cfg fs read opts spec ctx s q = Some (r, s', q')"
  obtains (Beyond) "opt_max_depth opts < usize_saturating_add (spec_depth spec) 1"
      "r = Inr (read_dir_new (spec_client_read_state spec) [])" "s' = s" "q' = q"
  | (Read) ctx1 s1 q1 where "usize_saturating_add (spec_depth spec) 1 \<le> opt_max_depth opts"
      "read (callback_args cfg fs opts spec) ctx1 s1 q1 = Some (r, s', q')"
proof (cases "opt_max_depth opts < usize_saturating_add (spec_depth spec) 1")
  case True
  with assms Beyond show thesis by (simp add: core_read_dir_callback_def)
next
  case False
  let ?op = "read_attempt read (callback_args cfg fs opts spec)"
  obtain k where "retry_transient_io cfg (unat (opt_max_retries opts)) ?op (Some (ctx, s, q)) =
      Some (attempt_result ?op (Some (ctx, s, q)) k)"
    using retry_transient_io_first_final [of "unat (opt_max_retries opts)" cfg ?op "Some (ctx, s, q)"] by auto
  then have "(case Some (?op (op_state ?op k (Some (ctx, s, q)))) of
      Some (r, Some (_, s, q)) \<Rightarrow> Some (r, s, q) | _ \<Rightarrow> None) = Some (r, s', q')"
    using False assms by (simp add: core_read_dir_callback_def attempt_result_def)
  then obtain c where "?op (op_state ?op k (Some (ctx, s, q))) = (r, Some (c, s', q'))"
    by (simp split: option.splits prod.splits)
  then obtain ctx1 s1 q1 where "read (callback_args cfg fs opts spec) ctx1 s1 q1 = Some (r, s', q')"
    by (simp add: read_attempt_def split: option.splits prod.splits)
  with False show thesis by (intro Read) simp_all
qed

text \<open>An attempt that succeeds or fails for good is the only one.\<close>

lemma core_read_dir_callback_first:
  assumes "usize_saturating_add (spec_depth spec) 1 \<le> opt_max_depth opts"
    and "\<exists>s'. read (callback_args cfg fs opts spec) ctx s q = Some (r, s', q')"
    and "\<And>e. r = Inl e \<Longrightarrow> \<not> is_transient_error cfg e"
  shows "\<exists>s'. core_read_dir_callback cfg fs read opts spec ctx s q = Some (r, s', q')"
proof -
  let ?n = "unat (opt_max_retries opts)"
  obtain s' where read: "read (callback_args cfg fs opts spec) ctx s q = Some (r, s', q')"
    using assms(2) ..
  have "[0..<Suc ?n] = 0 # [Suc 0..<Suc ?n]" by (simp add: upt_conv_Cons del: upt_Suc)
  then have "retry_transient_io cfg ?n (read_attempt read (callback_args cfg fs opts spec))
      (Some (ctx, s, q)) = Some (r, Some (None, s', q'))"
    using read assms(3) by (cases r) (auto simp: retry_transient_io_def read_attempt_def simp del: upt_Suc)
  with assms(1) show ?thesis by (simp add: core_read_dir_callback_def)
qed

text \<open>What the closure returns in a state, without and with a streaming context.\<close>

type_synonym 'r recorded = "'r read_dir_spec weighted list"

definition serial_closure :: "target \<Rightarrow> fs_ops \<Rightarrow> ('d, 'r, 's, 'r recorded) reader \<Rightarrow>
    ('p, 'd, 'r) walk_dir_options \<Rightarrow> 's \<Rightarrow> ('d, 'r) read_dir_callback" where
  "serial_closure cfg fs read opts s spec =
     (case core_read_dir_callback cfg fs read opts spec None s [] of
        Some (r, _, _) \<Rightarrow> r | None \<Rightarrow> Inl error_busy)"

definition streaming_closure :: "target \<Rightarrow> fs_ops \<Rightarrow> ('d, 'r, 's, 'r recorded) reader \<Rightarrow>
    ('p, 'd, 'r) walk_dir_options \<Rightarrow> 's \<Rightarrow> ('d, 'r) par_callback" where
  "streaming_closure cfg fs read opts s spec =
     (case core_read_dir_callback cfg fs read opts spec (Some (recording_context (index_path_new []) 0)) s [] of
        Some (r, _, q) \<Rightarrow> (map w_value q, \<lambda>n. map_sum id (\<lambda>rd. rd\<lparr>streamed_child_count := n\<rparr>) r)
      | None \<Rightarrow> ([], \<lambda>n. Inl error_busy))"

text \<open>The options under which streaming agrees with the result: no streaming at all, or no followed links.\<close>

definition streaming_safe :: "('p, 'd, 'r) walk_dir_options \<Rightarrow> bool" where
  "streaming_safe opts \<longleftrightarrow> opt_sort opts \<or> opt_process_read_dir opts \<noteq> None \<or> \<not> opt_follow_links opts"

text \<open>
  \<open>cb\<close> gives, for every specification, what the closure returns in some state of the system: the
  states of two reads need not be related.
\<close>

definition reads_with :: "target \<Rightarrow> fs_ops \<Rightarrow> ('d, 'r, 's, 'r recorded) reader \<Rightarrow>
    ('p, 'd, 'r) walk_dir_options \<Rightarrow> ('d, 'r) read_dir_callback \<Rightarrow> bool" where
  "reads_with cfg fs read opts cb \<longleftrightarrow>
     (\<forall>spec. \<exists>s s'. core_read_dir_callback cfg fs read opts spec None s [] = Some (cb spec, s', []))"

text \<open>The closures beyond the depth limit.\<close>

lemma closures_beyond:
  assumes "opt_max_depth opts < usize_saturating_add (spec_depth spec) 1"
  shows "serial_closure cfg fs read opts s spec = Inr (read_dir_new (spec_client_read_state spec) [])"
    and "streaming_closure cfg fs read opts s spec =
      ([], \<lambda>n. Inr ((read_dir_new (spec_client_read_state spec) [])\<lparr>streamed_child_count := n\<rparr>))"
  using assms by (simp_all add: serial_closure_def streaming_closure_def core_read_dir_callback_def)

lemma streaming_closure_first:
  assumes "usize_saturating_add (spec_depth spec) 1 \<le> opt_max_depth opts"
    and "\<exists>s'. read (callback_args cfg fs opts spec) (Some (recording_context (index_path_new []) 0)) s [] = Some (r, s', q')"
    and "\<And>e. r = Inl e \<Longrightarrow> \<not> is_transient_error cfg e"
  shows "streaming_closure cfg fs read opts s spec =
    (map w_value q', \<lambda>n. map_sum id (\<lambda>rd. rd\<lparr>streamed_child_count := n\<rparr>) r)"
  using core_read_dir_callback_first [where read = read, OF assms] by (auto simp: streaming_closure_def)

section \<open>Depths\<close>

text \<open>What a walk yields lies between the minimum depth and any bound on the depths of its entries.\<close>

definition depth_le :: "usize \<Rightarrow> 'd entry_result list \<Rightarrow> bool" where
  "depth_le n rs \<longleftrightarrow> (\<forall>e. Inr e \<in> set rs \<longrightarrow> de_depth e \<le> n)"

definition depth_le_tree :: "usize \<Rightarrow> ('d, 'r) read_result otree \<Rightarrow> bool" where
  "depth_le_tree n t \<longleftrightarrow> (\<forall>rd. Inr rd \<in> set (preorder t) \<longrightarrow> depth_le n (results_list rd))"

definition depths_within :: "usize \<Rightarrow> usize \<Rightarrow> 'd entry_result list \<Rightarrow> bool" where
  "depths_within m n rs \<longleftrightarrow> (\<forall>e. Inr e \<in> set rs \<longrightarrow> m \<le> de_depth e \<and> de_depth e \<le> n)"

lemma depth_le_Cons [simp]:
  "depth_le n (Inl err # rs) = depth_le n rs"
  "depth_le n (Inr e # rs) \<longleftrightarrow> de_depth e \<le> n \<and> depth_le n rs"
  by (auto simp: depth_le_def)

lemma depth_le_tree_ONode [simp]:
  "depth_le_tree n (ONode (Inl err) ts) = list_all (depth_le_tree n) ts"
  "depth_le_tree n (ONode (Inr rd) ts) \<longleftrightarrow> depth_le n (results_list rd) \<and> list_all (depth_le_tree n) ts"
  by (auto simp: depth_le_tree_def list_all_iff)

lemma depths_within_simps [simp]:
  "depths_within m n []"
  "depths_within m n (Inl err # rs) = depths_within m n rs"
  "depths_within m n (rs @ rs') \<longleftrightarrow> depths_within m n rs \<and> depths_within m n rs'"
  "de_depth e \<le> n \<Longrightarrow> depths_within m n (keep_deep m e)"
  by (auto simp: depths_within_def keep_deep_def)

lemma emit_depths:
  "depth_le n rs \<Longrightarrow> list_all (depth_le_tree n) ts \<Longrightarrow> depths_within m n (emit m rs ts)"
proof (induction m rs ts rule: emit.induct)
  case (3 m x rs ts)
  show ?case
  proof (cases "de_read_children_path x = None")
    case True
    with 3 show ?thesis by simp
  next
    case False
    show ?thesis
    proof (cases ts)
      case Nil
      with False 3 show ?thesis by simp
    next
      case (Cons t us)
      obtain r kids where "t = ONode r kids" by (cases t)
      then show ?thesis using False Cons "3.prems" "3.IH"(3-5) [OF False Cons] by (cases r) auto
    qed
  qed
qed simp_all

lemma has_tree_values: "has_tree cb spec t \<Longrightarrow> v \<in> set (preorder t) \<Longrightarrow> \<exists>spec'. v = cb spec'"
proof (induction t arbitrary: spec)
  case (ONode r ts)
  from ONode.prems(1) obtain us where "ONode r ts = ONode (cb spec) us"
    and us: "list_all2 (has_tree cb) (result_children (cb spec)) us"
    by (rule has_tree_unfold)
  then have r: "r = cb spec" "us = ts" by auto
  with ONode.prems(2) consider "v = cb spec" | t where "t \<in> set ts" "v \<in> set (preorder t)" by auto
  then show ?case
  proof cases
    case (2 t)
    moreover from 2 us r(2) obtain s where "has_tree cb s t"
      by (auto simp: list_all2_conv_all_nth in_set_conv_nth)
    ultimately show ?thesis using ONode.IH by blast
  qed blast
qed

lemma root_results_depth:
  assumes "opt_process_read_dir (wd_options self) = None"
  obtains r where "root_results pf fs dflt self = (opt_root_read_dir_state (wd_options self), [r])"
    and "depth_le 0 [r]"
proof -
  let ?r = "process_dir_entry_result_on pf fs dflt (root_entry pf fs dflt self) (opt_follow_links (wd_options self))"
  have "depth_le 0 [?r]"
  proof (cases "root_entry pf fs dflt self")
    case (Inl err)
    then show ?thesis by (simp add: process_dir_entry_result_on_def depth_le_def)
  next
    case (Inr e)
    then have "de_depth e = 0" by (auto simp: root_entry_def Let_def dest: from_path_depth)
    with Inr process_keeps_depth [of pf fs dflt e] show ?thesis by (fastforce simp: depth_le_def)
  qed
  moreover have "root_results pf fs dflt self = (opt_root_read_dir_state (wd_options self), [?r])"
    using assms by (simp add: root_results_def Let_def)
  ultimately show thesis by (intro that)
qed

section \<open>The contract of a reader\<close>

text \<open>
  How a reader answers in a state that does not change under it: it refuses the directory for good,
  whatever the context, or it has one listing for it. With streaming, it schedules the
  subdirectories of that listing in order and reports their number.
\<close>

definition reads_well :: "target \<Rightarrow> ('d, 'r, 's, 'r recorded) reader \<Rightarrow> ('d, 'r) read_args \<Rightarrow> 's \<Rightarrow> bool" where
  "reads_well cfg read args s \<longleftrightarrow>
     (\<exists>err. \<not> is_transient_error cfg err \<and> (\<forall>ctx q. \<exists>s'. read args ctx s q = Some (Inl err, s', q))) \<or>
     (\<exists>rd. streamed_child_count rd = 0 \<and>
        (\<forall>ctx q. ctx = None \<or> ra_sort args \<or> ra_process_read_dir args \<noteq> None \<longrightarrow>
           (\<exists>s'. read args ctx s q = Some (Inr rd, s', q))) \<and>
        (\<not> ra_sort args \<and> ra_process_read_dir args = None \<longrightarrow>
           (\<forall>p w. \<exists>s'. read args (Some (recording_context p w)) s [] =
              Some (Inr (rd\<lparr>streamed_child_count := length (read_children_specs rd)\<rparr>), s',
                streamed_list p w 0 (read_children_specs rd)))))"

lemma reads_well_refusedI:
  "\<not> is_transient_error cfg err \<Longrightarrow> (\<And>ctx q. \<exists>s'. read args ctx s q = Some (Inl err, s', q)) \<Longrightarrow>
   reads_well cfg read args s"
  unfolding reads_well_def by blast

lemma reads_well_listedI:
  assumes "streamed_child_count rd = 0"
    and "\<And>ctx q. ctx = None \<or> ra_sort args \<or> ra_process_read_dir args \<noteq> None \<Longrightarrow>
      \<exists>s'. read args ctx s q = Some (Inr rd, s', q)"
    and "\<And>p w. \<not> ra_sort args \<Longrightarrow> ra_process_read_dir args = None \<Longrightarrow>
      \<exists>s'. read args (Some (recording_context p w)) s [] =
        Some (Inr (rd\<lparr>streamed_child_count := length (read_children_specs rd)\<rparr>), s',
          streamed_list p w 0 (read_children_specs rd))"
  shows "reads_well cfg read args s"
  unfolding reads_well_def using assms by blast

locale dir_reader =
  fixes cfg :: target and fs :: fs_ops and read :: "('d, 'r, 's, 'r recorded) reader" and stable :: "'s \<Rightarrow> bool"
  assumes read_depth: "read args ctx s q = Some (Inr rd, s', q') \<Longrightarrow> ra_process_read_dir args = None \<Longrightarrow>
      Inr e \<in> set (results_list rd) \<Longrightarrow> de_depth e = ra_contents_depth args"
    and read_stable: "stable s \<Longrightarrow> 0 < ra_contents_depth args \<Longrightarrow>
      ra_sort args \<or> ra_process_read_dir args \<noteq> None \<or> \<not> ra_follow_links args \<Longrightarrow> reads_well cfg read args s"
begin

text \<open>Without a client callback, every entry of a read directory is one level below it.\<close>

lemma reads_with_depth:
  assumes "reads_with cfg fs read opts cb" and "opt_process_read_dir opts = None"
    and "cb spec = Inr rd" and "Inr e \<in> set (results_list rd)"
  shows "de_depth e = usize_saturating_add (spec_depth spec) 1 \<and> de_depth e \<le> opt_max_depth opts"
proof -
  obtain s s' where "core_read_dir_callback cfg fs read opts spec None s [] = Some (Inr rd, s', [])"
    using assms(1,3) unfolding reads_with_def by metis
  then show ?thesis
  proof (cases rule: core_read_dir_callback_cases)
    case Beyond
    then show ?thesis using assms(4) by (simp add: read_dir_new_def)
  next
    case (Read ctx1 s1 q1)
    then show ?thesis using read_depth [OF Read(2) _ assms(4)] assms(2) by simp
  qed
qed

lemma result_children_depth:
  assumes "reads_with cfg fs read opts cb" and "opt_process_read_dir opts = None"
    and "opt_max_depth opts < usize_MAX" and "c \<in> set (result_children (cb spec))"
  shows "spec_depth c = Suc (spec_depth spec) \<and> spec_depth c \<le> opt_max_depth opts"
proof -
  from assms(4) obtain rd e st where "cb spec = Inr rd" "Inr e \<in> set (results_list rd)"
    "read_children_spec e st = Some c"
    by (cases "cb spec")
      (auto simp: result_children_def read_children_specs_def List.map_filter_def child_spec_def
        bind_eq_Some_conv)
  then have "spec_depth c = usize_saturating_add (spec_depth spec) 1" "spec_depth c \<le> opt_max_depth opts"
    using reads_with_depth [OF assms(1,2), of spec rd e] read_children_spec_SomeD [of e st c] by simp_all
  then show ?thesis using assms(3) by (simp add: usize_saturating_add_def min_def split: if_splits)
qed

lemma read_tree_bounded:
  assumes "reads_with cfg fs read opts cb" and "opt_process_read_dir opts = None"
    and "opt_max_depth opts < usize_MAX"
  shows "opt_max_depth opts - spec_depth spec < n \<Longrightarrow> \<exists>t. read_tree n cb spec = Some t"
proof (induction n arbitrary: spec)
  case (Suc n)
  have "\<exists>t. read_tree n cb c = Some t" if "c \<in> set (result_children (cb spec))" for c
    using result_children_depth [OF assms that] Suc by (intro Suc.IH) auto
  then have "map (read_tree n cb) (result_children (cb spec)) =
      map Some (map (\<lambda>c. the (read_tree n cb c)) (result_children (cb spec)))"
    by (auto intro!: map_cong)
  then have "those (map (read_tree n cb) (result_children (cb spec))) =
      Some (map (\<lambda>c. the (read_tree n cb c)) (result_children (cb spec)))"
    unfolding those_Some_iff .
  then show ?case by simp
qed simp

text \<open>A serial walk with a maximum depth ends, within its depths.\<close>

lemma depth_limited:
  assumes "reads_with cfg fs read (wd_options self) cb"
    and "opt_process_read_dir (wd_options self) = None"
    and "opt_max_depth (wd_options self) < usize_MAX" and "opt_parallelism (wd_options self) = Serial"
  shows "\<exists>out. collect (read_dir_iter_next cb queue) (walk_into_iter pf fs dflt self started w) = Some out \<and>
           depths_within (opt_min_depth (wd_options self)) (opt_max_depth (wd_options self)) out"
proof -
  let ?opts = "wd_options self"
  let ?st = "opt_root_read_dir_state ?opts"
  obtain r where r: "root_results pf fs dflt self = (?st, [r])" and d: "depth_le 0 [r]"
    using assms(2) by (rule root_results_depth)
  have iter: "walk_into_iter pf fs dflt self started w =
      dir_entry_iter_new [r] (opt_parallelism ?opts) started (opt_min_depth ?opts) ?st (opt_max_receive_buffer_size ?opts) w"
    using r by (simp add: walk_into_iter_def)
  have d': "depth_le (opt_max_depth ?opts) [r]" using d by (auto simp: depth_le_def)
  have "length (root_specs [r] ?st) \<le> 1" by (simp add: root_specs_def List.map_filter_def)
  then consider "root_specs [r] ?st = []" | spec where "root_specs [r] ?st = [spec]"
    by (cases "root_specs [r] ?st") auto
  then show ?thesis
  proof cases
    case 1
    then show ?thesis
      using emit_depths [OF d', of "[]"] unfolding iter assms(4) by (simp add: serial_run_leaf [OF 1])
  next
    case (2 spec)
    obtain t where "read_tree (Suc (opt_max_depth ?opts)) cb spec = Some t"
      using read_tree_bounded [OF assms(1-3)] by (metis diff_le_self le_imp_less_Suc)
    then have t: "has_tree cb spec t" unfolding has_tree_def by blast
    have "depth_le (opt_max_depth ?opts) (results_list rd)" if "Inr rd \<in> set (preorder t)" for rd
      using has_tree_values [OF t that] reads_with_depth [OF assms(1,2), of _ rd] by (metis depth_le_def)
    then have "depth_le_tree (opt_max_depth ?opts) t" by (simp add: depth_le_tree_def)
    then show ?thesis
      using emit_depths [OF d', of "[t]"] unfolding iter assms(4) by (simp add: serial_run [OF 2 t])
  qed
qed

text \<open>
  The two closures in a stable state: the same listing, and a streaming context sees all
  subdirectories of the result or none.
\<close>

lemma closures_read:
  assumes "stable s" and "streaming_safe opts"
    and "usize_saturating_add (spec_depth spec) 1 \<le> opt_max_depth opts"
  obtains (Refused) err where "serial_closure cfg fs read opts s spec = Inl err"
      "streaming_closure cfg fs read opts s spec = ([], \<lambda>n. Inl err)"
      "\<exists>s'. core_read_dir_callback cfg fs read opts spec None s [] = Some (Inl err, s', [])"
  | (Listed) rd where "serial_closure cfg fs read opts s spec = Inr rd" "streamed_child_count rd = 0"
      "streaming_closure cfg fs read opts s spec =
         (if opt_sort opts \<or> opt_process_read_dir opts \<noteq> None then [] else read_children_specs rd,
          \<lambda>n. Inr (rd\<lparr>streamed_child_count := n\<rparr>))"
      "\<exists>s'. core_read_dir_callback cfg fs read opts spec None s [] = Some (Inr rd, s', [])"
proof -
  let ?args = "callback_args cfg fs opts spec"
  let ?ctx = "Some (recording_context (index_path_new []) 0)"
  note first = core_read_dir_callback_first [where cfg = cfg and fs = fs and read = read, OF assms(3)]
  have "reads_well cfg read ?args s"
    using assms(2) by (intro read_stable [OF assms(1)])
      (auto simp: streaming_safe_def usize_saturating_add_def usize_MAX_def)
  then show thesis
    unfolding reads_well_def
  proof (elim disjE exE conjE)
    fix err
    assume err: "\<not> is_transient_error cfg err" "\<forall>ctx q. \<exists>s'. read ?args ctx s q = Some (Inl err, s', q)"
    have c: "\<exists>s'. core_read_dir_callback cfg fs read opts spec ctx s q = Some (Inl err, s', q)" for ctx q
      using err by (intro first) auto
    show thesis
      using c [of None "[]"] c [of ?ctx "[]"]
      by (intro Refused [of err]) (auto simp: serial_closure_def streaming_closure_def)
  next
    fix rd
    assume rd: "streamed_child_count rd = 0"
      and plain: "\<forall>ctx q. ctx = None \<or> ra_sort ?args \<or> ra_process_read_dir ?args \<noteq> None \<longrightarrow>
        (\<exists>s'. read ?args ctx s q = Some (Inr rd, s', q))"
      and streams: "\<not> ra_sort ?args \<and> ra_process_read_dir ?args = None \<longrightarrow>
        (\<forall>p w. \<exists>s'. read ?args (Some (recording_context p w)) s [] =
          Some (Inr (rd\<lparr>streamed_child_count := length (read_children_specs rd)\<rparr>), s',
            streamed_list p w 0 (read_children_specs rd)))"
    have c: "\<exists>s'. core_read_dir_callback cfg fs read opts spec ctx s q = Some (Inr rd, s', q)"
      if "ctx = None \<or> opt_sort opts \<or> opt_process_read_dir opts \<noteq> None" for ctx q
      using plain that by (intro first) auto
    have st: "\<exists>s'. core_read_dir_callback cfg fs read opts spec ?ctx s [] =
        Some (Inr (rd\<lparr>streamed_child_count := length (read_children_specs rd)\<rparr>), s',
          streamed_list (index_path_new []) 0 0 (read_children_specs rd))"
      if "\<not> opt_sort opts" "opt_process_read_dir opts = None"
      using streams that by (intro first) auto
    show thesis
    proof (rule Listed [OF _ rd])
      show "serial_closure cfg fs read opts s spec = Inr rd"
        using c [of None "[]"] by (auto simp: serial_closure_def)
      show "streaming_closure cfg fs read opts s spec =
         (if opt_sort opts \<or> opt_process_read_dir opts \<noteq> None then [] else read_children_specs rd,
          \<lambda>n. Inr (rd\<lparr>streamed_child_count := n\<rparr>))"
        using c [of ?ctx "[]"] st by (auto simp: streaming_closure_def)
      show "\<exists>s'. core_read_dir_callback cfg fs read opts spec None s [] = Some (Inr rd, s', [])"
        by (rule c) simp
    qed
  qed
qed

lemma closures_agree:
  assumes "stable s" and "streaming_safe opts"
  obtains (Plain) r where "serial_closure cfg fs read opts s spec = r"
      "streaming_closure cfg fs read opts s spec = ([], \<lambda>n. map_sum id (\<lambda>rd. rd\<lparr>streamed_child_count := n\<rparr>) r)"
      "result_streamed_count r = 0"
  | (Streamed) rd where "serial_closure cfg fs read opts s spec = Inr rd"
      "streaming_closure cfg fs read opts s spec =
         (read_children_specs rd, \<lambda>n. Inr (rd\<lparr>streamed_child_count := n\<rparr>))"
proof (cases "opt_max_depth opts < usize_saturating_add (spec_depth spec) 1")
  case True
  from closures_beyond [OF True, of cfg fs read s] show thesis
    by (intro Plain [OF refl]) (simp_all add: result_streamed_count_def read_dir_new_def)
next
  case False
  then have le: "usize_saturating_add (spec_depth spec) 1 \<le> opt_max_depth opts" by simp
  from assms le show thesis
  proof (cases rule: closures_read)
    case (Refused err)
    then show thesis by (intro Plain [OF refl]) (simp_all add: result_streamed_count_def)
  next
    case (Listed rd)
    then show thesis
      by (cases "opt_sort opts \<or> opt_process_read_dir opts \<noteq> None")
        (auto intro: Plain [OF refl] Streamed simp: result_streamed_count_def)
  qed
qed

lemma streaming_closure_ok:
  assumes "stable s" and "streaming_safe opts"
  shows "streams_ok (streaming_closure cfg fs read opts s)"
  unfolding streams_ok_def Let_def full_result_def
proof
  fix spec
  show "result_streamed_count (case streaming_closure cfg fs read opts s spec of (ss, f) \<Rightarrow> f (length ss)) =
      length (fst (streaming_closure cfg fs read opts s spec)) \<and>
    (fst (streaming_closure cfg fs read opts s spec) \<noteq> [] \<longrightarrow> fst (streaming_closure cfg fs read opts s spec) =
      result_children (case streaming_closure cfg fs read opts s spec of (ss, f) \<Rightarrow> f (length ss)))"
    using assms
    by (cases rule: closures_agree [where spec = spec])
      (auto simp: result_streamed_count_def result_children_def split: sum.splits)
qed

lemma closures_same_result:
  assumes "stable s" and "streaming_safe opts"
  shows "full_result (streaming_closure cfg fs read opts s) spec =
    map_sum id (\<lambda>rd. rd\<lparr>streamed_child_count := length (fst (streaming_closure cfg fs read opts s spec))\<rparr>)
      (serial_closure cfg fs read opts s spec)"
  using assms by (cases rule: closures_agree [where spec = spec]) (simp_all add: full_result_def)

lemma serial_closure_reads:
  assumes "stable s" and "streaming_safe opts"
  shows "reads_with cfg fs read opts (serial_closure cfg fs read opts s)"
  unfolding reads_with_def
proof
  fix spec
  have "\<exists>r s'. core_read_dir_callback cfg fs read opts spec None s [] = Some (r, s', [])"
  proof (cases "opt_max_depth opts < usize_saturating_add (spec_depth spec) 1")
    case True
    then show ?thesis by (simp add: core_read_dir_callback_def)
  next
    case False
    then have le: "usize_saturating_add (spec_depth spec) 1 \<le> opt_max_depth opts" by simp
    from assms le show ?thesis by (cases rule: closures_read) blast+
  qed
  then obtain r s' where "core_read_dir_callback cfg fs read opts spec None s [] = Some (r, s', [])" by blast
  then show "\<exists>s0 s'. core_read_dir_callback cfg fs read opts spec None s0 [] =
      Some (serial_closure cfg fs read opts s spec, s', [])"
    by (intro exI [of _ s] exI [of _ s']) (simp add: serial_closure_def)
qed

end

section \<open>Properties\<close>

text \<open>
  \<open>try_into_iter\<close> fails exactly when the pool did not start the walk within the busy timeout
  of its configuration; a serial walk and a walk on a new pool never fail.
\<close>

theorem try_into_iter_busy_iff:
  "try_into_iter pf fs dflt self started w = Inl error_busy \<longleftrightarrow>
     parallelism_timeout (opt_parallelism (wd_options self)) \<noteq> None \<and> \<not> started"
  by (cases "opt_parallelism (wd_options self)")
    (auto simp: try_into_iter_def walk_into_iter_def dir_entry_iter_new_def try_new_def Let_def
      split: prod.splits)

end
