(* ===== verification/Getdents.thy ===== *)
theory Getdents
  imports Metadata Paths
begin

text \<open>
  \<open>core/unix_dir_enum.rs\<close>: enumeration of a directory with \<open>getdents64\<close>. The records the kernel
  writes are parsed byte by byte; a read outside the buffer, undefined behaviour in the source,
  is the value \<open>None\<close>. The byte order is that of the little-endian targets.
\<close>

section \<open>Parsing records\<close>

definition DIRENT_NAME_OFFSET :: nat where "DIRENT_NAME_OFFSET = 19"

text \<open>\<open>size_of::<LinuxDirent64>()\<close>: 8 + 8 + 2 + 1 bytes, padded to the alignment of \<open>u64\<close>.\<close>

definition header_size :: nat where "header_size = 24"

definition DENTS_BUF_SIZE :: nat where "DENTS_BUF_SIZE = 64 * 1024"

text \<open>
  The fields \<open>d_reclen\<close> and \<open>d_type\<close> are read through a reference to a \<open>LinuxDirent64\<close> at the offset.
  The reference covers the whole header, so it is \<open>None\<close> (undefined behaviour) when the header does
  not lie in the buffer.
\<close>

definition dirent_reclen :: "u8 list \<Rightarrow> nat \<Rightarrow> nat option" where
  "dirent_reclen buf offset =
     (if offset + header_size \<le> length buf
      then Some (unat (buf ! (offset + 16)) + 256 * unat (buf ! (offset + 17))) else None)"

definition dirent_type :: "u8 list \<Rightarrow> nat \<Rightarrow> u8 option" where
  "dirent_type buf offset =
     (if offset + header_size \<le> length buf then Some (buf ! (offset + 18)) else None)"

text \<open>\<open>libc::strlen\<close> and the slice it delimits; \<open>None\<close> when no NUL byte follows in the buffer.\<close>

definition c_str :: "u8 list \<Rightarrow> nat \<Rightarrow> u8 list option" where
  "c_str buf i = (if 0 \<in> set (drop i buf) then Some (takeWhile (\<lambda>b. b \<noteq> 0) (drop i buf)) else None)"

function parse_from :: "u8 list \<Rightarrow> nat \<Rightarrow> nat \<Rightarrow> (u8 \<Rightarrow> os_string \<Rightarrow> 's \<Rightarrow> 's) \<Rightarrow> 's \<Rightarrow> 's option" where
  "parse_from buf len offset on_entry s =
     (if offset + header_size \<le> len
      then case dirent_reclen buf offset of
             None \<Rightarrow> None
           | Some reclen \<Rightarrow>
               if reclen = 0 \<or> len < offset + reclen then Some s
               else case c_str buf (offset + DIRENT_NAME_OFFSET) of
                      None \<Rightarrow> None
                    | Some name \<Rightarrow>
                        (case dirent_type buf offset of
                           None \<Rightarrow> None
                         | Some d_type \<Rightarrow>
                             parse_from buf len (offset + reclen) on_entry (on_entry d_type name s))
      else Some s)"
  by pat_completeness auto
termination
  by (relation "measure (\<lambda>(buf, len, offset, f, s). len - offset)") auto

declare parse_from.simps [simp del]

definition parse_dirents :: "u8 list \<Rightarrow> nat \<Rightarrow> (u8 \<Rightarrow> os_string \<Rightarrow> 's \<Rightarrow> 's) \<Rightarrow> 's \<Rightarrow> 's option" where
  "parse_dirents buf len on_entry s = parse_from buf len 0 on_entry s"

section \<open>Enumeration\<close>

text \<open>\<open>statx\<close> is what the io_uring batch prefetched.\<close>

record linux_dir_entry =
  lde_d_type :: u8
  lde_name :: os_string
  lde_statx :: "linux_statx option"

text \<open>The system calls: \<open>open\<close>, \<open>getdents64\<close> into the thread's buffer, \<open>close\<close>.\<close>

record 'w dents_world =
  sys_open :: "path \<Rightarrow> 'w \<Rightarrow> (io_error + int) \<times> 'w"
  sys_getdents64 :: "int \<Rightarrow> u8 list \<Rightarrow> 'w \<Rightarrow> (io_error + nat) \<times> u8 list \<times> 'w"
  sys_close :: "int \<Rightarrow> 'w \<Rightarrow> 'w"

definition open_dir_fd :: "'w dents_world \<Rightarrow> path \<Rightarrow> 'w \<Rightarrow> (io_error + int) \<times> 'w" where
  "open_dir_fd ops p w =
     (case cstring_new p of
        None \<Rightarrow> (Inl (MsgError InvalidInput ''path contains NUL byte''), w)
      | Some cstr \<Rightarrow> sys_open ops cstr w)"

definition is_dot :: "os_string \<Rightarrow> bool" where
  "is_dot name \<longleftrightarrow> name = [46] \<or> name = [46, 46]"

definition owned_entry :: "u8 \<Rightarrow> os_string \<Rightarrow> linux_dir_entry" where
  "owned_entry d_type name = \<lparr>lde_d_type = d_type, lde_name = name, lde_statx = None\<rparr>"

text \<open>The thread's buffer, resized when it is too short; the loop gets its first \<open>DENTS_BUF_SIZE\<close> bytes.\<close>

definition with_tls_buffer :: "u8 list \<Rightarrow> u8 list" where
  "with_tls_buffer buf =
     take DENTS_BUF_SIZE (if length buf < DENTS_BUF_SIZE
       then buf @ replicate (DENTS_BUF_SIZE - length buf) 0 else buf)"

text \<open>
  The loop both enumerations share, over the callback given to \<open>parse_dirents\<close>; the first
  component is the result of the closure, which \<open>?\<close> leaves with an error.
\<close>

partial_function (option) dents_loop :: "'w dents_world \<Rightarrow> int \<Rightarrow> (u8 \<Rightarrow> os_string \<Rightarrow> 's \<Rightarrow> 's) \<Rightarrow>
    u8 list \<Rightarrow> 's \<Rightarrow> 'w \<Rightarrow> ((io_error + unit) \<times> 's \<times> u8 list \<times> 'w) option" where
  "dents_loop ops fd on_entry buf s w =
     (case sys_getdents64 ops fd buf w of
        (Inl e, buf, w) \<Rightarrow> Some (Inl e, s, buf, w)
      | (Inr n, buf, w) \<Rightarrow>
          if n = 0 then Some (Inr (), s, buf, w)
          else case parse_dirents buf n on_entry s of
                 None \<Rightarrow> None
               | Some s \<Rightarrow> dents_loop ops fd on_entry buf s w)"

definition collect_entry :: "u8 \<Rightarrow> os_string \<Rightarrow> linux_dir_entry list \<Rightarrow> linux_dir_entry list" where
  "collect_entry d_type name entries = (if is_dot name then entries else entries @ [owned_entry d_type name])"

definition enumerate_dir_unix :: "'w dents_world \<Rightarrow> path \<Rightarrow> u8 list \<Rightarrow> 'w \<Rightarrow>
    ((io_error + int \<times> linux_dir_entry list) \<times> u8 list \<times> 'w) option" where
  "enumerate_dir_unix ops p buf w =
     (case open_dir_fd ops p w of
        (Inl e, w) \<Rightarrow> Some (Inl e, buf, w)
      | (Inr fd, w) \<Rightarrow>
          (case dents_loop ops fd collect_entry (with_tls_buffer buf) [] w of
             None \<Rightarrow> None
           | Some (Inl e, entries, buf, w) \<Rightarrow> Some (Inl e, buf, sys_close ops fd w)
           | Some (Inr _, entries, buf, w) \<Rightarrow> Some (Inr (fd, entries), buf, w)))"

text \<open>
  The streaming variant: \<open>on_subdir\<close> acts on the state of its caller, which comes back on
  every path, the error path included.
\<close>

definition collect_streaming :: "(linux_dir_entry \<Rightarrow> 's \<Rightarrow> 's) \<Rightarrow> u8 \<Rightarrow> os_string \<Rightarrow>
    linux_dir_entry list \<times> 's \<Rightarrow> linux_dir_entry list \<times> 's" where
  "collect_streaming on_subdir d_type name st =
     (if is_dot name then st
      else let owned = owned_entry d_type name
           in (fst st @ [owned], if d_type = DT_DIR then on_subdir owned (snd st) else snd st))"

definition enumerate_dir_unix_streaming :: "'w dents_world \<Rightarrow> path \<Rightarrow> (linux_dir_entry \<Rightarrow> 's \<Rightarrow> 's) \<Rightarrow>
    u8 list \<Rightarrow> 's \<Rightarrow> 'w \<Rightarrow> ((io_error + int \<times> linux_dir_entry list) \<times> 's \<times> u8 list \<times> 'w) option" where
  "enumerate_dir_unix_streaming ops p on_subdir buf s w =
     (case open_dir_fd ops p w of
        (Inl e, w) \<Rightarrow> Some (Inl e, s, buf, w)
      | (Inr fd, w) \<Rightarrow>
          (case dents_loop ops fd (collect_streaming on_subdir) (with_tls_buffer buf) ([], s) w of
             None \<Rightarrow> None
           | Some (Inl e, (entries, s), buf, w) \<Rightarrow> Some (Inl e, s, buf, sys_close ops fd w)
           | Some (Inr _, (entries, s), buf, w) \<Rightarrow> Some (Inr (fd, entries), s, buf, w)))"

section \<open>The records of the kernel\<close>

text \<open>
  The layout the kernel promises: inode and offset, record length, type, the name with its NUL
  byte, padding to a multiple of eight.
\<close>

record dirent =
  d_ino_off :: "u8 list"
  d_type :: u8
  d_name :: os_string

definition reclen_of :: "os_string \<Rightarrow> nat" where
  "reclen_of name = 8 * ((DIRENT_NAME_OFFSET + length name + 1 + 7) div 8)"

definition encode_dirent :: "dirent \<Rightarrow> u8 list" where
  "encode_dirent d =
     d_ino_off d @
     [of_nat (reclen_of (d_name d) mod 256), of_nat (reclen_of (d_name d) div 256), d_type d] @
     d_name d @ replicate (reclen_of (d_name d) - (DIRENT_NAME_OFFSET + length (d_name d))) 0"

definition dirent_ok :: "dirent \<Rightarrow> bool" where
  "dirent_ok d \<longleftrightarrow> length (d_ino_off d) = 16 \<and> 0 \<notin> set (d_name d) \<and> d_name d \<noteq> [] \<and>
     length (d_name d) \<le> 255"

lemma reclen_bounds:
  "DIRENT_NAME_OFFSET + length name + 1 \<le> reclen_of name"
  "length name \<le> 255 \<Longrightarrow> reclen_of name < 65536"
  "name \<noteq> [] \<Longrightarrow> header_size \<le> reclen_of name"
  by (cases name; simp add: reclen_of_def DIRENT_NAME_OFFSET_def header_size_def)+

lemma length_encode_dirent: "dirent_ok d \<Longrightarrow> length (encode_dirent d) = reclen_of (d_name d)"
  using reclen_bounds(1) [of "d_name d"]
  by (simp add: encode_dirent_def dirent_ok_def DIRENT_NAME_OFFSET_def)

lemma takeWhile_name: "0 \<notin> set name \<Longrightarrow> takeWhile (\<lambda>b. b \<noteq> 0) (name @ 0 # rest) = (name :: u8 list)"
  by (induction name) auto

text \<open>Reading one record back, wherever it stands in the buffer.\<close>

lemma parse_fields:
  assumes "dirent_ok d"
  shows "dirent_reclen (pre @ encode_dirent d @ rest) (length pre) = Some (reclen_of (d_name d))"
    and "dirent_type (pre @ encode_dirent d @ rest) (length pre) = Some (d_type d)"
    and "c_str (pre @ encode_dirent d @ rest) (length pre + DIRENT_NAME_OFFSET) = Some (d_name d)"
proof -
  let ?r = "reclen_of (d_name d)"
  obtain k where k: "?r - (DIRENT_NAME_OFFSET + length (d_name d)) = Suc k"
    using reclen_bounds(1) [of "d_name d"] by (metis Suc_diff_Suc Suc_eq_plus1 Suc_le_lessD)
  have lo: "unat (of_nat (?r mod 256) :: u8) = ?r mod 256"
    by (simp add: unat_of_nat take_bit_eq_mod)
  have "?r div 256 < 256" using assms reclen_bounds(2) [of "d_name d"] by (simp add: dirent_ok_def)
  then have hi: "unat (of_nat (?r div 256) :: u8) = ?r div 256"
    by (simp add: unat_of_nat take_bit_eq_mod)
  have len: "length (d_ino_off d) = 16" using assms by (simp add: dirent_ok_def)
  have inside: "length pre + header_size \<le> length (pre @ encode_dirent d @ rest)"
    using assms length_encode_dirent [of d] reclen_bounds(3) [of "d_name d"] by (simp add: dirent_ok_def)
  have bytes: "(pre @ encode_dirent d @ rest) ! (length pre + 16) = of_nat (?r mod 256)"
    "(pre @ encode_dirent d @ rest) ! (length pre + 17) = of_nat (?r div 256)"
    "(pre @ encode_dirent d @ rest) ! (length pre + 18) = d_type d"
    using len by (simp_all add: encode_dirent_def nth_append)
  show "dirent_reclen (pre @ encode_dirent d @ rest) (length pre) = Some ?r"
    unfolding dirent_reclen_def bytes lo hi using inside by simp
  show "dirent_type (pre @ encode_dirent d @ rest) (length pre) = Some (d_type d)"
    unfolding dirent_type_def bytes using inside by simp
  have "drop (length pre + DIRENT_NAME_OFFSET) (pre @ encode_dirent d @ rest) =
      d_name d @ 0 # replicate k 0 @ rest"
    using len k by (simp add: encode_dirent_def DIRENT_NAME_OFFSET_def)
  then show "c_str (pre @ encode_dirent d @ rest) (length pre + DIRENT_NAME_OFFSET) = Some (d_name d)"
    using assms takeWhile_name [of "d_name d"] by (simp add: c_str_def dirent_ok_def)
qed

lemma parse_from_encode:
  assumes "list_all dirent_ok ds" and "buf = pre @ concat (map encode_dirent ds) @ rest"
    and "len = length pre + length (concat (map encode_dirent ds))"
  shows "parse_from buf len (length pre) on_entry s =
         Some (fold (\<lambda>d. on_entry (d_type d) (d_name d)) ds s)"
  using assms
proof (induction ds arbitrary: pre s)
  case Nil
  then show ?case by (simp add: parse_from.simps header_size_def)
next
  case (Cons d ds)
  let ?rest = "concat (map encode_dirent ds) @ rest"
  have ok: "dirent_ok d" using Cons.prems(1) by simp
  then have ne: "d_name d \<noteq> []" by (simp add: dirent_ok_def)
  have buf: "buf = pre @ encode_dirent d @ ?rest" using Cons.prems(2) by simp
  have len: "len = length pre + reclen_of (d_name d) + length (concat (map encode_dirent ds))"
    using Cons.prems(3) length_encode_dirent [OF ok] by simp
  note f = parse_fields [OF ok, of pre ?rest, folded buf]
  have "parse_from buf len (length pre) on_entry s =
      parse_from buf len (length pre + reclen_of (d_name d)) on_entry (on_entry (d_type d) (d_name d) s)"
    using len f reclen_bounds(3) [OF ne]
    by (subst parse_from.simps) (simp add: header_size_def Let_def)
  also have "length pre + reclen_of (d_name d) = length (pre @ encode_dirent d)"
    by (simp add: length_encode_dirent [OF ok])
  also have "parse_from buf len (length (pre @ encode_dirent d)) on_entry (on_entry (d_type d) (d_name d) s) =
      Some (fold (\<lambda>d. on_entry (d_type d) (d_name d)) ds (on_entry (d_type d) (d_name d) s))"
    using Cons.prems buf len length_encode_dirent [OF ok] by (intro Cons.IH) simp_all
  finally show ?case by simp
qed

section \<open>Enumeration delivers the directory\<close>

text \<open>
  What the kernel promises for an open directory: each call writes whole records to the front
  of the buffer and reports their length, until it reports the end (\<open>Inr ()\<close>) or fails.
\<close>

fun serves :: "'w dents_world \<Rightarrow> int \<Rightarrow> 'w \<Rightarrow> dirent list list \<Rightarrow> io_error + unit \<Rightarrow> bool" where
  "serves ops fd w [] final \<longleftrightarrow>
     (\<forall>buf. \<exists>buf' w'. sys_getdents64 ops fd buf w = (map_sum id (\<lambda>_. 0) final, buf', w'))"
| "serves ops fd w (ds # chunks) final \<longleftrightarrow>
     ds \<noteq> [] \<and> list_all dirent_ok ds \<and>
     (\<forall>buf. \<exists>rest w'. sys_getdents64 ops fd buf w =
          (Inr (length (concat (map encode_dirent ds))), concat (map encode_dirent ds) @ rest, w') \<and>
        serves ops fd w' chunks final)"

lemma parse_dirents_encode:
  "list_all dirent_ok ds \<Longrightarrow>
   parse_dirents (concat (map encode_dirent ds) @ rest) (length (concat (map encode_dirent ds))) on_entry s =
     Some (fold (\<lambda>d. on_entry (d_type d) (d_name d)) ds s)"
  using parse_from_encode [of ds "concat (map encode_dirent ds) @ rest" "[]" rest _ on_entry s]
  by (simp add: parse_dirents_def)

lemma dents_loop_serves:
  "serves ops fd w chunks final \<Longrightarrow>
   \<exists>buf' w'. dents_loop ops fd on_entry buf s w =
     Some (final, fold (\<lambda>d. on_entry (d_type d) (d_name d)) (concat chunks) s, buf', w')"
proof (induction chunks arbitrary: w buf s)
  case Nil
  from Nil.prems [unfolded serves.simps, THEN spec, of buf] obtain buf' w'
    where "sys_getdents64 ops fd buf w = (map_sum id (\<lambda>_. 0) final, buf', w')" by blast
  then show ?case by (cases final) (simp_all add: dents_loop.simps [of ops fd on_entry buf s w])
next
  case (Cons ds chunks)
  let ?enc = "concat (map encode_dirent ds)"
  from Cons.prems [unfolded serves.simps] obtain rest w' where get: "sys_getdents64 ops fd buf w = (Inr (length ?enc), ?enc @ rest, w')"
    and "serves ops fd w' chunks final" and ok: "list_all dirent_ok ds" and ne: "ds \<noteq> []"
    by blast
  obtain d ds' where "ds = d # ds'" using ne by (cases ds) auto
  then have "length ?enc \<noteq> 0"
    using ok length_encode_dirent [of d] reclen_bounds(1) [of "d_name d"] by auto
  with get parse_dirents_encode [OF ok, of rest on_entry s]
  have "dents_loop ops fd on_entry buf s w =
      dents_loop ops fd on_entry (?enc @ rest) (fold (\<lambda>d. on_entry (d_type d) (d_name d)) ds s) w'"
    by (auto simp: dents_loop.simps [of ops fd on_entry buf s w])
  with Cons.IH [OF \<open>serves ops fd w' chunks final\<close>] show ?case by simp
qed

text \<open>The entries of a directory: all records but \<open>.\<close> and \<open>..\<close>, in the order of the kernel.\<close>

definition listed :: "dirent list \<Rightarrow> linux_dir_entry list" where
  "listed ds = map (\<lambda>d. owned_entry (d_type d) (d_name d)) (filter (\<lambda>d. \<not> is_dot (d_name d)) ds)"

lemma fold_collect_entry:
  "fold (\<lambda>d. collect_entry (d_type d) (d_name d)) ds entries = entries @ listed ds"
  by (induction ds arbitrary: entries) (simp_all add: collect_entry_def listed_def)

lemma fold_collect_streaming:
  "fold (\<lambda>d. collect_streaming f (d_type d) (d_name d)) ds (entries, s) =
     (entries @ listed ds, fold f (filter (\<lambda>e. lde_d_type e = DT_DIR) (listed ds)) s)"
  by (induction ds arbitrary: entries s)
    (simp_all add: collect_streaming_def listed_def owned_entry_def Let_def)

lemma enumerate_dir_unix_serves:
  assumes "open_dir_fd ops p w = (Inr fd, w1)" and "serves ops fd w1 chunks final"
  shows "\<exists>buf' w'. enumerate_dir_unix ops p buf w =
           Some (map_sum id (\<lambda>_. (fd, listed (concat chunks))) final, buf', w')"
proof -
  obtain buf' w' where "dents_loop ops fd collect_entry (with_tls_buffer buf) [] w1 =
      Some (final, listed (concat chunks), buf', w')"
    using dents_loop_serves [OF assms(2), of collect_entry "with_tls_buffer buf" "[]"] by (auto simp: fold_collect_entry)
  with assms(1) show ?thesis by (cases final) (simp_all add: enumerate_dir_unix_def)
qed

lemma enumerate_dir_unix_streaming_serves:
  assumes "open_dir_fd ops p w = (Inr fd, w1)" and "serves ops fd w1 chunks final"
  shows "\<exists>buf' w'. enumerate_dir_unix_streaming ops p on_subdir buf s w =
           Some (map_sum id (\<lambda>_. (fd, listed (concat chunks))) final,
             fold on_subdir (filter (\<lambda>e. lde_d_type e = DT_DIR) (listed (concat chunks))) s, buf', w')"
proof -
  obtain buf' w' where "dents_loop ops fd (collect_streaming on_subdir) (with_tls_buffer buf) ([], s) w1 =
      Some (final, (listed (concat chunks),
        fold on_subdir (filter (\<lambda>e. lde_d_type e = DT_DIR) (listed (concat chunks))) s), buf', w')"
    using dents_loop_serves [OF assms(2), of "collect_streaming on_subdir" "with_tls_buffer buf" "([], s)"]
    by (auto simp: fold_collect_streaming)
  with assms(1) show ?thesis by (cases final) (simp_all add: enumerate_dir_unix_streaming_def)
qed

section \<open>A kernel for the witnesses\<close>

text \<open>A kernel whose state is the list of chunks still to be delivered.\<close>

definition chunk_kernel :: "dirent list list dents_world" where
  "chunk_kernel =
     \<lparr>sys_open = (\<lambda>p w. (Inr 3, w)),
      sys_getdents64 = (\<lambda>fd buf w. case w of
          [] \<Rightarrow> (Inr 0, buf, [])
        | ds # chunks \<Rightarrow>
            (Inr (length (concat (map encode_dirent ds))),
             concat (map encode_dirent ds) @ drop (length (concat (map encode_dirent ds))) buf, chunks)),
      sys_close = (\<lambda>fd w. w)\<rparr>"

lemma chunk_kernel_serves:
  "list_all (\<lambda>ds. ds \<noteq> [] \<and> list_all dirent_ok ds) chunks \<Longrightarrow> serves chunk_kernel fd chunks chunks (Inr ())"
  by (induction chunks) (auto simp: chunk_kernel_def)

definition example_dirent :: "u8 \<Rightarrow> os_string \<Rightarrow> dirent" where
  "example_dirent t name = \<lparr>d_ino_off = replicate 16 7, d_type = t, d_name = name\<rparr>"

definition example_chunks :: "dirent list list" where
  "example_chunks =
     [[example_dirent DT_DIR [46], example_dirent DT_DIR [46, 46], example_dirent DT_DIR [97]],
      [example_dirent DT_REG [98, 46, 99]]]"

section \<open>Properties\<close>

text \<open>
  C16. Parsing round trip and memory safety: over a buffer that starts with the encoding of any
  sequence of directory records, whatever follows them, \<open>parse_dirents\<close> never reads outside the
  buffer and calls its callback for exactly these records, with their types and names, in order.
  The buffer may end with the last record: a header that is read past it gives \<open>None\<close>.
\<close>

theorem parse_dirents_roundtrip:
  assumes "list_all dirent_ok ds"
  shows "parse_dirents (concat (map encode_dirent ds) @ rest) (length (concat (map encode_dirent ds)))
           (\<lambda>t n es. es @ [(t, n)]) [] = Some (map (\<lambda>d. (d_type d, d_name d)) ds)"
proof -
  have "fold (\<lambda>d es. es @ [(d_type d, d_name d)]) ds acc = acc @ map (\<lambda>d. (d_type d, d_name d)) ds" for acc
    by (induction ds arbitrary: acc) simp_all
  then show ?thesis by (simp add: parse_dirents_encode [OF assms])
qed

theorem parse_dirents_roundtrip_witness:
  "parse_dirents (concat (map encode_dirent (concat example_chunks)) @ [0])
     (length (concat (map encode_dirent (concat example_chunks)))) (\<lambda>t n es. es @ [(t, n)]) [] =
   Some [(DT_DIR, [46]), (DT_DIR, [46, 46]), (DT_DIR, [97]), (DT_REG, [98, 46, 99])]"
proof -
  have ok: "list_all dirent_ok (concat example_chunks)" by code_simp
  from parse_dirents_roundtrip [OF ok, of "[0]"] show ?thesis
    by (simp add: example_chunks_def example_dirent_def)
qed

text \<open>
  C17. Enumeration: for a directory that the kernel delivers in any number of chunks, the
  enumeration ends and returns every entry but \<open>.\<close> and \<open>..\<close>, in order; the streaming variant
  returns the same and calls \<open>on_subdir\<close> for exactly the entries of type directory, in order.
  An error of the kernel is returned, after the callbacks for the chunks before it.
\<close>

theorem enumeration_delivers_directory:
  assumes "open_dir_fd ops p w = (Inr fd, w1)" and "serves ops fd w1 chunks final"
  shows "(\<exists>buf' w'. enumerate_dir_unix ops p buf w =
           Some (map_sum id (\<lambda>_. (fd, listed (concat chunks))) final, buf', w')) \<and>
         (\<exists>buf' w'. enumerate_dir_unix_streaming ops p on_subdir buf s w =
           Some (map_sum id (\<lambda>_. (fd, listed (concat chunks))) final,
             fold on_subdir (filter (\<lambda>e. lde_d_type e = DT_DIR) (listed (concat chunks))) s, buf', w'))"
  by (intro conjI enumerate_dir_unix_serves [OF assms] enumerate_dir_unix_streaming_serves [OF assms])

theorem enumeration_delivers_directory_witness:
  "map lde_name (listed (concat example_chunks)) = [[97], [98, 46, 99]] \<and>
   (\<exists>buf' w'. enumerate_dir_unix chunk_kernel [114] [] example_chunks =
      Some (Inr (3, listed (concat example_chunks)), buf', w')) \<and>
   (\<exists>buf' w'. enumerate_dir_unix_streaming chunk_kernel [114] (\<lambda>e n. n + 1) [] (0 :: nat) example_chunks =
      Some (Inr (3, listed (concat example_chunks)), 1, buf', w'))"
proof -
  have names: "map lde_name (listed (concat example_chunks)) = [[97], [98, 46, 99]]"
    and count: "fold (\<lambda>e n. n + 1) (filter (\<lambda>e. lde_d_type e = DT_DIR) (listed (concat example_chunks))) (0 :: nat) = 1"
    by code_simp+
  have "serves chunk_kernel 3 example_chunks example_chunks (Inr ())"
    by (rule chunk_kernel_serves) code_simp
  moreover have "open_dir_fd chunk_kernel [114] example_chunks = (Inr 3, example_chunks)"
    by (simp add: open_dir_fd_def chunk_kernel_def cstring_new_def)
  ultimately show ?thesis
    using enumeration_delivers_directory
      [of chunk_kernel "[114]" example_chunks 3 example_chunks example_chunks "Inr ()" "[]" "\<lambda>e n. n + 1" "0 :: nat"]
      names count by simp
qed

end
