(* ===== verification/Io_Uring.thy ===== *)
theory Io_Uring
  imports Getdents
begin

text \<open>
  \<open>core/linux_io_uring.rs\<close>: prefetching \<open>statx\<close> for a directory's entries in batches. The ring is
  third-party code over the kernel: building it, pushing a submission and waiting are the
  operations of \<open>ring_ops\<close>. What completes is a list of entries \<open>(user_data, result)\<close> in any
  order; \<open>statx_of\<close> is what the kernel writes into a submission's buffer.
\<close>

definition RING_SIZE :: nat where "RING_SIZE = 256"
definition MIN_BATCH_FOR_IO_URING :: nat where "MIN_BATCH_FOR_IO_URING = 8"

text \<open>
  \<open>ring_build\<close> may fail; a ring built for \<open>n\<close> entries has room for \<open>ring_depth n\<close> submissions;
  \<open>submit_and_wait\<close> takes the names in submission order and gives the completions.
\<close>

record ring_ops =
  ring_probe :: bool
  ring_build :: "nat \<Rightarrow> io_error + unit"
  ring_depth :: "nat \<Rightarrow> nat"
  submit_and_wait :: "os_string list \<Rightarrow> io_error + (nat \<times> int) list"
  statx_of :: "os_string \<Rightarrow> linux_statx"

text \<open>\<open>io_uring_enabled\<close>: the probe's result, kept in a \<open>OnceLock\<close> (\<open>None\<close> before the first call).\<close>

definition io_uring_enabled :: "ring_ops \<Rightarrow> bool option \<Rightarrow> bool \<times> bool option" where
  "io_uring_enabled ops once =
     (case once of Some b \<Rightarrow> (b, once) | None \<Rightarrow> (ring_probe ops, Some (ring_probe ops)))"

text \<open>
  The submission loop: names with a NUL byte are passed over, a full queue ends it. The result
  pairs each submission's entry index (\<open>local_to_entry\<close>) with its name.
\<close>

fun submit_loop :: "nat \<Rightarrow> nat \<Rightarrow> linux_dir_entry list \<Rightarrow> nat \<Rightarrow> (nat \<times> os_string) list" where
  "submit_loop depth entry_idx [] submitted = []"
| "submit_loop depth entry_idx (entry # rest) submitted =
     (case cstring_new (lde_name entry) of
        None \<Rightarrow> submit_loop depth (entry_idx + 1) rest submitted
      | Some cstr \<Rightarrow>
          if submitted < depth
          then (entry_idx, cstr) # submit_loop depth (entry_idx + 1) rest (submitted + 1)
          else [])"

definition reap :: "ring_ops \<Rightarrow> (nat \<times> os_string) list \<Rightarrow> nat \<times> int \<Rightarrow> linux_dir_entry list \<Rightarrow>
    linux_dir_entry list" where
  "reap ops subs cqe entries =
     (case cqe of (local_idx, result) \<Rightarrow>
        if length subs \<le> local_idx then entries
        else if result = 0
        then let stx = statx_of ops (snd (subs ! local_idx)); entry_idx = fst (subs ! local_idx)
             in entries[entry_idx := (entries ! entry_idx)\<lparr>lde_statx := Some stx\<rparr>]
        else entries)"

text \<open>
  One batch. The model hands over names and takes back values, so it has no buffers with addresses: that
  the function returns, and frees its names and buffers, while submissions may still be in flight
  (when \<open>submit_and_wait\<close> fails after it submitted something, or returns before everything is complete) is
  not modelled. \<open>ring_ok\<close> below assumes that a successful wait saw every completion.
\<close>

definition batch_statx_chunk :: "ring_ops \<Rightarrow> linux_dir_entry list \<Rightarrow>
    (io_error + unit) \<times> linux_dir_entry list" where
  "batch_statx_chunk ops entries =
     (let n = length entries in
      case ring_build ops n of
        Inl e \<Rightarrow> (Inl e, entries)
      | Inr _ \<Rightarrow>
          let subs = submit_loop (ring_depth ops n) 0 entries 0 in
          if subs = [] then (Inr (), entries)
          else case submit_and_wait ops (map snd subs) of
                 Inl e \<Rightarrow> (Inl e, entries)
               | Inr cqes \<Rightarrow> (Inr (), fold (reap ops subs) cqes entries))"

text \<open>The loop over chunks of \<open>RING_SIZE\<close>; \<open>done\<close> is the part before \<open>chunk_start\<close>.\<close>

function batch_chunks :: "ring_ops \<Rightarrow> linux_dir_entry list \<Rightarrow> linux_dir_entry list \<Rightarrow>
    (io_error + unit) \<times> linux_dir_entry list" where
  "batch_chunks ops done_entries entries =
     (if entries = [] then (Inr (), done_entries)
      else case batch_statx_chunk ops (take RING_SIZE entries) of
             (Inl e, chunk) \<Rightarrow> (Inl e, done_entries @ chunk @ drop RING_SIZE entries)
           | (Inr _, chunk) \<Rightarrow> batch_chunks ops (done_entries @ chunk) (drop RING_SIZE entries))"
  by pat_completeness auto
termination
  by (relation "measure (\<lambda>(ops, d, entries). length entries)") (auto simp: RING_SIZE_def)

declare batch_chunks.simps [simp del]

definition batch_statx_via_io_uring :: "ring_ops \<Rightarrow> linux_dir_entry list \<Rightarrow>
    (io_error + unit) \<times> linux_dir_entry list" where
  "batch_statx_via_io_uring ops entries =
     (if entries = [] then (Inr (), entries) else batch_chunks ops [] entries)"

section \<open>What a batch does\<close>

text \<open>
  The kernel's side: a queue as deep as asked for, and one completion per submission, in any
  order, successful exactly for the names that \<open>statx\<close> can resolve (\<open>ok\<close>).
\<close>

definition ring_ok :: "ring_ops \<Rightarrow> (os_string \<Rightarrow> bool) \<Rightarrow> bool" where
  "ring_ok ops ok \<longleftrightarrow>
     (\<forall>n. n \<le> ring_depth ops n) \<and>
     (\<forall>names cqes. submit_and_wait ops names = Inr cqes \<longrightarrow>
        (\<forall>i r. (i, r) \<in> set cqes \<longrightarrow> i < length names \<and> (r = 0 \<longleftrightarrow> ok (names ! i))) \<and>
        (\<forall>i < length names. \<exists>r. (i, r) \<in> set cqes))"

lemma ring_okD:
  assumes "ring_ok ops ok" and "submit_and_wait ops names = Inr cqes"
  shows "(i, r) \<in> set cqes \<Longrightarrow> i < length names \<and> (r = 0 \<longleftrightarrow> ok (names ! i))"
    and "i < length names \<Longrightarrow> \<exists>r. (i, r) \<in> set cqes"
  using assms unfolding ring_ok_def by blast+

text \<open>The reference: every resolvable entry gets its own \<open>statx\<close>, the others stay as they are.\<close>

definition prefetched :: "ring_ops \<Rightarrow> (os_string \<Rightarrow> bool) \<Rightarrow> linux_dir_entry \<Rightarrow> linux_dir_entry" where
  "prefetched ops ok e =
     (if 0 \<notin> set (lde_name e) \<and> ok (lde_name e)
      then e\<lparr>lde_statx := Some (statx_of ops (lde_name e))\<rparr> else e)"

lemma submit_loop_eq:
  "submitted + length entries \<le> depth \<Longrightarrow>
   submit_loop depth k entries submitted =
     map (\<lambda>(i, e). (i, lde_name e)) (filter (\<lambda>(i, e). 0 \<notin> set (lde_name e)) (enumerate k entries))"
  by (induction entries arbitrary: k submitted) (auto simp: cstring_new_def)

text \<open>The invariant of reaping: a position holds its entry, prefetched once its completion was seen.\<close>

lemma fold_reap:
  assumes "\<And>i r. (i, r) \<in> set cqes \<Longrightarrow> i < length subs"
    and "\<And>i. i < length subs \<Longrightarrow> fst (subs ! i) < length entries \<and> snd (subs ! i) = lde_name (entries ! fst (subs ! i))"
  shows "length (fold (reap ops subs) cqes entries) = length entries \<and>
         (\<forall>j < length entries. fold (reap ops subs) cqes entries ! j =
            (if \<exists>i. (i, 0) \<in> set cqes \<and> fst (subs ! i) = j
             then (entries ! j)\<lparr>lde_statx := Some (statx_of ops (lde_name (entries ! j)))\<rparr> else entries ! j))"
  using assms(1)
proof (induction cqes rule: rev_induct)
  case Nil
  then show ?case by simp
next
  case (snoc c cqes)
  obtain i r where c: "c = (i, r)" by (cases c)
  have "i < length subs" if "(i, r) \<in> set cqes" for i r using snoc.prems [of i r] that by simp
  note IH = snoc.IH [OF this]
  have i: "i < length subs" using snoc.prems [of i r] c by simp
  note s = assms(2) [OF i]
  show ?case
  proof (cases "r = 0")
    case True
    then show ?thesis using IH i s by (auto simp: c reap_def Let_def nth_list_update)
  next
    case False
    then show ?thesis using IH by (auto simp: c reap_def)
  qed
qed

text \<open>What a chunk submits: the index and name of every entry whose name is a C string.\<close>

definition submissions :: "linux_dir_entry list \<Rightarrow> (nat \<times> os_string) list" where
  "submissions entries =
     map (\<lambda>(i, e). (i, lde_name e)) (filter (\<lambda>(i, e). 0 \<notin> set (lde_name e)) (enumerate 0 entries))"

lemma submissions_iff:
  "(j, name) \<in> set (submissions entries) \<longleftrightarrow>
   j < length entries \<and> name = lde_name (entries ! j) \<and> 0 \<notin> set name"
  by (auto simp: submissions_def in_set_enumerate_eq image_iff)

lemma submissions_nth:
  assumes "i < length (submissions entries)"
  shows "fst (submissions entries ! i) < length entries"
    and "snd (submissions entries ! i) = lde_name (entries ! fst (submissions entries ! i))"
    and "0 \<notin> set (snd (submissions entries ! i))"
proof -
  obtain j name where jn: "submissions entries ! i = (j, name)" by fastforce
  then have "(j, name) \<in> set (submissions entries)" using assms nth_mem by metis
  with jn show "fst (submissions entries ! i) < length entries"
    "snd (submissions entries ! i) = lde_name (entries ! fst (submissions entries ! i))"
    "0 \<notin> set (snd (submissions entries ! i))"
    by (auto simp: submissions_iff)
qed

text \<open>The completions that report success are exactly those of the entries that can be resolved.\<close>

lemma completed_iff:
  assumes c1: "\<And>i r. (i, r) \<in> set cqes \<Longrightarrow>
      i < length (submissions entries) \<and> (r = 0 \<longleftrightarrow> ok (snd (submissions entries ! i)))"
    and c2: "\<And>i. i < length (submissions entries) \<Longrightarrow> \<exists>r. (i, r) \<in> set cqes" and "j < length entries"
  shows "(\<exists>i. (i, 0) \<in> set cqes \<and> fst (submissions entries ! i) = j) \<longleftrightarrow>
    0 \<notin> set (lde_name (entries ! j)) \<and> ok (lde_name (entries ! j))"
proof
  assume "\<exists>i. (i, 0) \<in> set cqes \<and> fst (submissions entries ! i) = j"
  then obtain i where "(i, 0) \<in> set cqes" "fst (submissions entries ! i) = j" by blast
  with c1 [of i 0] submissions_nth [of i entries]
  show "0 \<notin> set (lde_name (entries ! j)) \<and> ok (lde_name (entries ! j))" by auto
next
  assume j: "0 \<notin> set (lde_name (entries ! j)) \<and> ok (lde_name (entries ! j))"
  then have "(j, lde_name (entries ! j)) \<in> set (submissions entries)" using assms(3) by (simp add: submissions_iff)
  then obtain i where i: "i < length (submissions entries)" "submissions entries ! i = (j, lde_name (entries ! j))"
    by (metis in_set_conv_nth)
  with c2 [of i] obtain r where "(i, r) \<in> set cqes" by blast
  then show "\<exists>i. (i, 0) \<in> set cqes \<and> fst (submissions entries ! i) = j" using c1 [of i r] i j by auto
qed

lemma batch_statx_chunk_prefetches:
  assumes ok: "ring_ok ops ok" and ret: "batch_statx_chunk ops entries = (Inr (), entries')"
  shows "entries' = map (prefetched ops ok) entries"
proof -
  have build: "ring_build ops (length entries) = Inr ()"
    using ret by (auto simp: batch_statx_chunk_def Let_def split: sum.splits)
  have subs: "submit_loop (ring_depth ops (length entries)) 0 entries 0 = submissions entries"
    unfolding submissions_def using ok by (intro submit_loop_eq) (simp add: ring_ok_def)
  show ?thesis
  proof (cases "submissions entries = []")
    case True
    have "0 \<in> set (lde_name e)" if "e \<in> set entries" for e
      using that True submissions_iff [of _ _ entries] by (auto simp: in_set_conv_nth)
    then have "map (prefetched ops ok) entries = entries"
      by (intro map_idI) (simp add: prefetched_def)
    then show ?thesis using ret build subs True by (simp add: batch_statx_chunk_def)
  next
    case False
    then obtain cqes where w: "submit_and_wait ops (map snd (submissions entries)) = Inr cqes"
      and e': "entries' = fold (reap ops (submissions entries)) cqes entries"
      using ret build subs by (auto simp: batch_statx_chunk_def Let_def split: sum.splits if_splits)
    have c1: "\<And>i r. (i, r) \<in> set cqes \<Longrightarrow>
        i < length (submissions entries) \<and> (r = 0 \<longleftrightarrow> ok (snd (submissions entries ! i)))"
      and c2: "\<And>i. i < length (submissions entries) \<Longrightarrow> \<exists>r. (i, r) \<in> set cqes"
      using ring_okD [OF ok w] by simp_all
    note f = fold_reap [of cqes "submissions entries" entries ops] c1 submissions_nth [of _ entries]
    show ?thesis
    proof (rule nth_equalityI)
      show "length entries' = length (map (prefetched ops ok) entries)" using f e' by simp
      fix j assume "j < length entries'"
      then have j: "j < length entries" using f e' by simp
      then show "entries' ! j = map (prefetched ops ok) entries ! j"
        using f e' completed_iff [OF c1 c2 j] by (simp add: prefetched_def)
    qed
  qed
qed

text \<open>A chunk that fails leaves its entries as they were.\<close>

lemma batch_statx_chunk_fails:
  "batch_statx_chunk ops entries = (Inl e, entries') \<Longrightarrow> entries' = entries"
  by (auto simp: batch_statx_chunk_def Let_def split: sum.splits if_splits)

lemma batch_chunks_prefetches:
  assumes "ring_ok ops ok"
  shows "\<exists>k. snd (batch_chunks ops done_entries entries) =
           done_entries @ map (prefetched ops ok) (take k entries) @ drop k entries \<and>
         (fst (batch_chunks ops done_entries entries) = Inr () \<longrightarrow> length entries \<le> k)"
  using assms
proof (induction ops done_entries entries rule: batch_chunks.induct)
  case (1 ops done_entries entries)
  note eq = batch_chunks.simps [of ops done_entries entries]
  show ?case
  proof (cases "entries = []")
    case True
    then show ?thesis by (simp add: batch_chunks.simps [of ops done_entries "[]"])
  next
    case False
    obtain r chunk where c: "batch_statx_chunk ops (take RING_SIZE entries) = (r, chunk)" by fastforce
    show ?thesis
    proof (cases r)
      case (Inl e)
      then have "chunk = take RING_SIZE entries" using c batch_statx_chunk_fails by blast
      then show ?thesis using False c Inl by (intro exI [of _ 0]) (simp add: eq)
    next
      case (Inr u)
      then have chunk: "chunk = map (prefetched ops ok) (take RING_SIZE entries)"
        using c batch_statx_chunk_prefetches [OF "1.prems"] by simp
      obtain k where k: "snd (batch_chunks ops (done_entries @ chunk) (drop RING_SIZE entries)) =
          (done_entries @ chunk) @ map (prefetched ops ok) (take k (drop RING_SIZE entries)) @
            drop k (drop RING_SIZE entries)"
        "fst (batch_chunks ops (done_entries @ chunk) (drop RING_SIZE entries)) = Inr () \<longrightarrow>
          length (drop RING_SIZE entries) \<le> k"
        using "1.IH" [OF False c [symmetric] Inr "1.prems"] by blast
      have "take (RING_SIZE + k) entries = take RING_SIZE entries @ take k (drop RING_SIZE entries)"
        by (rule take_add)
      then show ?thesis
        using False c Inr k chunk by (intro exI [of _ "RING_SIZE + k"]) (auto simp: eq add.commute)
    qed
  qed
qed

section \<open>Properties\<close>

definition example_ring :: ring_ops where
  "example_ring =
     \<lparr>ring_probe = True, ring_build = (\<lambda>n. Inr ()), ring_depth = (\<lambda>n. n),
      submit_and_wait = (\<lambda>names. Inr (rev (map (\<lambda>i. (i, if hd (names ! i) = 120 then - 2 else 0))
                                                  [0..<length names]))),
      statx_of = (\<lambda>name.
        \<lparr>stx_mask = 0, stx_mode = 0, stx_ino = ucast (hd name), stx_size = 0, stx_nlink = 0,
         stx_blksize = 0, stx_blocks = 0, stx_uid = 0, stx_gid = 0, stx_dev_major = 0, stx_dev_minor = 0,
         stx_rdev_major = 0, stx_rdev_minor = 0, stx_btime = \<lparr>tv_sec = 0, tv_nsec = 0\<rparr>,
         stx_ctime = \<lparr>tv_sec = 0, tv_nsec = 0\<rparr>, stx_mtime = \<lparr>tv_sec = 0, tv_nsec = 0\<rparr>,
         stx_atime = \<lparr>tv_sec = 0, tv_nsec = 0\<rparr>\<rparr>)\<rparr>"

text \<open>
  C22. A batch wires every completion to the entry it was submitted for, whatever the order of
  completion and however names with NUL bytes are passed over: there is a point in the list up
  to which each entry is prefetched with the \<open>statx\<close> of its own name exactly when it can be
  resolved, and from which on the entries are unchanged; when the batch reports success, that
  point is the end.
\<close>

theorem batch_statx_prefetches:
  assumes "ring_ok ops ok" and "batch_statx_via_io_uring ops entries = (r, entries')"
  shows "\<exists>k. entries' = map (prefetched ops ok) (take k entries) @ drop k entries \<and>
             (r = Inr () \<longrightarrow> length entries \<le> k)"
proof (cases "entries = []")
  case True
  then show ?thesis using assms(2) by (simp add: batch_statx_via_io_uring_def)
next
  case False
  then show ?thesis
    using batch_chunks_prefetches [OF assms(1), of "[]" entries] assms(2)
    by (simp add: batch_statx_via_io_uring_def)
qed

theorem batch_statx_prefetches_witness:
  "map (\<lambda>e. map_option stx_ino (lde_statx e)) (snd (batch_statx_via_io_uring example_ring
      [owned_entry DT_REG [97], owned_entry DT_REG [120], owned_entry DT_REG [0], owned_entry DT_REG [98]])) =
   [Some 97, None, None, Some 98]"
proof -
  let ?es = "[owned_entry DT_REG [97], owned_entry DT_REG [120], owned_entry DT_REG [0], owned_entry DT_REG [98]]"
  have ok: "ring_ok example_ring (\<lambda>name. hd name \<noteq> 120)"
    by (auto simp: ring_ok_def example_ring_def image_iff)
  obtain r es where b: "batch_statx_via_io_uring example_ring ?es = (r, es)" by fastforce
  have "fst (batch_statx_via_io_uring example_ring ?es) = Inr ()" by code_simp
  with b have "r = Inr ()" by simp
  with batch_statx_prefetches [OF ok b]
  have "es = map (prefetched example_ring (\<lambda>name. hd name \<noteq> 120)) ?es" by auto
  then show ?thesis unfolding b by (simp add: prefetched_def owned_entry_def example_ring_def)
qed

end
