(* ===== verification/Fs_Detect.thy ===== *)
theory Fs_Detect
  imports Errors Paths
begin

text \<open>
  \<open>core/fs_detect.rs\<close>: which strategy fetches the metadata of a directory's entries, by file
  system type and measured latency, with a cache per device. The system calls are the record
  \<open>statfs_ops\<close>; a timed \<open>fstatat\<close> gives its outcome and its duration in microseconds.
\<close>

datatype io_strategy = LocalSync | NetworkAsync | SkipNlinks

record statfs_ops =
  sys_stat_dev :: "path \<Rightarrow> io_error + u64"
  sys_statfs :: "path \<Rightarrow> io_error + int"
  sys_fstatat_timed :: "int \<Rightarrow> path \<Rightarrow> (io_error + unit) \<times> nat"

definition SMB_SUPER_MAGIC :: int where "SMB_SUPER_MAGIC = 0x517B"
definition NFS_SUPER_MAGIC :: int where "NFS_SUPER_MAGIC = 0x6969"
definition CIFS_MAGIC_NUMBER :: int where "CIFS_MAGIC_NUMBER = 0xFF534D42"
definition SMB2_SUPER_MAGIC :: int where "SMB2_SUPER_MAGIC = 0xFE534D42"
definition EXT4_SUPER_MAGIC :: int where "EXT4_SUPER_MAGIC = 0xEF53"
definition XFS_SUPER_MAGIC :: int where "XFS_SUPER_MAGIC = 0x58465342"
definition BTRFS_SUPER_MAGIC :: int where "BTRFS_SUPER_MAGIC = 0x9123683E"
definition TMPFS_MAGIC :: int where "TMPFS_MAGIC = 0x01021994"
definition OVERLAYFS_SUPER_MAGIC :: int where "OVERLAYFS_SUPER_MAGIC = 0x794C7630"
definition MSDOS_SUPER_MAGIC :: int where "MSDOS_SUPER_MAGIC = 0x4D44"
definition EXFAT_SUPER_MAGIC :: int where "EXFAT_SUPER_MAGIC = 0x2011BAB0"

lemmas fs_magics = SMB_SUPER_MAGIC_def NFS_SUPER_MAGIC_def CIFS_MAGIC_NUMBER_def
  SMB2_SUPER_MAGIC_def EXT4_SUPER_MAGIC_def XFS_SUPER_MAGIC_def BTRFS_SUPER_MAGIC_def
  TMPFS_MAGIC_def OVERLAYFS_SUPER_MAGIC_def MSDOS_SUPER_MAGIC_def EXFAT_SUPER_MAGIC_def

definition strategy_from_ftype :: "int \<Rightarrow> io_strategy" where
  "strategy_from_ftype f_type =
     (if f_type \<in> {SMB_SUPER_MAGIC, NFS_SUPER_MAGIC, CIFS_MAGIC_NUMBER, SMB2_SUPER_MAGIC}
      then NetworkAsync
      else if f_type \<in> {MSDOS_SUPER_MAGIC, EXFAT_SUPER_MAGIC} then SkipNlinks
      else if f_type \<in> {EXT4_SUPER_MAGIC, XFS_SUPER_MAGIC, BTRFS_SUPER_MAGIC, TMPFS_MAGIC,
                        OVERLAYFS_SUPER_MAGIC} then LocalSync
      else LocalSync)"

definition LATENCY_THRESHOLD :: nat where "LATENCY_THRESHOLD = 1000"

text \<open>
  The probe. The duration is a fixed function of the path, so two probes of one path agree in the
  model; the system may answer differently each time.
\<close>

definition probe_latency :: "statfs_ops \<Rightarrow> path \<Rightarrow> io_strategy" where
  "probe_latency ops p =
     (case cstring_new p of
        None \<Rightarrow> LocalSync
      | Some cstr \<Rightarrow>
          (case sys_fstatat_timed ops (- 1) cstr of (rc, elapsed) \<Rightarrow>
             (case rc of
                Inl e \<Rightarrow> LocalSync
              | Inr _ \<Rightarrow> if LATENCY_THRESHOLD \<le> elapsed then NetworkAsync else LocalSync)))"

definition statfs_strategy :: "statfs_ops \<Rightarrow> path \<Rightarrow> io_strategy option" where
  "statfs_strategy ops p =
     Option.bind (cstring_new p) (\<lambda>cstr.
       case sys_statfs ops cstr of
         Inl e \<Rightarrow> None
       | Inr f_type \<Rightarrow>
           let preliminary = strategy_from_ftype f_type in
           if preliminary \<noteq> NetworkAsync then Some preliminary else Some (probe_latency ops p))"

definition stat_dev :: "statfs_ops \<Rightarrow> path \<Rightarrow> io_error + u64" where
  "stat_dev ops p =
     (case cstring_new p of
        None \<Rightarrow> Inl (MsgError InvalidInput ''path contains NUL byte'')
      | Some cstr \<Rightarrow> sys_stat_dev ops cstr)"

type_synonym io_strategy_cache = "u64 \<rightharpoonup> io_strategy"

definition io_strategy_cache_new :: io_strategy_cache where
  "io_strategy_cache_new = Map.empty"

definition detect :: "statfs_ops \<Rightarrow> path \<Rightarrow> io_strategy_cache \<Rightarrow> io_strategy \<times> io_strategy_cache" where
  "detect ops p cache =
     (case stat_dev ops p of
        Inl e \<Rightarrow> (LocalSync, cache)
      | Inr dev \<Rightarrow>
          (case cache dev of
             Some s \<Rightarrow> (s, cache)
           | None \<Rightarrow>
               let strategy = (case statfs_strategy ops p of Some s \<Rightarrow> s | None \<Rightarrow> LocalSync)
               in (strategy, cache(dev \<mapsto> strategy))))"

section \<open>The cache\<close>

text \<open>What a cache built from \<open>detect\<close> calls holds: strategies that some path of the device gave.\<close>

inductive cache_built :: "statfs_ops \<Rightarrow> io_strategy_cache \<Rightarrow> bool" for ops where
  new: "cache_built ops io_strategy_cache_new"
| detect: "cache_built ops cache \<Longrightarrow> cache_built ops (snd (detect ops p cache))"


lemma statfs_strategy_network:
  "statfs_strategy ops p = Some NetworkAsync \<Longrightarrow>
   \<exists>f_type. sys_statfs ops p = Inr f_type \<and> strategy_from_ftype f_type = NetworkAsync \<and>
     probe_latency ops p = NetworkAsync"
  by (cases "sys_statfs ops p")
    (auto simp: statfs_strategy_def cstring_new_def Let_def split: if_splits)

lemma probe_latency_network:
  "probe_latency ops p = NetworkAsync \<Longrightarrow>
   \<exists>elapsed. sys_fstatat_timed ops (- 1) p = (Inr (), elapsed) \<and> LATENCY_THRESHOLD \<le> elapsed"
  by (auto simp: probe_latency_def cstring_new_def split: if_splits prod.splits sum.splits)

section \<open>Properties\<close>


definition example_statfs :: statfs_ops where
  "example_statfs =
     \<lparr>sys_stat_dev = (\<lambda>p. Inr 5), sys_statfs = (\<lambda>p. Inr NFS_SUPER_MAGIC),
      sys_fstatat_timed = (\<lambda>fd p. if path_is_absolute p then (Inr (), 4000)
                                  else (Inl (OsError 9 OtherKind), 1))\<rparr>"


text \<open>
  The latency probe passes the descriptor \<open>-1\<close>, which the source takes for \<open>AT_FDCWD\<close> (that is
  \<open>-100\<close>): where the kernel rejects a relative path with an invalid descriptor, a relative path
  never selects the batched strategy, whatever the latency of the file system.
\<close>

theorem relative_path_never_batched:
  assumes "\<And>q. \<not> path_is_absolute q \<Longrightarrow> \<exists>e t. sys_fstatat_timed ops (- 1) q = (Inl e, t)"
    and "\<not> path_is_absolute p" and "cache_built ops cache"
    and "\<And>dev. stat_dev ops p = Inr dev \<Longrightarrow> cache dev = None"
  shows "fst (detect ops p cache) \<noteq> NetworkAsync"
proof
  assume net: "fst (detect ops p cache) = NetworkAsync"
  then have "statfs_strategy ops p = Some NetworkAsync"
    using assms(4) by (auto simp: detect_def Let_def split: sum.splits option.splits)
  then obtain elapsed where "sys_fstatat_timed ops (- 1) p = (Inr (), elapsed)"
    using statfs_strategy_network probe_latency_network by blast
  with assms(1) [OF assms(2)] show False by auto
qed

theorem relative_path_never_batched_witness:
  "fst (detect example_statfs [97] io_strategy_cache_new) \<noteq> NetworkAsync"
  by (rule relative_path_never_batched [OF _ _ cache_built.new])
    (auto simp: example_statfs_def path_is_absolute_def sep_byte_def io_strategy_cache_new_def)

end
