(* ===== verification/Read_Dir_Linux.thy ===== *)
theory Read_Dir_Linux
  imports Reader Io_Uring Fs_Detect
begin

text \<open>
  Reading one directory on Linux (\<open>lib.rs\<close>): building entries from \<open>getdents64\<close> records with
  \<open>statx\<close> or \<open>fstatat\<close>, streaming of subdirectories while the enumeration runs, and the fallback over \<open>std::fs::read_dir\<close>.
\<close>

section \<open>The operating system\<close>

text \<open>
  The calls of one directory read: enumeration, \<open>statx\<close> and \<open>fstatat\<close> relative to the directory,
  strategy detection, the ring for that directory, and \<open>std::fs\<close>; \<open>lo_read_dir\<close> is \<open>fs::read_dir\<close> with
  the results of its iterator. \<open>lo_gnu\<close>, \<open>lo_uring_arch\<close> and \<open>lo_legacy\<close> are the compile-time
  conditions of the \<open>statx\<close> and io_uring code and of the fallback reader.
\<close>

record 'k linux_ops =
  lo_dents :: "'k dents_world"
  lo_statx :: "int \<Rightarrow> os_string \<Rightarrow> io_error + linux_statx"
  lo_fstatat :: "int \<Rightarrow> os_string \<Rightarrow> io_error + linux_stat"
  lo_statfs :: statfs_ops
  lo_ring :: "int \<Rightarrow> ring_ops"
  lo_fs :: fs_ops
  lo_read_dir :: "path \<Rightarrow> io_error + (io_error + fs_dir_entry) list"
  lo_gnu :: bool
  lo_uring_arch :: bool
  lo_legacy :: bool

text \<open>What a read changes: the kernel, the thread's buffer and strategy cache, the ring probe.\<close>

record 'k linux_state =
  ls_kernel :: 'k
  ls_buf :: "u8 list"
  ls_cache :: io_strategy_cache
  ls_once :: "bool option"

definition statx_metadata :: "'k linux_ops \<Rightarrow> int \<Rightarrow> os_string \<Rightarrow> io_error + linux_statx" where
  "statx_metadata ops dirfd name =
     (case cstring_new name of
        None \<Rightarrow> Inl (MsgError InvalidInput ''name contains NUL byte'')
      | Some cstr \<Rightarrow> lo_statx ops dirfd cstr)"

definition fstatat_metadata :: "'k linux_ops \<Rightarrow> int \<Rightarrow> os_string \<Rightarrow> io_error + linux_stat" where
  "fstatat_metadata ops dirfd name =
     (case cstring_new name of
        None \<Rightarrow> Inl (MsgError InvalidInput ''name contains NUL byte'')
      | Some cstr \<Rightarrow> lo_fstatat ops dirfd cstr)"

section \<open>Building an entry\<close>

text \<open>The three variables that \<open>make_dir_entry_linux\<close> fills.\<close>

record entry_fill =
  ef_file_type :: file_type
  ef_metadata :: "meta_data option"
  ef_metadata_ext :: "meta_data_ext option"

definition fill_from_statx :: "u8 \<Rightarrow> bool \<Rightarrow> bool \<Rightarrow> linux_statx \<Rightarrow> entry_fill \<Rightarrow> entry_fill" where
  "fill_from_statx dt read_metadata read_metadata_ext statx fill =
     \<lparr>ef_file_type = (if dt = DT_UNKNOWN then file_type_from_mode (ucast (stx_mode statx))
                      else ef_file_type fill),
      ef_metadata = (if read_metadata then Some (statx_meta_data statx) else ef_metadata fill),
      ef_metadata_ext = (if read_metadata_ext then Some (UnixExt (statx_meta_data_ext statx))
                         else ef_metadata_ext fill)\<rparr>"

definition fill_from_stat :: "u8 \<Rightarrow> bool \<Rightarrow> bool \<Rightarrow> linux_stat \<Rightarrow> entry_fill \<Rightarrow> entry_fill" where
  "fill_from_stat dt read_metadata read_metadata_ext stat fill =
     \<lparr>ef_file_type = (if dt = DT_UNKNOWN then file_type_from_mode (st_mode stat)
                      else ef_file_type fill),
      ef_metadata = (if read_metadata then Some (stat_meta_data stat) else ef_metadata fill),
      ef_metadata_ext = (if read_metadata_ext then Some (UnixExt (stat_meta_data_ext stat))
                         else ef_metadata_ext fill)\<rparr>"

text \<open>\<open>try_fill_from_statx\<close> takes the prefetched value; on targets without \<open>statx\<close> it is a stub.\<close>

definition try_fill_from_statx :: "bool \<Rightarrow> linux_dir_entry \<Rightarrow> bool \<Rightarrow> bool \<Rightarrow> entry_fill \<Rightarrow> bool \<times> entry_fill" where
  "try_fill_from_statx gnu info read_metadata read_metadata_ext fill =
     (if gnu
      then case lde_statx info of
             None \<Rightarrow> (False, fill)
           | Some statx \<Rightarrow>
               (True, fill_from_statx (lde_d_type info) read_metadata read_metadata_ext statx fill)
      else (False, fill))"

definition linux_entry_fill :: "'k linux_ops \<Rightarrow> linux_dir_entry \<Rightarrow> bool \<Rightarrow> bool \<Rightarrow> int \<Rightarrow> entry_fill" where
  "linux_entry_fill ops info read_metadata read_metadata_ext dirfd =
     (let need_stat = (read_metadata \<or> read_metadata_ext \<or> lde_d_type info = DT_UNKNOWN);
          file_type = (case file_type_from_dtype (lde_d_type info) of
                         Some ft \<Rightarrow> ft | None \<Rightarrow> file_type_from_mode S_IFREG);
          fill = \<lparr>ef_file_type = file_type, ef_metadata = None, ef_metadata_ext = None\<rparr>;
          (statx_filled, fill) = try_fill_from_statx (lo_gnu ops) info read_metadata read_metadata_ext fill
      in if \<not> statx_filled \<and> need_stat
         then case (if lo_gnu ops then result_ok (statx_metadata ops dirfd (lde_name info)) else None) of
                Some statx \<Rightarrow>
                  fill_from_statx (lde_d_type info) read_metadata read_metadata_ext statx fill
              | None \<Rightarrow>
                  (case fstatat_metadata ops dirfd (lde_name info) of
                     Inr stat \<Rightarrow>
                       fill_from_stat (lde_d_type info) read_metadata read_metadata_ext stat fill
                   | Inl _ \<Rightarrow> fill)
         else fill)"

definition make_dir_entry_linux :: "'k linux_ops \<Rightarrow> 'd \<Rightarrow> linux_dir_entry \<Rightarrow> usize \<Rightarrow> path \<Rightarrow> bool \<Rightarrow> bool \<Rightarrow>
    int \<Rightarrow> ancestor_identity list option \<Rightarrow> error + 'd dir_entry" where
  "make_dir_entry_linux ops dflt info depth parent_path read_metadata read_metadata_ext dirfd ancestors =
     (let fill = linux_entry_fill ops info read_metadata read_metadata_ext dirfd
      in from_raw dflt depth parent_path (ef_metadata fill) (ef_metadata_ext fill) (lde_name info)
           (ef_file_type fill) ancestors)"

section \<open>Reading a directory with \<open>getdents64\<close>\<close>

text \<open>The closure given to \<open>enumerate_dir_unix_streaming\<close>, over \<open>streamed_count\<close> and the queue.\<close>

definition stream_subdir :: "('d, 'r) read_args \<Rightarrow> ('q, 'r) streaming_context \<Rightarrow> linux_dir_entry \<Rightarrow>
    usize \<times> 'q \<Rightarrow> usize \<times> 'q" where
  "stream_subdir args ctx info st =
     (case st of (streamed_count, q) \<Rightarrow>
      case sc_is_stopped ctx q of (stopped, q) \<Rightarrow>
      if stopped then (streamed_count, q)
      else if lde_d_type info \<noteq> DT_DIR then (streamed_count, q)
      else if ra_skip_hidden args \<and> is_hidden (lde_name info) then (streamed_count, q)
      else
        let spec = \<lparr>spec_depth = ra_contents_depth args,
                    spec_path = path_join (ra_path args) (lde_name info),
                    spec_client_read_state = ra_client_read_state args,
                    spec_follow_link_ancestors = ra_ancestors args\<rparr>;
            weight = usize_saturating_add (sc_parent_weight ctx) 1;
            child_index_path = index_path_push (sc_index_path ctx) streamed_count
        in case sc_schedule ctx (weighted_new spec child_index_path weight) q of (scheduled, q) \<Rightarrow>
           if scheduled then (streamed_count + 1, q) else (streamed_count, q))"

text \<open>The io_uring block: prefetch for network mounts, large enough directories and a need to stat.\<close>

definition prefetch_statx :: "'k linux_ops \<Rightarrow> ('d, 'r) read_args \<Rightarrow> int \<Rightarrow> linux_dir_entry list \<Rightarrow>
    'k linux_state \<Rightarrow> linux_dir_entry list \<times> 'k linux_state" where
  "prefetch_statx ops args dirfd entries s =
     (if lo_uring_arch ops
      then case detect (lo_statfs ops) (ra_path args) (ls_cache s) of (strategy, cache) \<Rightarrow>
           let s = s\<lparr>ls_cache := cache\<rparr>;
               need_meta_or_type = (ra_read_metadata args \<or> ra_read_metadata_ext args \<or>
                 list_ex (\<lambda>e. lde_d_type e = DT_UNKNOWN) entries)
           in if strategy = NetworkAsync
              then case io_uring_enabled (lo_ring ops dirfd) (ls_once s) of (enabled, once) \<Rightarrow>
                   let s = s\<lparr>ls_once := once\<rparr> in
                   if enabled \<and> need_meta_or_type \<and> MIN_BATCH_FOR_IO_URING \<le> length entries
                   then (snd (batch_statx_via_io_uring (lo_ring ops dirfd) entries), s)
                   else (entries, s)
              else (entries, s)
      else (entries, s))"

definition linux_entry_results :: "'k linux_ops \<Rightarrow> 'd \<Rightarrow> ('d, 'r) read_args \<Rightarrow> int \<Rightarrow>
    linux_dir_entry list \<Rightarrow> (error + 'd dir_entry) list" where
  "linux_entry_results ops dflt args dirfd entries =
     List.map_filter (\<lambda>info.
       if ra_skip_hidden args \<and> is_hidden (lde_name info) then None
       else case make_dir_entry_linux ops dflt info (ra_contents_depth args) (ra_path args)
                   (ra_read_metadata args) (ra_read_metadata_ext args) dirfd (ra_ancestors args) of
              Inr e \<Rightarrow> Some (process_dir_entry_result (lo_fs ops) dflt (Inr e) (ra_follow_links args))
            | Inl err \<Rightarrow> Some (Inl err)) entries"

text \<open>From the enumerated entries to the result; the directory is closed on the way.\<close>

definition linux_read_dir :: "'k linux_ops \<Rightarrow> 'd \<Rightarrow> ('d, 'r) read_args \<Rightarrow> int \<Rightarrow> linux_dir_entry list \<Rightarrow>
    usize \<Rightarrow> 'k linux_state \<Rightarrow> ('d, 'r) read_dir \<times> 'k linux_state" where
  "linux_read_dir ops dflt args dirfd entries streamed s =
     (case prefetch_statx ops args dirfd entries s of (entries, s) \<Rightarrow>
      let results = linux_entry_results ops dflt args dirfd entries;
          s = s\<lparr>ls_kernel := sys_close (lo_dents ops) dirfd (ls_kernel s)\<rparr>;
          (client_read_state, results) = finish_results args results
      in ((read_dir_new client_read_state results)\<lparr>streamed_child_count := streamed\<rparr>, s))"

definition read_dir_linux_via_getdents :: "'k linux_ops \<Rightarrow> 'd \<Rightarrow> ('d, 'r) read_args \<Rightarrow>
    ('q, 'r) streaming_context option \<Rightarrow> 'k linux_state \<Rightarrow> 'q \<Rightarrow>
    ((error + ('d, 'r) read_dir) \<times> 'k linux_state \<times> 'q) option" where
  "read_dir_linux_via_getdents ops dflt args streaming_ctx s q =
     (let use_streaming = (streaming_ctx \<noteq> None \<and> \<not> ra_sort args \<and> ra_process_read_dir args = None);
          enumerated =
            (case (if use_streaming then streaming_ctx else None) of
               Some ctx \<Rightarrow>
                 enumerate_dir_unix_streaming (lo_dents ops) (ra_path args) (stream_subdir args ctx)
                   (ls_buf s) (0, q) (ls_kernel s)
             | None \<Rightarrow>
                 map_option (\<lambda>(r, buf, k). (r, (0, q), buf, k))
                   (enumerate_dir_unix (lo_dents ops) (ra_path args) (ls_buf s) (ls_kernel s)))
      in case enumerated of
           None \<Rightarrow> None
         | Some (entries_result, (streamed, q), buf, k) \<Rightarrow>
             let s = s\<lparr>ls_buf := buf, ls_kernel := k\<rparr> in
             (case entries_result of
                Inl err \<Rightarrow>
                  if 0 < streamed
                  then Some (Inr ((read_dir_new (ra_client_read_state args)
                                     [Inl (error_from_path 0 (ra_path args) err)])
                                  \<lparr>streamed_child_count := streamed\<rparr>), s, q)
                  else Some (Inl (error_from_path 0 (ra_path args) err), s, q)
              | Inr (dirfd, entries) \<Rightarrow>
                  (case linux_read_dir ops dflt args dirfd entries streamed s of
                     (read_dir, s) \<Rightarrow> Some (Inr read_dir, s, q))))"

section \<open>Reading a directory with \<open>std::fs::read_dir\<close>\<close>

definition legacy_entry :: "fs_ops \<Rightarrow> 'd \<Rightarrow> ('d, 'r) read_args \<Rightarrow> io_error + fs_dir_entry \<Rightarrow>
    (error + 'd dir_entry) option" where
  "legacy_entry fs dflt args dir_entry_result =
     (case dir_entry_result of
        Inl err \<Rightarrow> Some (Inl (error_from_io (ra_contents_depth args) err))
      | Inr fs_dir_entry \<Rightarrow>
          let metadata =
            (if ra_read_metadata args
             then case fde_metadata fs_dir_entry of
                    Inr md \<Rightarrow> Inr (Some (from_fs_metadata Unix md),
                      if ra_read_metadata_ext args then Some (get_metadata_ext Unix md) else None)
                  | Inl _ \<Rightarrow>
                      (case fde_file_type fs_dir_entry of
                         Inr ft \<Rightarrow> Inr (Some
                           \<lparr>md_is_dir = ft_is_dir ft, md_is_file = ft_is_file ft,
                            md_is_symlink = ft_is_symlink ft, md_size = 0, md_created = None,
                            md_changed = None, md_modified = None, md_accessed = None,
                            md_permissions = None\<rparr>, None)
                       | Inl _ \<Rightarrow> Inl (error_from_path (ra_contents_depth args)
                           (fde_path fs_dir_entry) (MsgError OtherKind ''failed to read metadata'')))
             else if ra_read_metadata_ext args
             then case fs_symlink_metadata fs (fde_path fs_dir_entry) of
                    Inr md \<Rightarrow> Inr (None, Some (get_metadata_ext Unix md))
                  | Inl _ \<Rightarrow> Inr (None, None)
             else Inr (None, None))
          in case metadata of
               Inl err \<Rightarrow> Some (Inl err)
             | Inr (md, md_ext) \<Rightarrow>
                 (case from_entry dflt (ra_contents_depth args) (ra_path args) md md_ext fs_dir_entry
                         (ra_ancestors args) of
                    Inl err \<Rightarrow> Some (Inl err)
                  | Inr dir_entry \<Rightarrow>
                      if ra_skip_hidden args \<and> is_hidden (de_file_name dir_entry) then None
                      else Some (process_dir_entry_result fs dflt (Inr dir_entry) (ra_follow_links args))))"

definition read_dir_unix_fs_legacy :: "fs_ops \<Rightarrow> (path \<Rightarrow> io_error + (io_error + fs_dir_entry) list) \<Rightarrow> 'd \<Rightarrow>
    ('d, 'r) read_args \<Rightarrow> error + ('d, 'r) read_dir" where
  "read_dir_unix_fs_legacy fs fs_read_dir dflt args =
     (case fs_read_dir (ra_path args) of
        Inl err \<Rightarrow> Inl (error_from_path 0 (ra_path args) err)
      | Inr listing \<Rightarrow>
          let results = List.map_filter (legacy_entry fs dflt args) listing;
              (client_read_state, results) = finish_results args results
          in Inr (read_dir_new client_read_state results))"

text \<open>The dispatcher: the build decides which of the two readers runs.\<close>

definition read_dir_unix :: "'k linux_ops \<Rightarrow> 'd \<Rightarrow> ('d, 'r) read_args \<Rightarrow>
    ('q, 'r) streaming_context option \<Rightarrow> 'k linux_state \<Rightarrow> 'q \<Rightarrow>
    ((error + ('d, 'r) read_dir) \<times> 'k linux_state \<times> 'q) option" where
  "read_dir_unix ops dflt args streaming_ctx s q =
     (if lo_legacy ops
      then Some (read_dir_unix_fs_legacy (lo_fs ops) (lo_read_dir ops) dflt args, s, q)
      else read_dir_linux_via_getdents ops dflt args streaming_ctx s q)"

section \<open>Entries\<close>

text \<open>
  Building an entry never fails; its type agrees with the record's type when the file system
  reports one, and prefetching changes nothing about its name and type.
\<close>

lemma linux_entry_fill_type:
  assumes "lde_d_type info \<noteq> DT_UNKNOWN"
  shows "ft_is_dir (ef_file_type (linux_entry_fill ops info rm rx dirfd)) \<longleftrightarrow> lde_d_type info = DT_DIR"
    and "ft_is_symlink (ef_file_type (linux_entry_fill ops info rm rx dirfd)) \<longleftrightarrow> lde_d_type info = DT_LNK"
proof -
  have ft: "ef_file_type (linux_entry_fill ops info rm rx dirfd) =
      (case file_type_from_dtype (lde_d_type info) of Some ft \<Rightarrow> ft | None \<Rightarrow> file_type_from_mode S_IFREG)"
    using assms
    by (auto simp: linux_entry_fill_def try_fill_from_statx_def fill_from_statx_def fill_from_stat_def
        Let_def split: option.split sum.split)
  have reg: "\<not> ft_is_dir (file_type_from_mode S_IFREG)" "\<not> ft_is_symlink (file_type_from_mode S_IFREG)"
    by code_simp+
  have dt: "file_type_from_dtype DT_DIR \<noteq> None" "file_type_from_dtype DT_LNK \<noteq> None" by code_simp+
  show "ft_is_dir (ef_file_type (linux_entry_fill ops info rm rx dirfd)) \<longleftrightarrow> lde_d_type info = DT_DIR"
    using reg dt file_type_from_dtype_is_dir by (auto simp: ft split: option.splits)
  show "ft_is_symlink (ef_file_type (linux_entry_fill ops info rm rx dirfd)) \<longleftrightarrow> lde_d_type info = DT_LNK"
    using reg dt file_type_from_dtype_is_symlink by (auto simp: ft split: option.splits)
qed

lemma make_dir_entry_linux_Inr:
  "\<exists>e. make_dir_entry_linux ops dflt info depth p rm rx dirfd as = Inr e \<and>
     de_depth e = depth \<and> de_file_name e = lde_name info \<and> de_follow_link_ancestors e = as \<and>
     de_file_type e = ef_file_type (linux_entry_fill ops info rm rx dirfd) \<and>
     de_read_children_path e =
       (if ft_is_dir (de_file_type e) then Some (path_join p (lde_name info)) else None)"
  by (simp add: make_dir_entry_linux_def Let_def from_raw_on_def)

definition lde_key :: "linux_dir_entry \<Rightarrow> u8 \<times> os_string" where
  "lde_key e = (lde_d_type e, lde_name e)"

lemma reap_keeps: "map lde_key (reap ops subs cqe entries) = map lde_key entries"
proof -
  have "map lde_key (entries[i := (entries ! i)\<lparr>lde_statx := x\<rparr>]) = map lde_key entries" for i x
    by (cases "i < length entries") (simp_all add: map_update lde_key_def list_update_same_conv list_update_beyond)
  then show ?thesis by (cases cqe) (simp add: reap_def Let_def)
qed

lemma batch_statx_chunk_keeps: "map lde_key (snd (batch_statx_chunk ops entries)) = map lde_key entries"
proof -
  have "map lde_key (fold (reap ops subs) cqes es) = map lde_key es" for subs cqes es
    by (induction cqes arbitrary: es) (simp_all add: reap_keeps)
  then show ?thesis by (simp add: batch_statx_chunk_def Let_def split: sum.split)
qed

lemma batch_chunks_keeps:
  "map lde_key (snd (batch_chunks ops d entries)) = map lde_key d @ map lde_key entries"
proof (induction ops d entries rule: batch_chunks.induct)
  case (1 ops d entries)
  obtain r chunk where c: "batch_statx_chunk ops (take RING_SIZE entries) = (r, chunk)" by fastforce
  have key: "map lde_key chunk = map lde_key (take RING_SIZE entries)"
    using batch_statx_chunk_keeps [of ops "take RING_SIZE entries"] c by simp
  have td: "map lde_key (take RING_SIZE entries) @ map lde_key (drop RING_SIZE entries) = map lde_key entries"
    by (metis append_take_drop_id map_append)
  show ?case
  proof (cases "entries = []")
    case True
    then show ?thesis by (simp add: batch_chunks.simps [of ops d "[]"])
  next
    case False
    then show ?thesis
      using 1 [OF False c [symmetric]] c key td
      by (cases r) (simp_all add: batch_chunks.simps [of ops d entries])
  qed
qed

lemma prefetch_statx_keeps: "map lde_key (fst (prefetch_statx ops args fd entries s)) = map lde_key entries"
  using batch_chunks_keeps [of "lo_ring ops fd" "[]" entries]
  by (auto simp: prefetch_statx_def batch_statx_via_io_uring_def Let_def split: prod.splits)

section \<open>Subdirectories\<close>

text \<open>The subdirectories of a listing that are descended into, and their specifications.\<close>

definition visible_dirs :: "('d, 'r) read_args \<Rightarrow> linux_dir_entry list \<Rightarrow> linux_dir_entry list" where
  "visible_dirs args entries =
     filter (\<lambda>e. lde_d_type e = DT_DIR \<and> \<not> (ra_skip_hidden args \<and> is_hidden (lde_name e))) entries"

definition subdir_spec :: "('d, 'r) read_args \<Rightarrow> linux_dir_entry \<Rightarrow> 'r read_dir_spec" where
  "subdir_spec args e =
     \<lparr>spec_depth = ra_contents_depth args, spec_path = path_join (ra_path args) (lde_name e),
      spec_client_read_state = ra_client_read_state args, spec_follow_link_ancestors = ra_ancestors args\<rparr>"

lemma fold_stream_subdir:
  "fold (stream_subdir args (recording_context p w)) es (n, q) =
     (n + length (visible_dirs args es),
      q @ streamed_list p w n (map (subdir_spec args) (visible_dirs args es)))"
  unfolding visible_dirs_def
  by (rule fold_streams)
    (simp add: stream_subdir_def recording_context_def subdir_spec_def index_path_push_def adding_def
      index_path_new_def Let_def)

lemma visible_dirs_of_dirs:
  "visible_dirs args (filter (\<lambda>e. lde_d_type e = DT_DIR) es) = visible_dirs args es"
  by (auto simp: visible_dirs_def intro: filter_cong)

text \<open>The children of the entries built from a listing whose types are all known.\<close>

lemma linux_entry_child_specs:
  assumes "\<forall>e \<in> set es. lde_d_type e \<noteq> DT_UNKNOWN" and "\<not> ra_follow_links args" and "0 < ra_contents_depth args"
  shows "List.map_filter (child_spec (ra_client_read_state args)) (linux_entry_results ops dflt args fd es) =
         map (subdir_spec args) (visible_dirs args es)"
proof -
  define entry where "entry info = projr (make_dir_entry_linux ops dflt info (ra_contents_depth args)
      (ra_path args) (ra_read_metadata args) (ra_read_metadata_ext args) fd (ra_ancestors args))" for info
  have e: "make_dir_entry_linux ops dflt info (ra_contents_depth args) (ra_path args)
      (ra_read_metadata args) (ra_read_metadata_ext args) fd (ra_ancestors args) = Inr (entry info)"
    and d: "de_depth (entry info) = ra_contents_depth args"
    "de_follow_link_ancestors (entry info) = ra_ancestors args"
    and c: "de_read_children_path (entry info) = (if ft_is_dir (ef_file_type (linux_entry_fill ops info
        (ra_read_metadata args) (ra_read_metadata_ext args) fd))
      then Some (path_join (ra_path args) (lde_name info)) else None)" for info
    using make_dir_entry_linux_Inr [of ops dflt info "ra_contents_depth args" "ra_path args"
        "ra_read_metadata args" "ra_read_metadata_ext args" fd "ra_ancestors args"]
    by (auto simp: entry_def)
  have p: "process_dir_entry_result (lo_fs ops) dflt (Inr (entry info)) (ra_follow_links args) = Inr (entry info)" for info
    using process_no_follow [of "entry info"] assms(2,3) d(1) by simp
  show ?thesis
    unfolding linux_entry_results_def visible_dirs_def
  proof (rule built_child_specs [where entry = entry])
    fix info assume "info \<in> set es"
    then show "read_children_spec (entry info) (ra_client_read_state args) =
        (if lde_d_type info = DT_DIR then Some (subdir_spec args info) else None)"
      using assms(1) c d linux_entry_fill_type(1) [of info ops "ra_read_metadata args" "ra_read_metadata_ext args" fd]
      by (simp add: read_children_spec_def subdir_spec_def)
  qed (simp add: e p)
qed

lemma visible_dirs_keys:
  assumes "map lde_key es = map lde_key es'"
  shows "map (subdir_spec args) (visible_dirs args es) = map (subdir_spec args) (visible_dirs args es')"
proof -
  have "map (subdir_spec args) (visible_dirs args xs) =
      map (\<lambda>(t, n). subdir_spec args (owned_entry t n))
        (filter (\<lambda>(t, n). t = DT_DIR \<and> \<not> (ra_skip_hidden args \<and> is_hidden n)) (map lde_key xs))" for xs
    by (simp add: filter_map visible_dirs_def lde_key_def comp_def subdir_spec_def owned_entry_def)
  with assms show ?thesis by metis
qed

lemma known_types_keys:
  assumes "map lde_key es = map lde_key es'" and "\<forall>e \<in> set es'. lde_d_type e \<noteq> DT_UNKNOWN"
  shows "\<forall>e \<in> set es. lde_d_type e \<noteq> DT_UNKNOWN"
proof
  fix e assume "e \<in> set es"
  then have "lde_key e \<in> set (map lde_key es')" using assms(1) by (metis image_eqI set_map)
  then show "lde_d_type e \<noteq> DT_UNKNOWN" using assms(2) by (auto simp: lde_key_def)
qed

lemma linux_read_dir_streamed:
  "linux_read_dir ops dflt args fd es n s =
     ((fst (linux_read_dir ops dflt args fd es 0 s))\<lparr>streamed_child_count := n\<rparr>,
      snd (linux_read_dir ops dflt args fd es 0 s))"
  by (simp add: linux_read_dir_def Let_def case_prod_unfold)

lemma linux_read_dir_children:
  assumes "\<forall>e \<in> set es. lde_d_type e \<noteq> DT_UNKNOWN" and "\<not> ra_follow_links args"
    and "0 < ra_contents_depth args" and "\<not> ra_sort args" and "ra_process_read_dir args = None"
  shows "read_children_specs (fst (linux_read_dir ops dflt args fd es n s)) =
         map (subdir_spec args) (visible_dirs args es)"
proof -
  obtain es' s' where pre: "prefetch_statx ops args fd es s = (es', s')" by fastforce
  have keys: "map lde_key es' = map lde_key es" using prefetch_statx_keeps [of ops args fd es s] pre by simp
  have "List.map_filter (child_spec (ra_client_read_state args)) (linux_entry_results ops dflt args fd es') =
      map (subdir_spec args) (visible_dirs args es')"
    using known_types_keys [OF keys assms(1)] assms(2,3) by (rule linux_entry_child_specs)
  also have "\<dots> = map (subdir_spec args) (visible_dirs args es)" using keys by (rule visible_dirs_keys)
  finally show ?thesis
    using pre assms(4,5) by (simp add: linux_read_dir_def finish_results_def Let_def)
qed

text \<open>The result does not depend on the buffer and the kernel that the enumeration left.\<close>

lemma linux_read_dir_state:
  "fst (linux_read_dir ops dflt args fd es n (s\<lparr>ls_buf := buf, ls_kernel := k\<rparr>)) =
   fst (linux_read_dir ops dflt args fd es n s)"
  by (auto simp: linux_read_dir_def prefetch_statx_def Let_def case_prod_unfold)

text \<open>
  The three ways a read ends, given what the system answers: the directory cannot be opened, it
  is collected without streaming, or its subdirectories are scheduled while it is enumerated.
\<close>

lemma getdents_open_error:
  assumes "open_dir_fd (lo_dents ops) (ra_path args) (ls_kernel s) = (Inl err, k1)"
  shows "\<exists>s'. read_dir_linux_via_getdents ops dflt args ctx s q =
           Some (Inl (error_from_path 0 (ra_path args) err), s', q)"
  using assms
  by (auto simp: read_dir_linux_via_getdents_def enumerate_dir_unix_streaming_def enumerate_dir_unix_def
      Let_def split: option.split)

lemma getdents_collects:
  assumes "open_dir_fd (lo_dents ops) (ra_path args) (ls_kernel s) = (Inr fd, k1)"
    and "serves (lo_dents ops) fd k1 chunks (Inr ())"
    and "ctx = None \<or> ra_sort args \<or> ra_process_read_dir args \<noteq> None"
  shows "\<exists>s'. read_dir_linux_via_getdents ops dflt args ctx s q =
           Some (Inr (fst (linux_read_dir ops dflt args fd (listed (concat chunks)) 0 s)), s', q)"
proof -
  obtain buf k where "enumerate_dir_unix (lo_dents ops) (ra_path args) (ls_buf s) (ls_kernel s) =
      Some (Inr (fd, listed (concat chunks)), buf, k)"
    using enumerate_dir_unix_serves [OF assms(1,2), of "ls_buf s"] by auto
  with assms(3) show ?thesis
    by (auto simp: read_dir_linux_via_getdents_def Let_def case_prod_unfold linux_read_dir_state)
qed

text \<open>
  What a read does to the queue of its streaming context, beside the number of scheduled
  subdirectories: nothing without a context, with sorting or with a client callback, else one
  call of the closure for every record of type directory.
\<close>

definition streamed_by :: "('d, 'r) read_args \<Rightarrow> ('q, 'r) streaming_context option \<Rightarrow> linux_dir_entry list \<Rightarrow>
    'q \<Rightarrow> usize \<times> 'q" where
  "streamed_by args ctx es q =
     (case ctx of
        Some c \<Rightarrow> if ra_sort args \<or> \<not> Option.is_none (ra_process_read_dir args) then (0, q)
                  else fold (stream_subdir args c) (filter (\<lambda>e. lde_d_type e = DT_DIR) es) (0, q)
      | None \<Rightarrow> (0, q))"

text \<open>With any context the listing is that of a read without one.\<close>

lemma getdents_reads:
  assumes "open_dir_fd (lo_dents ops) (ra_path args) (ls_kernel s) = (Inr fd, k1)"
    and "serves (lo_dents ops) fd k1 chunks (Inr ())"
  shows "\<exists>s'. read_dir_linux_via_getdents ops dflt args ctx s q =
           Some (Inr ((fst (linux_read_dir ops dflt args fd (listed (concat chunks)) 0 s))
                   \<lparr>streamed_child_count := fst (streamed_by args ctx (listed (concat chunks)) q)\<rparr>), s',
             snd (streamed_by args ctx (listed (concat chunks)) q))"
proof (cases "ctx = None \<or> ra_sort args \<or> ra_process_read_dir args \<noteq> None")
  case True
  then have "streamed_by args ctx (listed (concat chunks)) q = (0, q)"
    by (auto simp: streamed_by_def Option.is_none_def split: option.split)
  with getdents_collects [OF assms True, of dflt q] show ?thesis
    by (simp add: linux_read_dir_def Let_def case_prod_unfold)
next
  case False
  then obtain c where c: "ctx = Some c" by (cases ctx) auto
  let ?L = "listed (concat chunks)"
  have st: "streamed_by args ctx ?L q = fold (stream_subdir args c) (filter (\<lambda>e. lde_d_type e = DT_DIR) ?L) (0, q)"
    using False c by (simp add: streamed_by_def)
  obtain buf k where "enumerate_dir_unix_streaming (lo_dents ops) (ra_path args) (stream_subdir args c)
      (ls_buf s) (0, q) (ls_kernel s) = Some (Inr (fd, ?L), streamed_by args ctx ?L q, buf, k)"
    using enumerate_dir_unix_streaming_serves [OF assms, of "stream_subdir args c" "ls_buf s" "(0, q)"]
    by (auto simp: st)
  moreover have "fst (linux_read_dir ops dflt args fd ?L n (s\<lparr>ls_buf := buf, ls_kernel := k\<rparr>)) =
      (fst (linux_read_dir ops dflt args fd ?L 0 s))\<lparr>streamed_child_count := n\<rparr>" for n
    by (subst linux_read_dir_streamed) (simp add: linux_read_dir_state)
  ultimately show ?thesis
    using False c by (simp add: read_dir_linux_via_getdents_def Let_def case_prod_unfold)
qed

lemma getdents_streams_visible:
  assumes "open_dir_fd (lo_dents ops) (ra_path args) (ls_kernel s) = (Inr fd, k1)"
    and "serves (lo_dents ops) fd k1 chunks (Inr ())"
    and "\<not> ra_sort args" and "ra_process_read_dir args = None"
    and rd: "rd = fst (linux_read_dir ops dflt args fd (listed (concat chunks)) 0 s)"
  shows "\<exists>s'. read_dir_linux_via_getdents ops dflt args (Some (recording_context p w)) s [] =
           Some (Inr (rd\<lparr>streamed_child_count := length (visible_dirs args (listed (concat chunks)))\<rparr>), s',
             streamed_list p w 0 (map (subdir_spec args) (visible_dirs args (listed (concat chunks)))))"
proof -
  let ?L = "listed (concat chunks)"
  obtain buf' k' where en: "enumerate_dir_unix_streaming (lo_dents ops) (ra_path args)
      (stream_subdir args (recording_context p w)) (ls_buf s) (0, []) (ls_kernel s) =
      Some (Inr (fd, ?L), (length (visible_dirs args ?L),
        streamed_list p w 0 (map (subdir_spec args) (visible_dirs args ?L))), buf', k')"
    using enumerate_dir_unix_streaming_serves [OF assms(1,2), of "stream_subdir args (recording_context p w)"
        "ls_buf s" "(0, [])"]
    by (auto simp: fold_stream_subdir visible_dirs_of_dirs)
  have "fst (linux_read_dir ops dflt args fd ?L n (s\<lparr>ls_buf := buf', ls_kernel := k'\<rparr>)) =
      rd\<lparr>streamed_child_count := n\<rparr>" for n
    by (subst linux_read_dir_streamed) (simp add: linux_read_dir_state rd)
  with en show ?thesis
    using assms(3,4) by (simp add: read_dir_linux_via_getdents_def Let_def case_prod_unfold)
qed

text \<open>
  Streaming a directory whose records all carry a type, links not followed: what is scheduled
  while enumerating is exactly the list of subdirectories of the result, numbered from zero,
  and the result says how many there are.
\<close>

lemma getdents_streaming:
  assumes "open_dir_fd (lo_dents ops) (ra_path args) (ls_kernel s) = (Inr fd, k1)"
    and "serves (lo_dents ops) fd k1 chunks (Inr ())"
    and "\<forall>e \<in> set (listed (concat chunks)). lde_d_type e \<noteq> DT_UNKNOWN"
    and "\<not> ra_follow_links args" and "0 < ra_contents_depth args"
    and "\<not> ra_sort args" and "ra_process_read_dir args = None"
    and rd: "rd = fst (linux_read_dir ops dflt args fd (listed (concat chunks)) 0 s)"
  shows "\<exists>s'. read_dir_linux_via_getdents ops dflt args (Some (recording_context p w)) s [] =
           Some (Inr (rd\<lparr>streamed_child_count := length (read_children_specs rd)\<rparr>), s',
             streamed_list p w 0 (read_children_specs rd))"
proof -
  have "read_children_specs rd = map (subdir_spec args) (visible_dirs args (listed (concat chunks)))"
    unfolding rd using assms(3-7) by (rule linux_read_dir_children)
  then show ?thesis using getdents_streams_visible [OF assms(1,2,6,7) rd, of p w] by simp
qed

section \<open>A Linux system for the witnesses\<close>

text \<open>A kernel over a table of directories, each with the chunks in which it is delivered.\<close>

definition tree_kernel :: "(path \<Rightarrow> dirent list list option) \<Rightarrow> dirent list list dents_world" where
  "tree_kernel dirs =
     \<lparr>sys_open = (\<lambda>p w. case dirs p of Some chunks \<Rightarrow> (Inr 3, chunks) | None \<Rightarrow> (Inl (OsError 2 OtherKind), w)),
      sys_getdents64 = sys_getdents64 chunk_kernel, sys_close = (\<lambda>fd w. [])\<rparr>"

definition example_linux :: "(path \<Rightarrow> dirent list list option) \<Rightarrow> dirent list list linux_ops" where
  "example_linux dirs =
     \<lparr>lo_dents = tree_kernel dirs, lo_statx = (\<lambda>fd p. Inl (OsError 38 OtherKind)),
      lo_fstatat = (\<lambda>fd p. Inl (OsError 2 OtherKind)), lo_statfs = example_statfs,
      lo_ring = (\<lambda>fd. example_ring), lo_fs = example_fs, lo_read_dir = (\<lambda>p. Inr []),
      lo_gnu = True, lo_uring_arch = True, lo_legacy = False\<rparr>"

definition example_state :: "dirent list list linux_state" where
  "example_state = \<lparr>ls_kernel = [], ls_buf = [], ls_cache = io_strategy_cache_new, ls_once = None\<rparr>"

lemma tree_kernel_serves:
  "list_all (\<lambda>ds. ds \<noteq> [] \<and> list_all dirent_ok ds) chunks \<Longrightarrow>
   serves (tree_kernel dirs) fd chunks chunks (Inr ())"
  by (induction chunks) (auto simp: tree_kernel_def chunk_kernel_def)

definition well_formed_dir :: "dirent list list \<Rightarrow> bool" where
  "well_formed_dir chunks \<longleftrightarrow> list_all (\<lambda>ds. ds \<noteq> [] \<and> list_all dirent_ok ds) chunks \<and>
     list_all (\<lambda>e. lde_d_type e \<noteq> DT_UNKNOWN) (listed (concat chunks))"

lemma example_open_cases:
  obtains (err) err k where "open_dir_fd (lo_dents (example_linux dirs)) p (ls_kernel example_state) = (Inl err, k)"
      "\<not> is_transient_io_error Unix err"
  | (ok) chunks where "open_dir_fd (lo_dents (example_linux dirs)) p (ls_kernel example_state) = (Inr 3, chunks)"
      "dirs p = Some chunks"
proof (cases "0 \<in> set p")
  case True
  then show thesis using err by (simp add: open_dir_fd_def cstring_new_def is_transient_io_error_def)
next
  case False
  then show thesis
    using err ok by (cases "dirs p") (simp_all add: open_dir_fd_def cstring_new_def example_linux_def
        tree_kernel_def is_transient_io_error_def)
qed

section \<open>Properties\<close>

lemma linux_entry_results_names:
  assumes "\<not> ra_follow_links args" and "0 < ra_contents_depth args"
  shows "map (map_sum id de_file_name) (linux_entry_results ops dflt args fd es) =
         map (Inr \<circ> lde_name) (filter (\<lambda>e. \<not> (ra_skip_hidden args \<and> is_hidden (lde_name e))) es)"
proof (induction es)
  case Nil
  then show ?case by (simp add: linux_entry_results_def List.map_filter_def)
next
  case (Cons info es)
  obtain e where e: "make_dir_entry_linux ops dflt info (ra_contents_depth args) (ra_path args)
      (ra_read_metadata args) (ra_read_metadata_ext args) fd (ra_ancestors args) = Inr e"
    and d: "de_depth e = ra_contents_depth args" "de_file_name e = lde_name info"
    using make_dir_entry_linux_Inr [of ops dflt info "ra_contents_depth args" "ra_path args"
        "ra_read_metadata args" "ra_read_metadata_ext args" fd "ra_ancestors args"] by auto
  have "process_dir_entry_result (lo_fs ops) dflt (Inr e) (ra_follow_links args) = Inr e"
    using process_no_follow [of e] assms d(1) by simp
  then have "linux_entry_results ops dflt args fd (info # es) =
      (if ra_skip_hidden args \<and> is_hidden (lde_name info) then [] else [Inr e]) @
      linux_entry_results ops dflt args fd es"
    using e by (simp add: linux_entry_results_def List.map_filter_def)
  with Cons d(2) show ?case by simp
qed

text \<open>The names that the result lists, whatever the prefetch does to the entries.\<close>

lemma linux_read_dir_names:
  assumes "\<not> ra_follow_links args" and "0 < ra_contents_depth args" and "ra_process_read_dir args = None"
  shows "mset (map (map_sum id de_file_name) (results_list (fst (linux_read_dir ops dflt args fd L n s)))) =
           mset (map (Inr \<circ> lde_name) (filter (\<lambda>e. \<not> (ra_skip_hidden args \<and> is_hidden (lde_name e))) L)) \<and>
         (\<not> ra_sort args \<longrightarrow>
           map (map_sum id de_file_name) (results_list (fst (linux_read_dir ops dflt args fd L n s))) =
           map (Inr \<circ> lde_name) (filter (\<lambda>e. \<not> (ra_skip_hidden args \<and> is_hidden (lde_name e))) L))"
proof -
  let ?keep = "\<lambda>es. map (Inr \<circ> lde_name) (filter (\<lambda>e. \<not> (ra_skip_hidden args \<and> is_hidden (lde_name e))) es)"
  obtain es s1 where pre: "prefetch_statx ops args fd L s = (es, s1)" by fastforce
  have "map lde_key es = map lde_key L" using prefetch_statx_keeps [of ops args fd L s] pre by simp
  then have names: "map lde_name es = map lde_name L"
    by (metis (no_types, lifting) lde_key_def list.map_comp list.map_cong0 o_apply snd_conv)
  have keep: "?keep es = ?keep L"
    using arg_cong [OF names, of "\<lambda>ns. map Inr (filter (\<lambda>n. \<not> (ra_skip_hidden args \<and> is_hidden n)) ns)"]
    by (simp add: filter_map comp_def)
  let ?rs = "linux_entry_results ops dflt args fd es"
  have rs: "map (map_sum id de_file_name) ?rs = ?keep L"
    using linux_entry_results_names [OF assms(1,2), of ops dflt fd es] keep by simp
  let ?rd = "fst (linux_read_dir ops dflt args fd L n s)"
  have rd: "results_list ?rd = (if ra_sort args then sort_dir_entries_by_name ?rs else ?rs)"
    using pre assms(3) by (simp add: linux_read_dir_def finish_results_def read_dir_new_def Let_def)
  have "mset (results_list ?rd) = mset ?rs" by (simp add: rd sort_dir_entries_by_name_def)
  then have "mset (map (map_sum id de_file_name) (results_list ?rd)) = mset (?keep L)"
    using rs by (metis mset_map)
  then show ?thesis using rs by (simp add: rd)
qed

text \<open>
  C15. Reading a directory on Linux without client callback and followed links, with or without
  a streaming context, whatever its queue does: the result lists every entry the kernel delivered
  but \<open>.\<close>, \<open>..\<close> and, when hidden files are skipped, the hidden ones, each as an entry and never as
  an error, in the kernel's order (up to sorting). Missing metadata never removes an entry, and
  neither batching through io_uring nor streaming changes the list. What is streamed is one call
  of the closure for each record of type directory, in order, when there is a context and no
  sorting, and nothing otherwise; the result carries the number of scheduled subdirectories.
\<close>

theorem linux_read_lists_kernel_entries:
  assumes "open_dir_fd (lo_dents ops) (ra_path args) (ls_kernel s) = (Inr fd, k1)"
    and "serves (lo_dents ops) fd k1 chunks (Inr ())"
    and "\<not> ra_follow_links args" and "0 < ra_contents_depth args" and "ra_process_read_dir args = None"
  shows "\<exists>rd s' q'. read_dir_linux_via_getdents ops dflt args ctx s q = Some (Inr rd, s', q') \<and>
           mset (map (map_sum id de_file_name) (results_list rd)) =
             mset (map (Inr \<circ> lde_name) (filter (\<lambda>e. \<not> (ra_skip_hidden args \<and> is_hidden (lde_name e)))
               (listed (concat chunks)))) \<and>
           (\<not> ra_sort args \<longrightarrow> map (map_sum id de_file_name) (results_list rd) =
             map (Inr \<circ> lde_name) (filter (\<lambda>e. \<not> (ra_skip_hidden args \<and> is_hidden (lde_name e)))
               (listed (concat chunks)))) \<and>
           (streamed_child_count rd, q') =
             (case ctx of
                Some c \<Rightarrow> if ra_sort args then (0, q)
                  else fold (stream_subdir args c)
                    (filter (\<lambda>e. lde_d_type e = DT_DIR) (listed (concat chunks))) (0, q)
              | None \<Rightarrow> (0, q))"
proof -
  let ?L = "listed (concat chunks)"
  let ?st = "streamed_by args ctx ?L q"
  let ?rd = "fst (linux_read_dir ops dflt args fd ?L 0 s)"
  obtain s' where s': "read_dir_linux_via_getdents ops dflt args ctx s q =
      Some (Inr (?rd\<lparr>streamed_child_count := fst ?st\<rparr>), s', snd ?st)"
    using getdents_reads [OF assms(1,2), of dflt ctx q] by blast
  show ?thesis
    using linux_read_dir_names [OF assms(3-5), of ops dflt fd ?L 0 s] assms(5)
    by (intro exI [of _ "?rd\<lparr>streamed_child_count := fst ?st\<rparr>"] exI [of _ s'] exI [of _ "snd ?st"])
      (simp add: s' streamed_by_def split: option.split)
qed

definition example_args :: "(unit, unit) read_args" where
  "example_args =
     \<lparr>ra_path = [114], ra_read_dir_depth = 0, ra_contents_depth = 1, ra_follow_links = False,
      ra_read_metadata = True, ra_read_metadata_ext = False, ra_read_hardlink_info = False, ra_skip_hidden = False, ra_sort = False,
      ra_ancestors = None, ra_client_read_state = (), ra_process_read_dir = None\<rparr>"

theorem linux_read_lists_kernel_entries_witness:
  "\<exists>rd s' q'. read_dir_linux_via_getdents (example_linux (\<lambda>p. Some example_chunks)) () example_args
       (Some (recording_context (index_path_new []) 0)) example_state [] = Some (Inr rd, s', q') \<and>
     map (map_sum id de_file_name) (results_list rd) = [Inr [97], Inr [98, 46, 99]] \<and>
     streamed_child_count rd = 1 \<and> q' = streamed_list (index_path_new []) 0 0 [subdir_spec example_args (owned_entry DT_DIR [97])]"
proof -
  let ?ops = "example_linux (\<lambda>p. Some example_chunks)"
  have o: "open_dir_fd (lo_dents ?ops) (ra_path example_args) (ls_kernel example_state) = (Inr 3, example_chunks)"
    by (simp add: open_dir_fd_def cstring_new_def example_linux_def tree_kernel_def example_args_def)
  have "well_formed_dir example_chunks" by code_simp
  then have sv: "serves (lo_dents ?ops) 3 example_chunks example_chunks (Inr ())"
    using tree_kernel_serves [of example_chunks] by (simp add: well_formed_dir_def example_linux_def)
  have args: "\<not> ra_follow_links example_args" "0 < ra_contents_depth example_args"
    "ra_process_read_dir example_args = None" "\<not> ra_sort example_args" "\<not> ra_skip_hidden example_args"
    by (simp_all add: example_args_def)
  have L: "listed (concat example_chunks) = [owned_entry DT_DIR [97], owned_entry DT_REG [98, 46, 99]]"
    and ne: "DT_REG \<noteq> DT_DIR"
    by code_simp+
  have names: "map (Inr \<circ> lde_name) (filter (\<lambda>e. \<not> (ra_skip_hidden example_args \<and> is_hidden (lde_name e)))
      (listed (concat example_chunks))) = [Inr [97], Inr [98, 46, 99]]"
    using args(5) by (simp add: L owned_entry_def)
  have dirs: "visible_dirs example_args (listed (concat example_chunks)) = [owned_entry DT_DIR [97]]"
    using ne args(5) by (simp add: L visible_dirs_def owned_entry_def)
  from linux_read_lists_kernel_entries
    [OF o sv args(1-3), of "()" "Some (recording_context (index_path_new []) 0)" "[]"] args(4)
  show ?thesis
    unfolding names by (auto simp: fold_stream_subdir visible_dirs_of_dirs dirs)
qed

end
