(* ===== verification/Walk_Linux.thy ===== *)
theory Walk_Linux
  imports Core_Callback Read_Dir_Linux
begin

text \<open>
  The closure of a walk on Linux: \<open>read_dir_unix\<close> keeps the contract \<open>dir_reader\<close> of the closure on a
  file system that does not change, and what that means for walks with a maximum depth and for
  streaming. With followed links the contract fails, and a link that leads back to the directory it is in
  is descended into once more when that directory was itself entered through a link.
\<close>

abbreviation linux_serial :: "'k linux_ops \<Rightarrow> 'd \<Rightarrow> ('p, 'd, 'r) walk_dir_options \<Rightarrow> 'k linux_state \<Rightarrow>
    ('d, 'r) read_dir_callback" where
  "linux_serial ops dflt \<equiv> serial_closure Unix (lo_fs ops) (read_dir_unix ops dflt)"

abbreviation linux_streaming :: "'k linux_ops \<Rightarrow> 'd \<Rightarrow> ('p, 'd, 'r) walk_dir_options \<Rightarrow> 'k linux_state \<Rightarrow>
    ('d, 'r) par_callback" where
  "linux_streaming ops dflt \<equiv> streaming_closure Unix (lo_fs ops) (read_dir_unix ops dflt)"

section \<open>The depth of entries\<close>

lemma linux_entry_results_depth:
  assumes "Inr e \<in> set (linux_entry_results ops dflt args fd es)"
  shows "de_depth e = ra_contents_depth args"
proof -
  from assms obtain info where "(case make_dir_entry_linux ops dflt info (ra_contents_depth args)
        (ra_path args) (ra_read_metadata args) (ra_read_metadata_ext args) fd (ra_ancestors args) of
          Inr e \<Rightarrow> Some (process_dir_entry_result (lo_fs ops) dflt (Inr e) (ra_follow_links args))
        | Inl err \<Rightarrow> Some (Inl err)) = Some (Inr e)"
    by (auto simp: linux_entry_results_def List.map_filter_def split: if_splits)
  moreover obtain x where "make_dir_entry_linux ops dflt info (ra_contents_depth args) (ra_path args)
      (ra_read_metadata args) (ra_read_metadata_ext args) fd (ra_ancestors args) = Inr x"
    "de_depth x = ra_contents_depth args"
    using make_dir_entry_linux_Inr [of ops dflt info "ra_contents_depth args" "ra_path args"
        "ra_read_metadata args" "ra_read_metadata_ext args" fd "ra_ancestors args"] by auto
  ultimately show ?thesis
    using process_keeps_depth [of unix_platform "lo_fs ops" dflt x "ra_follow_links args" e] by simp
qed

lemma linux_read_dir_depth:
  assumes "linux_read_dir ops dflt args fd es n s = (rd, s')" and "ra_process_read_dir args = None"
    and "Inr e \<in> set (results_list rd)"
  shows "de_depth e = ra_contents_depth args"
  using assms linux_entry_results_depth
  by (fastforce simp: linux_read_dir_def finish_results_def sort_dir_entries_by_name_def
      read_dir_new_def Let_def split: prod.splits if_splits)

lemma getdents_depth:
  assumes "read_dir_linux_via_getdents ops dflt args ctx s q = Some (Inr rd, s', q')"
    and "ra_process_read_dir args = None" and "Inr e \<in> set (results_list rd)"
  shows "de_depth e = ra_contents_depth args"
  using assms linux_read_dir_depth [OF _ assms(2,3)]
  unfolding read_dir_linux_via_getdents_def Let_def
  by (auto simp: read_dir_new_def split: option.splits prod.splits sum.splits if_splits)

lemma legacy_entry_depth:
  "legacy_entry fs dflt args r = Some (Inr e) \<Longrightarrow> de_depth e = ra_contents_depth args"
  by (auto simp: legacy_entry_def Let_def split: sum.splits if_splits option.splits
      dest!: process_keeps_depth from_entry_depth)

lemma read_dir_unix_depth:
  assumes "read_dir_unix ops dflt args ctx s q = Some (Inr rd, s', q')"
    and "ra_process_read_dir args = None" and "Inr e \<in> set (results_list rd)"
  shows "de_depth e = ra_contents_depth args"
proof (cases "lo_legacy ops")
  case True
  with assms obtain r where "legacy_entry (lo_fs ops) dflt args r = Some (Inr e)"
    by (auto simp: read_dir_unix_def read_dir_unix_fs_legacy_def finish_results_def read_dir_new_def Let_def
        sort_dir_entries_by_name_def List.map_filter_def split: sum.splits if_splits)
  then show ?thesis by (rule legacy_entry_depth)
next
  case False
  with assms show ?thesis by (intro getdents_depth) (simp_all add: read_dir_unix_def)
qed

section \<open>A stable file system\<close>

text \<open>
  A file system that does not change while it is walked: in the given state, every directory can
  be listed to its end, with the type of every entry reported, or cannot be opened for good.
\<close>

definition stable_fs :: "'k linux_ops \<Rightarrow> 'k linux_state \<Rightarrow> bool" where
  "stable_fs ops s \<longleftrightarrow> \<not> lo_legacy ops \<and>
     (\<forall>p. case fst (open_dir_fd (lo_dents ops) p (ls_kernel s)) of
        Inl err \<Rightarrow> \<not> is_transient_io_error Unix err
      | Inr fd \<Rightarrow> \<exists>chunks. serves (lo_dents ops) fd (snd (open_dir_fd (lo_dents ops) p (ls_kernel s))) chunks (Inr ()) \<and>
          (\<forall>e \<in> set (listed (concat chunks)). lde_d_type e \<noteq> DT_UNKNOWN))"

lemma stable_fs_cases:
  assumes "stable_fs ops s"
  obtains (Refused) err k where "open_dir_fd (lo_dents ops) p (ls_kernel s) = (Inl err, k)"
      "\<not> is_transient_io_error Unix err"
  | (Listed) fd k chunks where "open_dir_fd (lo_dents ops) p (ls_kernel s) = (Inr fd, k)"
      "serves (lo_dents ops) fd k chunks (Inr ())"
      "\<forall>e \<in> set (listed (concat chunks)). lde_d_type e \<noteq> DT_UNKNOWN"
proof -
  obtain r k where o: "open_dir_fd (lo_dents ops) p (ls_kernel s) = (r, k)" by fastforce
  with assms [unfolded stable_fs_def, THEN conjunct2, THEN spec, of p] show thesis
    using Refused Listed by (cases r) auto
qed

lemma linux_reads_well:
  assumes "stable_fs ops s" and "0 < ra_contents_depth args"
    and "ra_sort args \<or> ra_process_read_dir args \<noteq> None \<or> \<not> ra_follow_links args"
  shows "reads_well Unix (read_dir_unix ops dflt) args s"
proof -
  have legacy: "\<not> lo_legacy ops" using assms(1) by (simp add: stable_fs_def)
  from assms(1) show ?thesis
  proof (cases rule: stable_fs_cases [where p = "ra_path args"])
    case (Refused err k)
    show ?thesis
    proof (rule reads_well_refusedI)
      show "\<not> is_transient_error Unix (error_from_path 0 (ra_path args) err)"
        using Refused(2) by (simp add: is_transient_error_def error_from_path_def)
    qed (use getdents_open_error [OF Refused(1)] legacy in \<open>simp add: read_dir_unix_def\<close>)
  next
    case (Listed fd k chunks)
    show ?thesis
    proof (rule reads_well_listedI [where rd = "fst (linux_read_dir ops dflt args fd (listed (concat chunks)) 0 s)"])
      show "streamed_child_count (fst (linux_read_dir ops dflt args fd (listed (concat chunks)) 0 s)) = 0"
        by (simp add: linux_read_dir_def Let_def case_prod_unfold read_dir_new_def)
      show "\<exists>s'. read_dir_unix ops dflt args ctx s q =
          Some (Inr (fst (linux_read_dir ops dflt args fd (listed (concat chunks)) 0 s)), s', q)"
        if "ctx = None \<or> ra_sort args \<or> ra_process_read_dir args \<noteq> None" for ctx q
        using getdents_collects [OF Listed(1,2) that, of dflt q] legacy by (simp add: read_dir_unix_def)
    qed (use getdents_streaming [OF Listed(1-3) _ assms(2) _ _ refl, of dflt] assms(3) legacy
        in \<open>auto simp: read_dir_unix_def\<close>)
  qed
qed

interpretation linux: dir_reader Unix "lo_fs ops" "read_dir_unix ops dflt" "stable_fs ops" for ops dflt
  by (rule dir_reader.intro) (fact read_dir_unix_depth, rule linux_reads_well)

section \<open>The Linux system of the witnesses\<close>

lemma example_linux_stable:
  assumes "\<And>p chunks. dirs p = Some chunks \<Longrightarrow> well_formed_dir chunks"
  shows "stable_fs (example_linux dirs) example_state"
  unfolding stable_fs_def
proof (intro conjI allI)
  show "\<not> lo_legacy (example_linux dirs)" by (simp add: example_linux_def)
next
  fix p
  let ?o = "open_dir_fd (lo_dents (example_linux dirs)) p (ls_kernel example_state)"
  show "case fst ?o of
      Inl err \<Rightarrow> \<not> is_transient_io_error Unix err
    | Inr fd \<Rightarrow> \<exists>chunks. serves (lo_dents (example_linux dirs)) fd (snd ?o) chunks (Inr ()) \<and>
        (\<forall>e \<in> set (listed (concat chunks)). lde_d_type e \<noteq> DT_UNKNOWN)"
  proof (cases rule: example_open_cases [of dirs p])
    case (ok chunks)
    have wf: "well_formed_dir chunks" using assms ok by blast
    have "lo_dents (example_linux dirs) = tree_kernel dirs" by (simp add: example_linux_def)
    with wf ok tree_kernel_serves [of chunks dirs 3] show ?thesis
      by (auto simp: well_formed_dir_def list_all_iff intro!: exI [of _ chunks])
  qed simp
qed

text \<open>The streaming closure over such a kernel, without the buffers of the enumeration.\<close>

definition listed_closure :: "(path \<Rightarrow> dirent list list option) \<Rightarrow> 'd \<Rightarrow> ('p, 'd, 'r) walk_dir_options \<Rightarrow>
    ('d, 'r) par_callback" where
  "listed_closure dirs dflt opts spec =
     (if opt_max_depth opts < usize_saturating_add (spec_depth spec) 1
      then ([], \<lambda>n. Inr ((read_dir_new (spec_client_read_state spec) [])\<lparr>streamed_child_count := n\<rparr>))
      else case open_dir_fd (lo_dents (example_linux dirs)) (spec_path spec) [] of
        (Inl err, _) \<Rightarrow> ([], \<lambda>n. Inl (error_from_path 0 (spec_path spec) err))
      | (Inr fd, chunks) \<Rightarrow>
          let rd = fst (linux_read_dir (example_linux dirs) dflt (callback_args Unix example_fs opts spec) fd
                          (listed (concat chunks)) 0 example_state)
          in (if opt_sort opts \<or> \<not> Option.is_none (opt_process_read_dir opts) then [] else read_children_specs rd,
              \<lambda>n. Inr (rd\<lparr>streamed_child_count := n\<rparr>)))"

lemma example_linux_sel:
  "\<not> lo_legacy (example_linux dirs)" "lo_fs (example_linux dirs) = example_fs"
  "lo_dents (example_linux dirs) = tree_kernel dirs" "ls_kernel example_state = []"
  by (simp_all add: example_linux_def example_state_def)

lemma example_streaming_refused:
  assumes "usize_saturating_add (spec_depth spec) 1 \<le> opt_max_depth opts"
    and "open_dir_fd (lo_dents (example_linux dirs)) (spec_path spec) (ls_kernel example_state) = (Inl e, k)"
    and "\<not> is_transient_io_error Unix e"
  shows "linux_streaming (example_linux dirs) dflt opts example_state spec =
    ([], \<lambda>n. Inl (error_from_path 0 (spec_path spec) e))"
proof -
  let ?ops = "example_linux dirs" and ?err = "error_from_path 0 (spec_path spec) e"
  have ex: "\<exists>s'. read_dir_unix ?ops dflt (callback_args Unix (lo_fs ?ops) opts spec)
      (Some (recording_context (index_path_new []) 0)) example_state [] = Some (Inl ?err, s', [])"
    using getdents_open_error [of ?ops "callback_args Unix (lo_fs ?ops) opts spec" example_state e k]
      assms(2) example_linux_sel(1) by (simp add: read_dir_unix_def)
  have "\<not> is_transient_error Unix ?err"
    using assms(3) by (simp add: is_transient_error_def error_from_path_def)
  then show ?thesis
    using streaming_closure_first [where read = "read_dir_unix ?ops dflt", OF assms(1) ex] by simp
qed

text \<open>With sorting or a callback the reader collects, otherwise it streams; the listing is the same.\<close>

lemma example_streaming_read:
  fixes dflt :: 'd and args :: "('d, 'r) read_args"
  assumes "open_dir_fd (lo_dents (example_linux dirs)) (ra_path args) (ls_kernel example_state) = (Inr 3, chunks)"
    and "well_formed_dir chunks" and "\<not> ra_follow_links args" and "0 < ra_contents_depth args"
  defines "rd \<equiv> fst (linux_read_dir (example_linux dirs) dflt args 3 (listed (concat chunks)) 0 example_state)"
  shows "\<exists>n q s'. read_dir_unix (example_linux dirs) dflt args (Some (recording_context (index_path_new []) 0))
      example_state [] = Some (Inr (rd\<lparr>streamed_child_count := n\<rparr>), s', q) \<and>
    map w_value q = (if ra_sort args \<or> \<not> Option.is_none (ra_process_read_dir args) then [] else read_children_specs rd)"
proof -
  let ?ops = "example_linux dirs"
  have sv: "serves (lo_dents ?ops) 3 chunks chunks (Inr ())"
    using assms(2) tree_kernel_serves [of chunks dirs 3] by (simp add: well_formed_dir_def example_linux_sel(3))
  have rd0: "rd\<lparr>streamed_child_count := 0\<rparr> = rd"
    by (simp add: rd_def linux_read_dir_def Let_def case_prod_unfold read_dir_new_def)
  show ?thesis
  proof (cases "ra_sort args \<or> \<not> Option.is_none (ra_process_read_dir args)")
    case True
    then have "Some (recording_context (index_path_new []) 0) = None \<or> ra_sort args \<or> ra_process_read_dir args \<noteq> None"
      by (auto simp: Option.is_none_def)
    from getdents_collects [OF assms(1) sv this, of dflt "[]"] True rd0 example_linux_sel(1) show ?thesis
      by (intro exI [of _ 0] exI [of _ "[]"]) (simp add: read_dir_unix_def rd_def)
  next
    case False
    have "\<exists>s'. read_dir_unix ?ops dflt args (Some (recording_context (index_path_new []) 0)) example_state [] =
        Some (Inr (rd\<lparr>streamed_child_count := length (read_children_specs rd)\<rparr>), s',
          streamed_list (index_path_new []) 0 0 (read_children_specs rd))"
      using getdents_streaming [of ?ops args example_state 3 chunks chunks rd dflt "index_path_new []" 0]
        assms(1-4) False sv example_linux_sel(1)
      by (simp add: read_dir_unix_def well_formed_dir_def list_all_iff rd_def Option.is_none_def)
    then show ?thesis using False
      by (intro exI [of _ "length (read_children_specs rd)"]
          exI [of _ "streamed_list (index_path_new []) 0 0 (read_children_specs rd)"]) simp
  qed
qed

lemma streaming_closure_listed:
  fixes opts :: "('p, 'd, 'r) walk_dir_options"
  assumes "\<And>p chunks. dirs p = Some chunks \<Longrightarrow> well_formed_dir chunks" and "\<not> opt_follow_links opts"
  shows "linux_streaming (example_linux dirs) dflt opts example_state = listed_closure dirs dflt opts"
proof
  fix spec :: "'r read_dir_spec"
  let ?ops = "example_linux dirs" and ?args = "callback_args Unix example_fs opts spec"
  consider (beyond) "opt_max_depth opts < usize_saturating_add (spec_depth spec) 1"
    | (err) err k where "usize_saturating_add (spec_depth spec) 1 \<le> opt_max_depth opts"
        "open_dir_fd (lo_dents ?ops) (spec_path spec) (ls_kernel example_state) = (Inl err, k)"
        "\<not> is_transient_io_error Unix err"
    | (ok) chunks where "usize_saturating_add (spec_depth spec) 1 \<le> opt_max_depth opts"
        "open_dir_fd (lo_dents ?ops) (spec_path spec) (ls_kernel example_state) = (Inr 3, chunks)"
        "well_formed_dir chunks"
    using example_open_cases [of dirs "spec_path spec"] assms(1) by (metis not_le)
  then show "linux_streaming ?ops dflt opts example_state spec = listed_closure dirs dflt opts spec"
  proof cases
    case beyond
    then show ?thesis using closures_beyond(2) [OF beyond] by (simp add: listed_closure_def)
  next
    case (err e k)
    then show ?thesis using example_streaming_refused [OF err] by (simp add: listed_closure_def example_linux_sel(4))
  next
    case (ok chunks)
    let ?rd = "fst (linux_read_dir ?ops dflt ?args 3 (listed (concat chunks)) 0 example_state)"
    obtain n q s' where r: "read_dir_unix ?ops dflt (callback_args Unix (lo_fs ?ops) opts spec)
        (Some (recording_context (index_path_new []) 0)) example_state [] = Some (Inr (?rd\<lparr>streamed_child_count := n\<rparr>), s', q)"
      and q: "map w_value q =
        (if opt_sort opts \<or> \<not> Option.is_none (opt_process_read_dir opts) then [] else read_children_specs ?rd)"
      using example_streaming_read [of dirs ?args chunks dflt] ok(2,3) assms(2) example_linux_sel(2)
      by (auto simp: usize_saturating_add_def usize_MAX_def)
    have "\<exists>s'. read_dir_unix ?ops dflt (callback_args Unix (lo_fs ?ops) opts spec)
        (Some (recording_context (index_path_new []) 0)) example_state [] = Some (Inr (?rd\<lparr>streamed_child_count := n\<rparr>), s', q)"
      using r by blast
    note c = streaming_closure_first [where read = "read_dir_unix ?ops dflt", OF ok(1) this]
    then show ?thesis using ok(1,2) q by (simp add: listed_closure_def example_linux_sel(2,4) Let_def)
  qed
qed

section \<open>Properties\<close>

text \<open>
  C13. A serial walk with a maximum depth and without a client callback ends, whatever the directories
  hold (links followed in a circle included) and even when the system changes between two reads, as
  long as every read returns; every entry it yields lies between the minimum and the maximum depth. A
  client callback is excluded because it may change the depth of an entry.
\<close>

theorem depth_limited_walk_ends:
  assumes "reads_with Unix (lo_fs ops) (read_dir_unix ops dflt) (wd_options self) cb"
    and "opt_process_read_dir (wd_options self) = None"
    and "opt_max_depth (wd_options self) < usize_MAX" and "opt_parallelism (wd_options self) = Serial"
  shows "\<exists>out. collect (read_dir_iter_next cb queue) (walk_into_iter unix_platform (lo_fs ops) dflt self started w) = Some out \<and>
           depths_within (opt_min_depth (wd_options self)) (opt_max_depth (wd_options self)) out"
  using assms by (rule linux.depth_limited)

text \<open>A directory that contains itself: every directory lists \<open>a\<close> and \<open>b.c\<close>.\<close>

definition bounded_walk :: "(unit, unit, unit) walk_dir" where
  "bounded_walk = set_parallelism Serial (set_max_depth 3 (set_min_depth 1 (walk_dir_new () [114])))"

theorem depth_limited_walk_ends_witness:
  "\<exists>out. collect (read_dir_iter_next
       (linux_serial (example_linux (\<lambda>p. Some example_chunks)) () (wd_options bounded_walk) example_state)
       arrived_world)
     (walk_into_iter unix_platform example_fs () bounded_walk True ([], 0)) = Some out \<and> depths_within 1 3 out"
proof -
  let ?ops = "example_linux (\<lambda>p. Some example_chunks)"
  have "well_formed_dir example_chunks" by code_simp
  then have stable: "stable_fs ?ops example_state" by (intro example_linux_stable) simp
  have o: "opt_process_read_dir (wd_options bounded_walk) = None"
    "opt_max_depth (wd_options bounded_walk) < usize_MAX"
    "opt_parallelism (wd_options bounded_walk) = Serial"
    "opt_min_depth (wd_options bounded_walk) = 1" "opt_max_depth (wd_options bounded_walk) = 3"
    "streaming_safe (wd_options bounded_walk)"
    by (simp_all add: bounded_walk_def setter_defs walk_dir_new_def usize_MAX_def streaming_safe_def)
  note r = linux.serial_closure_reads [OF stable o(6), of "()"]
  from depth_limited_walk_ends [OF r o(1-3), of arrived_world True "([], 0)"] show ?thesis
    by (simp add: o(4,5) example_linux_def)
qed

text \<open>
  C14. The streaming contract of the Linux closure: on a stable file system (\<open>stable_fs\<close>: the build with
  \<open>getdents64\<close>, every directory either refused for good or listed to its end, with the type of every
  entry reported), and with options that follow no links unless they also sort or have a client
  callback (\<open>streaming_safe\<close>), while a directory is enumerated either none or exactly the subdirectories
  of its result are scheduled, in the order of the result, and the result reports their number; with
  and without streaming the closure returns the same listing. This is what the parallel walk needs of
  its callback. Without the condition on links it fails.
\<close>

theorem linux_closure_streams_children:
  assumes "stable_fs ops s" and "streaming_safe opts"
  shows "streams_ok (linux_streaming ops dflt opts s) \<and>
         full_result (linux_streaming ops dflt opts s) spec =
           map_sum id (\<lambda>rd. rd\<lparr>streamed_child_count := length (fst (linux_streaming ops dflt opts s spec))\<rparr>)
             (linux_serial ops dflt opts s spec)"
  by (intro conjI linux.streaming_closure_ok [OF assms] linux.closures_same_result [OF assms])

definition plain_walk :: "(unit, unit, unit) walk_dir" where
  "plain_walk = walk_dir_new () [114]"

theorem linux_closure_streams_children_witness:
  "streams_ok (linux_streaming (example_linux (\<lambda>p. Some example_chunks)) () (wd_options plain_walk) example_state) \<and>
   length (fst (linux_streaming (example_linux (\<lambda>p. Some example_chunks)) () (wd_options plain_walk)
     example_state (example_spec [114]))) = 1"
proof -
  have wf: "well_formed_dir example_chunks" by code_simp
  then have st: "stable_fs (example_linux (\<lambda>p. Some example_chunks)) example_state"
    by (intro example_linux_stable) simp
  have opts: "\<not> opt_follow_links (wd_options plain_walk)" "\<not> opt_sort (wd_options plain_walk)"
    "opt_process_read_dir (wd_options plain_walk) = None"
    by (simp_all add: plain_walk_def walk_dir_new_def)
  then have safe: "streaming_safe (wd_options plain_walk)" by (simp add: streaming_safe_def)
  have eq: "linux_streaming (example_linux (\<lambda>p. Some example_chunks)) () (wd_options plain_walk) example_state =
      listed_closure (\<lambda>p. Some example_chunks) () (wd_options plain_walk)"
    using wf opts by (intro streaming_closure_listed) simp_all
  have "length (fst (listed_closure (\<lambda>p. Some example_chunks) () (wd_options plain_walk) (example_spec [114]))) = 1"
    by code_simp
  with linux_closure_streams_children [OF st safe] eq show ?thesis by simp
qed

section \<open>Followed links\<close>

text \<open>The entry of a link whose target is a directory that is no ancestor descends into the link.\<close>

lemma followed_link_spec:
  assumes "lde_d_type info = DT_LNK" and "ra_follow_links args"
    and "\<not> (ra_skip_hidden args \<and> is_hidden (lde_name info))"
    and "fs_metadata (lo_fs ops) (path_join (ra_path args) (lde_name info)) = Inr m" and "ft_is_dir (fm_file_type Unix m)"
    and "fs_read_link (lo_fs ops) (path_join (ra_path args) (lde_name info)) = Inr target"
    and "find_loop (lo_fs ops) (link_target (lo_fs ops) (ra_path args) target) (ra_ancestors args) = None"
  shows "\<exists>e. linux_entry_results ops dflt args fd [info] = [Inr e] \<and>
           de_read_children_path e = Some (path_join (ra_path args) (lde_name info))"
proof -
  have "lde_d_type info \<noteq> DT_UNKNOWN" using assms(1) by (simp add: DT_LNK_def DT_UNKNOWN_def)
  then have "ft_is_symlink (ef_file_type (linux_entry_fill ops info (ra_read_metadata args)
      (ra_read_metadata_ext args) fd))"
    using assms(1) linux_entry_fill_type(2) by blast
  with assms show ?thesis
    by (simp add: linux_entry_results_def List.map_filter_def make_dir_entry_linux_def from_raw_on_def
        process_dir_entry_result_on_def follow_symlink_on_def from_path_on_def de_path_on_def Let_def)
qed

lemma linux_entry_results_Cons:
  "linux_entry_results ops dflt args fd (info # es) =
   linux_entry_results ops dflt args fd [info] @ linux_entry_results ops dflt args fd es"
  by (simp add: linux_entry_results_def List.map_filter_def split: option.split)

text \<open>Whatever the options, an entry of type directory is one child of the result.\<close>

lemma visible_dir_spec:
  assumes "lde_d_type info = DT_DIR" and "0 < ra_contents_depth args"
    and "\<not> (ra_skip_hidden args \<and> is_hidden (lde_name info))"
  shows "\<exists>e. linux_entry_results ops dflt args fd [info] = [Inr e] \<and> de_read_children_path e \<noteq> None"
proof -
  have "lde_d_type info \<noteq> DT_UNKNOWN" "lde_d_type info \<noteq> DT_LNK"
    using assms(1) by (simp_all add: DT_DIR_def DT_LNK_def DT_UNKNOWN_def)
  then have "ft_is_dir (ef_file_type (linux_entry_fill ops info (ra_read_metadata args) (ra_read_metadata_ext args) fd))"
    "\<not> ft_is_symlink (ef_file_type (linux_entry_fill ops info (ra_read_metadata args) (ra_read_metadata_ext args) fd))"
    using assms(1) linux_entry_fill_type by blast+
  with assms(3) show ?thesis
    by (simp add: linux_entry_results_def List.map_filter_def make_dir_entry_linux_def from_raw_on_def
        process_dir_entry_result_on_def Let_def)
qed

lemma visible_dirs_le_children:
  assumes "0 < ra_contents_depth args"
  shows "length (visible_dirs args es) \<le>
         length (List.map_filter (child_spec st) (linux_entry_results ops dflt args fd es))"
proof (induction es)
  case (Cons info es)
  show ?case
  proof (cases "lde_d_type info = DT_DIR \<and> \<not> (ra_skip_hidden args \<and> is_hidden (lde_name info))")
    case True
    with visible_dir_spec [of info args ops dflt fd] assms obtain e
      where "linux_entry_results ops dflt args fd [info] = [Inr e]" "de_read_children_path e \<noteq> None" by blast
    then have "length (List.map_filter (child_spec st) (linux_entry_results ops dflt args fd [info])) = 1"
      by (auto simp: List.map_filter_simps child_spec_def read_children_spec_def)
    with True Cons.IH show ?thesis
      by (subst linux_entry_results_Cons) (simp add: map_filter_append visible_dirs_def)
  next
    case False
    with Cons.IH show ?thesis
      by (subst linux_entry_results_Cons) (auto simp: map_filter_append visible_dirs_def)
  qed
qed (simp add: visible_dirs_def)

lemma followed_link_child:
  assumes "info \<in> set es" and "0 < ra_contents_depth args"
    and "lde_d_type info = DT_LNK" and "ra_follow_links args"
    and "\<not> (ra_skip_hidden args \<and> is_hidden (lde_name info))"
    and "fs_metadata (lo_fs ops) (path_join (ra_path args) (lde_name info)) = Inr m" and "ft_is_dir (fm_file_type Unix m)"
    and "fs_read_link (lo_fs ops) (path_join (ra_path args) (lde_name info)) = Inr target"
    and "find_loop (lo_fs ops) (link_target (lo_fs ops) (ra_path args) target) (ra_ancestors args) = None"
  shows "path_join (ra_path args) (lde_name info) \<in>
           spec_path ` set (List.map_filter (child_spec st) (linux_entry_results ops dflt args fd es))"
    and "length (visible_dirs args es) <
         length (List.map_filter (child_spec st) (linux_entry_results ops dflt args fd es))"
proof -
  let ?kids = "\<lambda>es. List.map_filter (child_spec st) (linux_entry_results ops dflt args fd es)"
  obtain e where e: "linux_entry_results ops dflt args fd [info] = [Inr e]"
      "de_read_children_path e = Some (path_join (ra_path args) (lde_name info))"
    using followed_link_spec [OF assms(3-9)] by blast
  have link: "map spec_path (?kids [info]) = [path_join (ra_path args) (lde_name info)]"
    using e by (simp add: List.map_filter_simps child_spec_def read_children_spec_def)
  obtain us vs where es: "es = us @ info # vs" using assms(1) by (metis split_list)
  have split: "?kids es = ?kids us @ ?kids [info] @ ?kids vs"
  proof -
    have "linux_entry_results ops dflt args fd (us @ ws) =
        linux_entry_results ops dflt args fd us @ linux_entry_results ops dflt args fd ws" for ws
      by (simp add: linux_entry_results_def map_filter_append)
    then show ?thesis
      using linux_entry_results_Cons [of ops dflt args fd info vs] by (simp add: es map_filter_append)
  qed
  have "path_join (ra_path args) (lde_name info) \<in> set (map spec_path (?kids [info]))" by (simp add: link)
  then show "path_join (ra_path args) (lde_name info) \<in> spec_path ` set (?kids es)"
    by (simp add: split image_Un)
  have "DT_LNK \<noteq> DT_DIR" by (simp add: DT_LNK_def DT_DIR_def)
  then have "length (visible_dirs args es) = length (visible_dirs args us) + length (visible_dirs args vs)"
    using assms(3) by (simp add: es visible_dirs_def)
  moreover have "length (?kids [info]) = 1" using arg_cong [OF link, of length] by simp
  ultimately show "length (visible_dirs args es) < length (?kids es)"
    using visible_dirs_le_children [OF assms(2), of us st ops dflt fd]
      visible_dirs_le_children [OF assms(2), of vs st ops dflt fd]
    by (simp add: split)
qed

text \<open>The same over the whole end of a read, whose prefetch keeps types and names.\<close>

lemma linux_read_dir_followed_link:
  assumes "l \<in> set L" and "0 < ra_contents_depth args"
    and "lde_d_type l = DT_LNK" and "ra_follow_links args"
    and "\<not> (ra_skip_hidden args \<and> is_hidden (lde_name l))"
    and "fs_metadata (lo_fs ops) (path_join (ra_path args) (lde_name l)) = Inr m" and "ft_is_dir (fm_file_type Unix m)"
    and "fs_read_link (lo_fs ops) (path_join (ra_path args) (lde_name l)) = Inr target"
    and "find_loop (lo_fs ops) (link_target (lo_fs ops) (ra_path args) target) (ra_ancestors args) = None"
    and "\<not> ra_sort args" and "ra_process_read_dir args = None"
  shows "path_join (ra_path args) (lde_name l) \<in>
           spec_path ` set (read_children_specs (fst (linux_read_dir ops dflt args fd L n s)))"
    and "length (visible_dirs args L) < length (read_children_specs (fst (linux_read_dir ops dflt args fd L n s)))"
proof -
  obtain es s' where pre: "prefetch_statx ops args fd L s = (es, s')" by fastforce
  have keys: "map lde_key es = map lde_key L" using prefetch_statx_keeps [of ops args fd L s] pre by simp
  have kids: "read_children_specs (fst (linux_read_dir ops dflt args fd L n s)) =
      List.map_filter (child_spec (ra_client_read_state args)) (linux_entry_results ops dflt args fd es)"
    using pre assms(10,11) by (simp add: linux_read_dir_def finish_results_def Let_def)
  have "lde_key l \<in> set (map lde_key es)" using assms(1) unfolding keys by simp
  then obtain i where i: "i \<in> set es" "lde_d_type i = lde_d_type l" "lde_name i = lde_name l"
    by (auto simp: lde_key_def)
  have len: "length (visible_dirs args es) = length (visible_dirs args L)"
    using arg_cong [OF visible_dirs_keys [OF keys, of args], of length] by simp
  note c = followed_link_child [where info = i and args = args and ops = ops and es = es, OF i(1) assms(2),
      unfolded i(2,3), OF assms(3-9), of "ra_client_read_state args" dflt fd]
  show "path_join (ra_path args) (lde_name l) \<in>
      spec_path ` set (read_children_specs (fst (linux_read_dir ops dflt args fd L n s)))"
    unfolding kids using c(1) .
  show "length (visible_dirs args L) < length (read_children_specs (fst (linux_read_dir ops dflt args fd L n s)))"
    unfolding kids using c(2) len by simp
qed

subsection \<open>A file system with a circle\<close>

text \<open>
  The root \<open>/r\<close> (inode 1) holds the directory \<open>a\<close> (inode 2) and the link \<open>l\<close> (inode 7) to \<open>/d\<close>; the
  directory \<open>/d\<close> (inode 9) holds only the link \<open>b\<close> (inode 8) to \<open>/d\<close>. \<open>circle_links\<close> counts the links that
  a path to \<open>/d\<close> passes through; beyond 40 the kernel gives \<open>ELOOP\<close>.
\<close>

fun circle_links :: "path \<Rightarrow> nat option" where
  "circle_links p =
     (if p = [47, 100] then Some 0
      else if p = [47, 114, 47, 108] then Some 1
      else if 4 \<le> length p \<and> drop (length p - 2) p = [47, 98]
      then map_option Suc (circle_links (take (length p - 2) p)) else None)"

declare circle_links.simps [simp del]

definition circle_resolve :: "path \<Rightarrow> io_error + path" where
  "circle_resolve p =
     (if p = [47, 114] \<or> p = [47, 114, 47, 97] then Inr p
      else case circle_links p of
        Some n \<Rightarrow> if n \<le> 40 then Inr [47, 100] else Inl (OsError 40 OtherKind)
      | None \<Rightarrow> Inl (OsError 2 OtherKind))"

definition circle_dir :: "path \<Rightarrow> fs_metadata" where
  "circle_dir p =
     directory_metadata\<lparr>fm_ino := if p = [47, 114] then 1 else if p = [47, 114, 47, 97] then 2 else 9\<rparr>"

definition circle_link :: "u64 \<Rightarrow> fs_metadata" where
  "circle_link i = directory_metadata\<lparr>fm_mode := S_IFLNK, fm_ino := i\<rparr>"

text \<open>\<open>lstat\<close> and \<open>readlink\<close> resolve all but the last component.\<close>

definition circle_link_of :: "path \<Rightarrow> io_error + fs_metadata option" where
  "circle_link_of p =
     (if p = [47, 114, 47, 108] then Inr (Some (circle_link 7))
      else if 4 \<le> length p \<and> drop (length p - 2) p = [47, 98]
      then map_sum id (\<lambda>_. Some (circle_link 8)) (circle_resolve (take (length p - 2) p))
      else map_sum id (\<lambda>_. None) (circle_resolve p))"

definition circle_fs :: fs_ops where
  "circle_fs =
     \<lparr>fs_metadata = (\<lambda>p. map_sum id circle_dir (circle_resolve p)),
      fs_symlink_metadata = (\<lambda>p. case circle_link_of p of
          Inl e \<Rightarrow> Inl e | Inr (Some m) \<Rightarrow> Inr m | Inr None \<Rightarrow> map_sum id circle_dir (circle_resolve p)),
      fs_read_link = (\<lambda>p. case circle_link_of p of
          Inl e \<Rightarrow> Inl e | Inr (Some m) \<Rightarrow> Inr [47, 100] | Inr None \<Rightarrow> Inl (OsError 22 InvalidInput)),
      fs_canonicalize = circle_resolve\<rparr>"

definition circle_listing :: "path \<Rightarrow> dirent list list option" where
  "circle_listing p =
     (case circle_resolve p of
        Inl e \<Rightarrow> None
      | Inr q \<Rightarrow> Some
          (if q = [47, 114] then [[example_dirent DT_DIR [97], example_dirent DT_LNK [108]]]
           else if q = [47, 100] then [[example_dirent DT_LNK [98]]] else []))"

definition circle_linux :: "dirent list list linux_ops" where
  "circle_linux = (example_linux circle_listing)\<lparr>lo_fs := circle_fs\<rparr>"

definition circle_walk :: "(unit, unit, unit) walk_dir" where
  "circle_walk = set_follow_links True (walk_dir_new () [47, 114])"

text \<open>
  C36. With followed links, without sorting and client callback, the streaming contract fails in every
  directory that holds a directory and a link to a directory: what is scheduled while it is enumerated
  are exactly its visible records of type directory; nothing is scheduled afterwards; yet the link is
  a directory of the result too, so the result has more children than are ever scheduled. Stated
  for any system that lists the directory to its end, any other options and any link that is followed.
\<close>

theorem streaming_misses_followed_links:
  fixes ops :: "'k linux_ops" and opts :: "('p, 'd, 'r) walk_dir_options" and spec :: "'r read_dir_spec"
    and dflt :: 'd and s :: "'k linux_state"
  defines "args \<equiv> callback_args Unix (lo_fs ops) opts spec :: ('d, 'r) read_args"
    and "cb \<equiv> linux_streaming ops dflt opts s"
  assumes "open_dir_fd (lo_dents ops) (spec_path spec) (ls_kernel s) = (Inr fd, k)"
    and "serves (lo_dents ops) fd k chunks (Inr ())" and "\<not> lo_legacy ops"
    and "usize_saturating_add (spec_depth spec) 1 \<le> opt_max_depth opts"
    and "opt_follow_links opts" and "\<not> opt_sort opts" and "opt_process_read_dir opts = None"
    and "visible_dirs args (listed (concat chunks)) \<noteq> []"
    and "l \<in> set (listed (concat chunks))" and "lde_d_type l = DT_LNK"
    and "\<not> (opt_skip_hidden opts \<and> is_hidden (lde_name l))"
    and "fs_metadata (lo_fs ops) (path_join (spec_path spec) (lde_name l)) = Inr m" and "ft_is_dir (fm_file_type Unix m)"
    and "fs_read_link (lo_fs ops) (path_join (spec_path spec) (lde_name l)) = Inr target"
    and "find_loop (lo_fs ops) (link_target (lo_fs ops) (spec_path spec) target) (ra_ancestors args) = None"
  shows "map spec_path (fst (cb spec)) =
           map (\<lambda>e. path_join (spec_path spec) (lde_name e)) (visible_dirs args (listed (concat chunks))) \<and>
         (\<forall>x. regular_children (full_result cb spec) x = []) \<and>
         path_join (spec_path spec) (lde_name l) \<in> spec_path ` set (result_children (full_result cb spec)) \<and>
         length (fst (cb spec)) < length (result_children (full_result cb spec)) \<and>
         \<not> streams_ok cb"
proof -
  let ?L = "listed (concat chunks)"
  let ?rd = "fst (linux_read_dir ops dflt args fd ?L 0 s)"
  have sel: "ra_path args = spec_path spec" "ra_follow_links args" "\<not> ra_sort args"
    "ra_process_read_dir args = None" "0 < ra_contents_depth args" "ra_skip_hidden args = opt_skip_hidden opts"
    using assms(7-9) by (simp_all add: args_def callback_args_def usize_saturating_add_def usize_MAX_def)
  have o: "open_dir_fd (lo_dents ops) (ra_path args) (ls_kernel s) = (Inr fd, k)" using assms(3) sel(1) by simp
  have "\<exists>s'. read_dir_unix ops dflt (callback_args Unix (lo_fs ops) opts spec)
      (Some (recording_context (index_path_new []) 0)) s [] =
      Some (Inr (?rd\<lparr>streamed_child_count := length (visible_dirs args ?L)\<rparr>), s',
        streamed_list (index_path_new []) 0 0 (map (subdir_spec args) (visible_dirs args ?L)))"
    using getdents_streams_visible [OF o assms(4) sel(3,4) refl, of dflt "index_path_new []" 0] assms(5)
    by (simp add: read_dir_unix_def flip: args_def)
  note c = streaming_closure_first [where read = "read_dir_unix ops dflt", OF assms(6) this, folded cb_def]
  have cb: "cb spec = (map (subdir_spec args) (visible_dirs args ?L), \<lambda>n. Inr (?rd\<lparr>streamed_child_count := n\<rparr>))"
    using c by simp
  note link = linux_read_dir_followed_link [where args = args and ops = ops and dflt = dflt and L = ?L and l = l
      and fd = fd and n = 0 and s = s, unfolded sel(1,6), OF assms(11) sel(5) assms(12) sel(2) assms(13-17) sel(3,4)]
  have full: "full_result cb spec = Inr (?rd\<lparr>streamed_child_count := length (visible_dirs args ?L)\<rparr>)"
    by (simp add: full_result_def cb)
  have paths: "map spec_path (fst (cb spec)) = map (\<lambda>e. path_join (spec_path spec) (lde_name e)) (visible_dirs args ?L)"
    by (simp add: cb subdir_spec_def sel(1))
  have less: "length (fst (cb spec)) < length (result_children (full_result cb spec))"
    using link(2) by (simp add: cb full result_children_def)
  have "\<not> streams_ok cb"
    unfolding streams_ok_def Let_def using less assms(10) by (intro notI) (drule spec [of _ spec], simp add: cb)
  with paths less link(1) assms(10) show ?thesis by (simp add: full regular_children_def result_children_def)
qed

theorem streaming_misses_followed_links_witness:
  "let cb = linux_streaming circle_linux () (wd_options circle_walk) example_state;
       spec = example_spec [47, 114]
   in map spec_path (fst (cb spec)) = [[47, 114, 47, 97]] \<and>
      [47, 114, 47, 108] \<in> spec_path ` set (result_children (full_result cb spec))"
proof -
  let ?chunks = "[[example_dirent DT_DIR [97], example_dirent DT_LNK [108]]]"
  let ?opts = "wd_options circle_walk" and ?spec = "example_spec [47, 114]"
  let ?l = "owned_entry DT_LNK [108]"
  let ?args = "callback_args Unix (lo_fs circle_linux) ?opts ?spec :: (unit, unit) read_args"
  have o: "open_dir_fd (lo_dents circle_linux) (spec_path ?spec) (ls_kernel example_state) = (Inr 3, ?chunks)"
    by (simp add: open_dir_fd_def cstring_new_def circle_linux_def example_linux_def tree_kernel_def example_spec_def
        circle_listing_def circle_resolve_def)
  have "well_formed_dir ?chunks" by code_simp
  then have sv: "serves (lo_dents circle_linux) 3 ?chunks ?chunks (Inr ())"
    using tree_kernel_serves [of ?chunks] by (simp add: well_formed_dir_def circle_linux_def example_linux_def)
  have opts: "\<not> lo_legacy circle_linux" "usize_saturating_add (spec_depth ?spec) 1 \<le> opt_max_depth ?opts"
    "opt_follow_links ?opts" "\<not> opt_sort ?opts" "opt_process_read_dir ?opts = None" "spec_path ?spec = [47, 114]"
    by (simp_all add: circle_linux_def example_linux_def usize_saturating_add_def setter_defs circle_walk_def
        walk_dir_new_def example_spec_def)
  have L: "listed (concat ?chunks) = [owned_entry DT_DIR [97], ?l]" by code_simp
  have vis: "visible_dirs ?args (listed (concat ?chunks)) = [owned_entry DT_DIR [97]]" unfolding L by code_simp
  have ne: "visible_dirs ?args (listed (concat ?chunks)) \<noteq> []" unfolding vis by simp
  have l: "?l \<in> set (listed (concat ?chunks))" "lde_d_type ?l = DT_LNK"
    "\<not> (opt_skip_hidden ?opts \<and> is_hidden (lde_name ?l))"
    "path_join (spec_path ?spec) (lde_name ?l) = [47, 114, 47, 108]"
    "path_join (spec_path ?spec) (lde_name (owned_entry DT_DIR [97])) = [47, 114, 47, 97]"
    by (simp add: L, code_simp+)
  have fs: "fs_metadata (lo_fs circle_linux) [47, 114, 47, 108] = Inr (circle_dir [47, 100])"
    "ft_is_dir (fm_file_type Unix (circle_dir [47, 100]))"
    "fs_read_link (lo_fs circle_linux) [47, 114, 47, 108] = Inr [47, 100]"
    "find_loop (lo_fs circle_linux) (link_target (lo_fs circle_linux) (spec_path ?spec) [47, 100]) (ra_ancestors ?args) = None"
    by code_simp+
  note t = streaming_misses_followed_links [OF o sv opts(1-5) ne l(1-3), unfolded l(4), OF fs]
  from t show ?thesis unfolding Let_def vis by (simp add: l(5))
qed

text \<open>
  C38. The identity that is kept for a directory is the one of its path without following a last link.
  When a directory \<open>p\<close> is read that was entered through a link (so the link and the directory have
  different identities, and the directory is not among the ancestors yet), a link inside it that leads
  back to it is therefore not refused but descended into, on any Unix file system: its target is
  compared with the identity of the link \<open>p\<close> instead of the one of the directory. With the identity of
  the directory in the chain, the same link is refused, with \<open>p\<close> as the ancestor. This is a statement about
  one step; how often the circle is walked depends on where the system refuses a path (\<open>ELOOP\<close>).
\<close>

theorem link_identity_hides_directory:
  assumes "fs_symlink_metadata fs p = Inr lm" and "fs_metadata fs p = Inr dm"
    and "(fm_dev lm, fm_ino lm) \<noteq> (fm_dev dm, fm_ino dm)"
    and "spec_path spec = p" and "spec_follow_link_ancestors spec = Some as" and "opt_follow_links opts"
    and "list_all (\<lambda>a. \<not> ancestor_identity_eq (get_metadata_ext Unix dm) a) as"
    and "de_follow_link_ancestors e = ra_ancestors (callback_args Unix fs opts spec)"
    and "fs_metadata fs (de_path e) = Inr m" and "ft_is_dir (fm_file_type Unix m)"
    and "fs_read_link fs (de_path e) = Inr target"
    and "fs_metadata fs (link_target fs (de_parent_path e) target) = fs_metadata fs p"
  shows "(\<exists>dent. follow_symlink fs dflt e = Inr dent \<and> de_read_children_path dent = Some (de_path e)) \<and>
         follow_symlink fs dflt (e\<lparr>de_follow_link_ancestors := Some (as @ [UnixIdentity p (fm_dev dm) (fm_ino dm)])\<rparr>) =
           Inl (error_from_loop (de_depth e) p (de_path e))"
proof -
  let ?id = "get_metadata_ext Unix dm"
  have anc: "de_follow_link_ancestors e = Some (as @ [UnixIdentity p (fm_dev lm) (fm_ino lm)])"
    using assms(1,4-6,8)
    by (simp add: callback_args_def extend_ancestors_def ancestor_identity_from_path_def get_metadata_ext_def)
  have link: "\<not> ancestor_identity_eq ?id (UnixIdentity p (fm_dev lm) (fm_ino lm))"
    and dir: "ancestor_identity_eq ?id (UnixIdentity p (fm_dev dm) (fm_ino dm))"
    using assms(3) by (auto simp: get_metadata_ext_def)
  have target: "fs_metadata fs (link_target fs (de_parent_path e) target) = Inr dm" using assms(2,12) by simp
  have "find (ancestor_identity_eq ?id) (rev (as @ [UnixIdentity p (fm_dev lm) (fm_ino lm)])) = None"
    using assms(7) link by (simp add: find_None_iff list_all_iff)
  then have "find_loop fs (link_target fs (de_parent_path e) target) (de_follow_link_ancestors e) = None"
    using target by (simp add: find_loop_on_def anc)
  moreover have "find_loop fs (link_target fs (de_parent_path e) target)
      (Some (as @ [UnixIdentity p (fm_dev dm) (fm_ino dm)])) = Some (UnixIdentity p (fm_dev dm) (fm_ino dm))"
    using target dir by (simp add: find_loop_on_def)
  ultimately show ?thesis
    using assms(9-11) by (simp add: follow_symlink_on_def from_path_on_def de_path_on_def Let_def)
qed

text \<open>In the circle, \<open>/r/l\<close> is entered and the link \<open>/r/l/b\<close> in it is descended into again.\<close>

theorem link_identity_hides_directory_witness:
  "let e = \<lparr>de_depth = 2, de_file_name = [98], de_file_type = UnixFileType S_IFLNK, de_client_state = (),
        de_parent_path = [47, 114, 47, 108], de_read_children_path = None, de_read_children_error = None,
        de_read_metadata = False, de_metadata = None, de_read_metadata_ext = False, de_metadata_ext = None,
        de_follow_link = False, de_follow_link_ancestors =
          Some [UnixIdentity [47, 114] 1 1, UnixIdentity [47, 114, 47, 108] 1 7]\<rparr>
   in map_sum id de_read_children_path (follow_symlink circle_fs () e) = Inr (Some [47, 114, 47, 108, 47, 98])"
proof -
  let ?p = "[47, 114, 47, 108]" and ?as = "[UnixIdentity [47, 114] 1 1]"
  let ?e = "\<lparr>de_depth = 2, de_file_name = [98], de_file_type = UnixFileType S_IFLNK, de_client_state = (),
        de_parent_path = ?p, de_read_children_path = None, de_read_children_error = None,
        de_read_metadata = False, de_metadata = None, de_read_metadata_ext = False, de_metadata_ext = None,
        de_follow_link = False, de_follow_link_ancestors =
          Some [UnixIdentity [47, 114] 1 1, UnixIdentity [47, 114, 47, 108] 1 7]\<rparr> :: unit dir_entry"
  let ?spec = "\<lparr>spec_depth = 1, spec_path = ?p, spec_client_read_state = (), spec_follow_link_ancestors = Some ?as\<rparr>
      :: unit read_dir_spec"
  have p: "fs_symlink_metadata circle_fs ?p = Inr (circle_link 7)" "fs_metadata circle_fs ?p = Inr (circle_dir [47, 100])"
    "(fm_dev (circle_link 7), fm_ino (circle_link 7)) \<noteq> (fm_dev (circle_dir [47, 100]), fm_ino (circle_dir [47, 100]))"
    by code_simp+
  have s: "spec_path ?spec = ?p" "spec_follow_link_ancestors ?spec = Some ?as" "opt_follow_links (wd_options circle_walk)"
    by (simp_all add: circle_walk_def setter_defs)
  have as: "list_all (\<lambda>a. \<not> ancestor_identity_eq (get_metadata_ext Unix (circle_dir [47, 100])) a) ?as" by code_simp
  have anc: "de_follow_link_ancestors ?e = ra_ancestors (callback_args Unix circle_fs (wd_options circle_walk) ?spec)"
    by code_simp
  have path: "de_path ?e = ?p @ [47, 98]" by code_simp
  have t: "fs_metadata circle_fs (de_path ?e) = Inr (circle_dir [47, 100])"
    "ft_is_dir (fm_file_type Unix (circle_dir [47, 100]))" "fs_read_link circle_fs (de_path ?e) = Inr [47, 100]"
    "fs_metadata circle_fs (link_target circle_fs (de_parent_path ?e) [47, 100]) = fs_metadata circle_fs ?p"
    by code_simp+
  from link_identity_hides_directory [OF p s as anc t, of "()"] path show ?thesis by auto
qed

end
