(* ===== verification/Wide.thy ===== *)
theory Wide
  imports Prelude
begin

text \<open>
  What the Windows part of the crate uses of the standard library at the level of bytes:
  \<open>OsString::from_wide\<close> and \<open>OsStr::encode_wide\<close>, the conversions between UTF-16 units and the
  WTF-8 bytes of an \<open>OsString\<close> (lone surrogates are kept as three-byte sequences), and little-endian
  integers in a byte buffer.
\<close>

section \<open>Code points\<close>

definition is_high_surrogate :: "u16 \<Rightarrow> bool" where
  "is_high_surrogate u \<longleftrightarrow> 0xD800 \<le> unat u \<and> unat u < 0xDC00"

definition is_low_surrogate :: "u16 \<Rightarrow> bool" where
  "is_low_surrogate u \<longleftrightarrow> 0xDC00 \<le> unat u \<and> unat u < 0xE000"

text \<open>\<open>char::decode_utf16\<close>, with an unpaired surrogate as a code point of its own.\<close>

fun decode_utf16 :: "u16 list \<Rightarrow> nat list" where
  "decode_utf16 [] = []"
| "decode_utf16 [u] = [unat u]"
| "decode_utf16 (u # v # us) =
     (if is_high_surrogate u \<and> is_low_surrogate v
      then (0x10000 + (unat u - 0xD800) * 0x400 + (unat v - 0xDC00)) # decode_utf16 us
      else unat u # decode_utf16 (v # us))"

definition encode_utf16 :: "nat \<Rightarrow> u16 list" where
  "encode_utf16 c =
     (if c < 0x10000 then [of_nat c]
      else [of_nat (0xD800 + (c - 0x10000) div 0x400), of_nat (0xDC00 + (c - 0x10000) mod 0x400)])"

definition encode_wtf8 :: "nat \<Rightarrow> u8 list" where
  "encode_wtf8 c =
     (if c < 0x80 then [of_nat c]
      else if c < 0x800 then [of_nat (0xC0 + c div 64), of_nat (0x80 + c mod 64)]
      else if c < 0x10000
      then [of_nat (0xE0 + c div 4096), of_nat (0x80 + c div 64 mod 64), of_nat (0x80 + c mod 64)]
      else [of_nat (0xF0 + c div 262144), of_nat (0x80 + c div 4096 mod 64),
            of_nat (0x80 + c div 64 mod 64), of_nat (0x80 + c mod 64)])"

text \<open>The code points of WTF-8 bytes; bytes that no \<open>OsString\<close> holds end the list.\<close>

fun decode_wtf8 :: "u8 list \<Rightarrow> nat list" where
  "decode_wtf8 [] = []"
| "decode_wtf8 (b # bs) =
     (if unat b < 0x80 then unat b # decode_wtf8 bs
      else if unat b < 0xE0
      then case bs of
             b2 # bs \<Rightarrow> (unat b mod 32 * 64 + unat b2 mod 64) # decode_wtf8 bs
           | _ \<Rightarrow> []
      else if unat b < 0xF0
      then case bs of
             b2 # b3 # bs \<Rightarrow> (unat b mod 16 * 4096 + unat b2 mod 64 * 64 + unat b3 mod 64) # decode_wtf8 bs
           | _ \<Rightarrow> []
      else case bs of
             b2 # b3 # b4 # bs \<Rightarrow>
               (unat b mod 8 * 262144 + unat b2 mod 64 * 4096 + unat b3 mod 64 * 64 + unat b4 mod 64) #
                 decode_wtf8 bs
           | _ \<Rightarrow> [])"

definition from_wide :: "u16 list \<Rightarrow> os_string" where
  "from_wide wide = concat (map encode_wtf8 (decode_utf16 wide))"

definition encode_wide :: "os_string \<Rightarrow> u16 list" where
  "encode_wide s = concat (map encode_utf16 (decode_wtf8 s))"

section \<open>The conversions are inverse\<close>

lemma unat_u8: "n < 256 \<Longrightarrow> unat (of_nat n :: u8) = n"
  by (simp add: unat_of_nat take_bit_eq_mod)

lemma unat_u16: "n < 65536 \<Longrightarrow> unat (of_nat n :: u16) = n"
  by (simp add: unat_of_nat take_bit_eq_mod)

lemma unat_less_u16: "unat (u :: u16) < 65536"
  using unsigned_less [of u] by simp

lemma of_nat_unat_u16 [simp]: "of_nat (unat (u :: u16)) = u"
  by simp

lemma marker_mod:
  "k < 32 \<Longrightarrow> (0xC0 + k) mod 32 = (k :: nat)" "k < 16 \<Longrightarrow> (0xE0 + k) mod 16 = (k :: nat)"
  "k < 8 \<Longrightarrow> (0xF0 + k) mod 8 = (k :: nat)" "(0x80 + k mod 64) mod 64 = (k mod 64 :: nat)"
  using mod_mult_self1 [of k 6 32] mod_mult_self1 [of k 14 16] mod_mult_self1 [of k 30 8]
    mod_mult_self1 [of "k mod 64" 2 64]
  by (simp_all add: add.commute)

text \<open>A code point is put together again from its groups of six bits.\<close>

lemma six_bit_groups:
  "c div 64 * 64 + c mod 64 = (c :: nat)"
  "c div 4096 * 4096 + c div 64 mod 64 * 64 + c mod 64 = (c :: nat)"
  "c div 262144 * 262144 + c div 4096 mod 64 * 4096 + c div 64 mod 64 * 64 + c mod 64 = (c :: nat)"
proof -
  show two: "c div 64 * 64 + c mod 64 = c" by simp
  have "c div 4096 * 64 + c div 64 mod 64 = c div 64"
    using div_mult_mod_eq [of "c div 64" 64] by (simp add: div_mult2_eq [symmetric])
  with two show three: "c div 4096 * 4096 + c div 64 mod 64 * 64 + c mod 64 = c" by linarith
  have "c div 262144 * 64 + c div 4096 mod 64 = c div 4096"
    using div_mult_mod_eq [of "c div 4096" 64] by (simp add: div_mult2_eq [symmetric])
  with three show "c div 262144 * 262144 + c div 4096 mod 64 * 4096 + c div 64 mod 64 * 64 + c mod 64 = c"
    by linarith
qed

lemma decode_encode_wtf8:
  assumes "c < 0x110000"
  shows "decode_wtf8 (encode_wtf8 c @ bs) = c # decode_wtf8 bs"
proof -
  consider "c < 0x80" | "0x80 \<le> c" "c < 0x800" | "0x800 \<le> c" "c < 0x10000" | "0x10000 \<le> c" by linarith
  then show ?thesis
  proof cases
    case 1
    then show ?thesis by (simp add: encode_wtf8_def unat_u8)
  next
    case 2
    then have "c div 64 < 32" by simp
    with 2 six_bit_groups(1) [of c] show ?thesis by (simp add: encode_wtf8_def unat_u8 marker_mod del: of_nat_add)
  next
    case 3
    then have "c div 4096 < 16" by simp
    with 3 six_bit_groups(2) [of c] show ?thesis by (simp add: encode_wtf8_def unat_u8 marker_mod del: of_nat_add)
  next
    case 4
    from assms have "c div 262144 < 5" by simp
    with 4 six_bit_groups(3) [of c] show ?thesis by (simp add: encode_wtf8_def unat_u8 marker_mod del: of_nat_add)
  qed
qed

lemma decode_wtf8_concat:
  "\<forall>c \<in> set cs. c < 0x110000 \<Longrightarrow> decode_wtf8 (concat (map encode_wtf8 cs)) = cs"
  by (induction cs) (simp_all add: decode_encode_wtf8)

lemma decode_utf16_bound: "c \<in> set (decode_utf16 ws) \<Longrightarrow> c < 0x110000"
proof (induction ws rule: decode_utf16.induct)
  case (2 u)
  then show ?case using unat_less_u16 [of u] by simp
next
  case (3 u v us)
  show ?case
  proof (cases "is_high_surrogate u \<and> is_low_surrogate v")
    case True
    then have "0x10000 + (unat u - 0xD800) * 0x400 + (unat v - 0xDC00) < 0x110000"
      by (auto simp: is_high_surrogate_def is_low_surrogate_def)
    with 3 True show ?thesis by auto
  next
    case False
    with 3 unat_less_u16 [of u] show ?thesis by auto
  qed
qed simp

lemma encode_decode_utf16: "concat (map encode_utf16 (decode_utf16 ws)) = ws"
proof (induction ws rule: decode_utf16.induct)
  case (2 u)
  then show ?case using unat_less_u16 [of u] by (simp add: encode_utf16_def)
next
  case (3 u v us)
  show ?case
  proof (cases "is_high_surrogate u \<and> is_low_surrogate v")
    case True
    define h l where hl: "h = unat u - 0xD800" "l = unat v - 0xDC00"
    from True have u: "unat u = 0xD800 + h" and v: "unat v = 0xDC00 + l" and "l < 0x400"
      by (auto simp: is_high_surrogate_def is_low_surrogate_def hl)
    then have "(h * 0x400 + l) div 0x400 = h" "(h * 0x400 + l) mod 0x400 = l" by simp_all
    moreover have "of_nat (0xD800 + h) = u" "of_nat (0xDC00 + l) = v"
      using of_nat_unat_u16 [of u] of_nat_unat_u16 [of v] unfolding u v .
    ultimately have "encode_utf16 (0x10000 + h * 0x400 + l) = [u, v]"
      unfolding encode_utf16_def by (simp only: add_diff_cancel_left' add.assoc not_add_less1 if_False)
    with 3 True show ?thesis by (simp add: hl)
  next
    case False
    have "encode_utf16 (unat u) = [u]" using unat_less_u16 [of u] by (simp add: encode_utf16_def)
    with 3 False show ?thesis by auto
  qed
qed simp

lemma encode_from_wide [simp]: "encode_wide (from_wide ws) = ws"
  by (simp add: encode_wide_def from_wide_def decode_wtf8_concat decode_utf16_bound encode_decode_utf16)

lemma from_wide_inject [simp]: "from_wide ws = from_wide vs \<longleftrightarrow> ws = vs"
  by (metis encode_from_wide)

section \<open>Little-endian integers\<close>

fun le_nat :: "u8 list \<Rightarrow> nat" where
  "le_nat [] = 0"
| "le_nat (b # bs) = unat b + 256 * le_nat bs"

fun le_bytes :: "nat \<Rightarrow> nat \<Rightarrow> u8 list" where
  "le_bytes 0 n = []"
| "le_bytes (Suc k) n = of_nat (n mod 256) # le_bytes k (n div 256)"

lemma length_le_bytes [simp]: "length (le_bytes k n) = k"
  by (induction k arbitrary: n) simp_all

lemma le_nat_le_bytes: "le_nat (le_bytes k n) = n mod 256 ^ k"
proof (induction k arbitrary: n)
  case (Suc k)
  have "n mod (256 * 256 ^ k) = 256 * (n div 256 mod 256 ^ k) + n mod 256" by (rule mod_mult2_eq)
  with Suc show ?case by (simp add: unat_u8)
qed simp

definition u16_at :: "u8 list \<Rightarrow> nat \<Rightarrow> u16" where
  "u16_at buf i = of_nat (le_nat (take 2 (drop i buf)))"

definition u32_at :: "u8 list \<Rightarrow> nat \<Rightarrow> u32" where
  "u32_at buf i = of_nat (le_nat (take 4 (drop i buf)))"

definition u64_at :: "u8 list \<Rightarrow> nat \<Rightarrow> u64" where
  "u64_at buf i = of_nat (le_nat (take 8 (drop i buf)))"

lemma unat_mod_width:
  "unat (a :: u16) mod 65536 = unat a" "unat (b :: u32) mod 4294967296 = unat b"
  "unat (c :: u64) mod 18446744073709551616 = unat c"
  using unsigned_less [of a, where 'a = nat] unsigned_less [of b, where 'a = nat]
    unsigned_less [of c, where 'a = nat] by simp_all

text \<open>A field that stands behind a prefix of the buffer is read back.\<close>

lemma le_at_encoded:
  "length pre = i \<Longrightarrow> u16_at (pre @ le_bytes 2 (unat (a :: u16)) @ rest) i = a"
  "length pre = i \<Longrightarrow> u32_at (pre @ le_bytes 4 (unat (b :: u32)) @ rest) i = b"
  "length pre = i \<Longrightarrow> u64_at (pre @ le_bytes 8 (unat (c :: u64)) @ rest) i = c"
  by (auto simp: u16_at_def u32_at_def u64_at_def le_nat_le_bytes unat_mod_width simp del: le_bytes.simps)

definition u16s_at :: "u8 list \<Rightarrow> nat \<Rightarrow> nat \<Rightarrow> u16 list" where
  "u16s_at buf i n = map (\<lambda>j. u16_at buf (i + 2 * j)) [0..<n]"

definition wide_bytes :: "u16 list \<Rightarrow> u8 list" where
  "wide_bytes ws = concat (map (le_bytes 2 \<circ> unat) ws)"

lemma length_wide_bytes [simp]: "length (wide_bytes ws) = 2 * length ws"
  by (induction ws) (simp_all add: wide_bytes_def del: le_bytes.simps)

lemma u16s_at_encoded:
  "length pre = i \<Longrightarrow> u16s_at (pre @ wide_bytes ws @ rest) i (length ws) = ws"
proof (induction ws arbitrary: pre i)
  case (Cons w ws)
  have w: "wide_bytes (w # ws) = le_bytes 2 (unat w) @ wide_bytes ws" by (simp add: wide_bytes_def)
  have "u16s_at ((pre @ le_bytes 2 (unat w)) @ wide_bytes ws @ rest) (i + 2) (length ws) = ws"
    using Cons.prems by (intro Cons.IH) simp
  moreover have "u16_at (pre @ wide_bytes (w # ws) @ rest) i = w"
    using le_at_encoded(1) [OF Cons.prems] by (simp add: w)
  moreover have "[0..<length (w # ws)] = 0 # map Suc [0..<length ws]" by (simp add: map_Suc_upt upt_conv_Cons del: upt_Suc)
  ultimately show ?case by (simp add: u16s_at_def w comp_def del: upt_Suc)
qed (simp add: u16s_at_def)

end
