(* ===== verification/Rust_Text.thy ===== *)
theory Rust_Text
  imports Wide
begin

text \<open>
  Text as the crate and its examples print and compare it: a Rust \<open>String\<close> is the list of its
  Unicode scalar values. \<open>String::from_utf8_lossy\<close> and \<open>OsStr::to_string_lossy\<close> of both platforms,
  ASCII literals and decimal and hexadecimal numbers.
\<close>

type_synonym rust_text = "nat list"

definition REPLACEMENT_CHARACTER :: nat where
  "REPLACEMENT_CHARACTER = 0xFFFD"

definition is_scalar :: "nat \<Rightarrow> bool" where
  "is_scalar c \<longleftrightarrow> c < 0xD800 \<or> 0xE000 \<le> c \<and> c < 0x110000"

text \<open>An ASCII literal.\<close>

definition ascii :: "string \<Rightarrow> rust_text" where
  "ascii s = map of_char s"

section \<open>Lossy conversions\<close>

definition is_continuation :: "u8 \<Rightarrow> bool" where
  "is_continuation b \<longleftrightarrow> 0x80 \<le> unat b \<and> unat b < 0xC0"

text \<open>The second byte of a sequence of three or four bytes, by its first byte.\<close>

definition second_of_three :: "u8 \<Rightarrow> u8 \<Rightarrow> bool" where
  "second_of_three b b2 \<longleftrightarrow>
     (if unat b = 0xE0 then 0xA0 \<le> unat b2 \<and> unat b2 < 0xC0
      else if unat b = 0xED then 0x80 \<le> unat b2 \<and> unat b2 < 0xA0
      else is_continuation b2)"

definition second_of_four :: "u8 \<Rightarrow> u8 \<Rightarrow> bool" where
  "second_of_four b b2 \<longleftrightarrow>
     (if unat b = 0xF0 then 0x90 \<le> unat b2 \<and> unat b2 < 0xC0
      else if unat b = 0xF4 then 0x80 \<le> unat b2 \<and> unat b2 < 0x90
      else is_continuation b2)"

text \<open>
  \<open>String::from_utf8_lossy\<close>, on Unix also \<open>OsStr::to_string_lossy\<close> and \<open>Path::display\<close>: the longest
  prefix of a sequence that is broken off becomes one replacement character.
\<close>

fun from_utf8_lossy :: "u8 list \<Rightarrow> rust_text" where
  "from_utf8_lossy [] = []"
| "from_utf8_lossy (b # bs) =
     (if unat b < 0x80 then unat b # from_utf8_lossy bs
      else if 0xC2 \<le> unat b \<and> unat b < 0xE0
      then case bs of
             b2 # cs \<Rightarrow>
               if is_continuation b2 then (unat b mod 32 * 64 + unat b2 mod 64) # from_utf8_lossy cs
               else REPLACEMENT_CHARACTER # from_utf8_lossy bs
           | [] \<Rightarrow> [REPLACEMENT_CHARACTER]
      else if 0xE0 \<le> unat b \<and> unat b < 0xF0
      then case bs of
             b2 # cs \<Rightarrow>
               if second_of_three b b2
               then case cs of
                      b3 # ds \<Rightarrow>
                        if is_continuation b3
                        then (unat b mod 16 * 4096 + unat b2 mod 64 * 64 + unat b3 mod 64) # from_utf8_lossy ds
                        else REPLACEMENT_CHARACTER # from_utf8_lossy cs
                    | [] \<Rightarrow> [REPLACEMENT_CHARACTER]
               else REPLACEMENT_CHARACTER # from_utf8_lossy bs
           | [] \<Rightarrow> [REPLACEMENT_CHARACTER]
      else if 0xF0 \<le> unat b \<and> unat b < 0xF5
      then case bs of
             b2 # cs \<Rightarrow>
               if second_of_four b b2
               then case cs of
                      b3 # ds \<Rightarrow>
                        if is_continuation b3
                        then case ds of
                               b4 # es \<Rightarrow>
                                 if is_continuation b4
                                 then (unat b mod 8 * 262144 + unat b2 mod 64 * 4096 + unat b3 mod 64 * 64 +
                                       unat b4 mod 64) # from_utf8_lossy es
                                 else REPLACEMENT_CHARACTER # from_utf8_lossy ds
                             | [] \<Rightarrow> [REPLACEMENT_CHARACTER]
                        else REPLACEMENT_CHARACTER # from_utf8_lossy cs
                    | [] \<Rightarrow> [REPLACEMENT_CHARACTER]
               else REPLACEMENT_CHARACTER # from_utf8_lossy bs
           | [] \<Rightarrow> [REPLACEMENT_CHARACTER]
      else REPLACEMENT_CHARACTER # from_utf8_lossy bs)"

text \<open>On Windows a lone surrogate becomes a replacement character.\<close>

definition scalar_or_replacement :: "nat \<Rightarrow> nat" where
  "scalar_or_replacement c = (if 0xD800 \<le> c \<and> c < 0xE000 then REPLACEMENT_CHARACTER else c)"

definition wtf8_lossy :: "os_string \<Rightarrow> rust_text" where
  "wtf8_lossy s = map scalar_or_replacement (decode_wtf8 s)"

text \<open>\<open>str::encode_utf16\<close>.\<close>

definition text_utf16 :: "rust_text \<Rightarrow> u16 list" where
  "text_utf16 t = concat (map encode_utf16 t)"

section \<open>Numbers\<close>

text \<open>\<open>Display\<close> of integers; \<open>LowerHex\<close> of a byte, padded to two digits, and of a 32-bit word to eight.\<close>

fun dec_nat :: "nat \<Rightarrow> rust_text" where
  "dec_nat n = (if n < 10 then [48 + n] else dec_nat (n div 10) @ [48 + n mod 10])"

declare dec_nat.simps [simp del]

definition dec_int :: "int \<Rightarrow> rust_text" where
  "dec_int i = (if i < 0 then 45 # dec_nat (nat (- i)) else dec_nat (nat i))"

definition hex_digit :: "nat \<Rightarrow> nat" where
  "hex_digit d = (if d < 10 then 48 + d else 87 + d)"

fun hex_digits :: "nat \<Rightarrow> nat \<Rightarrow> rust_text" where
  "hex_digits 0 n = []"
| "hex_digits (Suc k) n = hex_digits k (n div 16) @ [hex_digit (n mod 16)]"

section \<open>Lossy conversion is exact on text\<close>

lemma lossy_encoded_scalar:
  assumes "is_scalar c"
  shows "from_utf8_lossy (encode_wtf8 c @ bs) = c # from_utf8_lossy bs"
proof -
  consider "c < 0x80" | "0x80 \<le> c" "c < 0x800" | "0x800 \<le> c" "c < 0x10000" | "0x10000 \<le> c" by linarith
  then show ?thesis
  proof cases
    case 1
    then show ?thesis by (simp add: encode_wtf8_def unat_u8)
  next
    case 2
    then have "2 \<le> c div 64" "c div 64 < 32" by simp_all
    with 2 six_bit_groups(1) [of c] show ?thesis
      by (simp add: encode_wtf8_def unat_u8 marker_mod is_continuation_def del: of_nat_add)
  next
    case 3
    then have "c div 4096 < 16" by simp
    moreover have "32 \<le> c div 64 mod 64" "c div 64 < 64" if "c div 4096 = 0" using that 3 by simp_all
    moreover have "c div 64 mod 64 < 32" if "c div 4096 = 13"
      using that assms 3 six_bit_groups(2) [of c] mod_less_divisor [of 64 c] mod_less_divisor [of 64 "c div 64"]
      unfolding is_scalar_def by linarith
    ultimately show ?thesis using 3 six_bit_groups(2) [of c]
      by (simp add: encode_wtf8_def unat_u8 marker_mod is_continuation_def second_of_three_def del: of_nat_add)
  next
    case 4
    with assms have "c div 262144 < 5" by (simp add: is_scalar_def)
    moreover have "16 \<le> c div 4096 mod 64" "c div 4096 < 64" if "c div 262144 = 0" using that 4 by simp_all
    moreover have "c div 4096 mod 64 < 16" if "c div 262144 = 4"
      using that assms 4 six_bit_groups(3) [of c] by (simp add: is_scalar_def)
    ultimately show ?thesis using 4 six_bit_groups(3) [of c]
      by (simp add: encode_wtf8_def unat_u8 marker_mod is_continuation_def second_of_four_def del: of_nat_add)
  qed
qed

lemma from_utf8_lossy_text: "\<forall>c \<in> set cs. is_scalar c \<Longrightarrow> from_utf8_lossy (concat (map encode_wtf8 cs)) = cs"
  by (induction cs) (simp_all add: lossy_encoded_scalar)

lemma wtf8_lossy_text:
  assumes "\<forall>c \<in> set cs. is_scalar c"
  shows "wtf8_lossy (concat (map encode_wtf8 cs)) = cs"
proof -
  have "\<forall>c \<in> set cs. c < 0x110000 \<and> scalar_or_replacement c = c"
    using assms by (auto simp: is_scalar_def scalar_or_replacement_def)
  then show ?thesis by (simp add: wtf8_lossy_def decode_wtf8_concat map_idI)
qed

end
