(* ===== verification/Layout.thy ===== *)
theory Layout
  imports Rust_Text
begin

text \<open>
  The layout of \<open>repr(C)\<close> structures on the 64-bit Windows target, and the structures that the
  crate and its examples share with the system: \<open>FILE_ID_BOTH_DIR_INFO\<close>, which is declared three times,
  \<open>FILE_STAT_INFORMATION\<close> and the structures of the system calls. \<open>size_of\<close> and \<open>offset_of!\<close> are computed from
  the declarations.
\<close>

section \<open>\<open>repr(C)\<close>\<close>

datatype c_type = I8 | U8 | I16 | U16 | I32 | U32 | I64 | Usize | Pointer | Array c_type nat

fun type_size :: "c_type \<Rightarrow> nat" where
  "type_size I8 = 1"
| "type_size U8 = 1"
| "type_size I16 = 2"
| "type_size U16 = 2"
| "type_size I32 = 4"
| "type_size U32 = 4"
| "type_size I64 = 8"
| "type_size Usize = 8"
| "type_size Pointer = 8"
| "type_size (Array t n) = n * type_size t"

fun type_align :: "c_type \<Rightarrow> nat" where
  "type_align (Array t n) = type_align t"
| "type_align t = type_size t"

type_synonym c_struct = "(string \<times> c_type) list"

definition align_up :: "nat \<Rightarrow> nat \<Rightarrow> nat" where
  "align_up a n = (n + (a - 1)) div a * a"

text \<open>The fields in order of declaration, each at the next offset that its alignment allows.\<close>

fun fields_from :: "nat \<Rightarrow> c_struct \<Rightarrow> (string \<times> nat \<times> c_type) list" where
  "fields_from n [] = []"
| "fields_from n ((f, t) # fs) =
     (f, align_up (type_align t) n, t) # fields_from (align_up (type_align t) n + type_size t) fs"

fun end_from :: "nat \<Rightarrow> c_struct \<Rightarrow> nat" where
  "end_from n [] = n"
| "end_from n ((f, t) # fs) = end_from (align_up (type_align t) n + type_size t) fs"

fun struct_align :: "c_struct \<Rightarrow> nat" where
  "struct_align [] = 1"
| "struct_align ((f, t) # fs) = max (type_align t) (struct_align fs)"

definition fields :: "c_struct \<Rightarrow> (string \<times> nat \<times> c_type) list" where
  "fields s = fields_from 0 s"

definition size_of :: "c_struct \<Rightarrow> nat" where
  "size_of s = align_up (struct_align s) (end_from 0 s)"

text \<open>\<open>offset_of!\<close>; a name that is not a field does not compile, and has no meaning here.\<close>

definition offset_of :: "c_struct \<Rightarrow> string \<Rightarrow> nat" where
  "offset_of s f = (case map_of (fields s) f of Some (n, t) \<Rightarrow> n | None \<Rightarrow> 0)"

section \<open>Fields do not overlap\<close>

lemma type_align_pos [simp]: "0 < type_align t"
  by (induction t) simp_all

lemma struct_align_pos [simp]: "0 < struct_align s"
  by (induction s rule: struct_align.induct) simp_all

lemma align_up_ge: "0 < a \<Longrightarrow> n \<le> align_up a n"
proof -
  assume a: "0 < a"
  have "n + (a - 1) = (n + (a - 1)) div a * a + (n + (a - 1)) mod a" by simp
  moreover have "(n + (a - 1)) mod a < a" using a by (rule mod_less_divisor)
  ultimately show ?thesis unfolding align_up_def by linarith
qed

lemma align_up_dvd: "a dvd align_up a n"
  by (simp add: align_up_def)

lemma end_from_ge: "n \<le> end_from n s"
proof (induction n s rule: end_from.induct)
  case (2 n f t fs)
  then show ?case using align_up_ge [of "type_align t" n] by simp
qed simp

lemma fields_from_bounds:
  "(f, m, t) \<in> set (fields_from n s) \<Longrightarrow>
     n \<le> m \<and> type_align t dvd m \<and> m + type_size t \<le> end_from n s \<and> type_align t \<le> struct_align s"
proof (induction n s rule: fields_from.induct)
  case (2 n g u fs)
  have up: "n \<le> align_up (type_align u) n" by (simp add: align_up_ge)
  show ?case
  proof (cases "(f, m, t) = (g, align_up (type_align u) n, u)")
    case True
    then show ?thesis using up align_up_dvd [of "type_align u" n] end_from_ge [of _ fs] by simp
  next
    case False
    with 2(2) have "(f, m, t) \<in> set (fields_from (align_up (type_align u) n + type_size u) fs)" by auto
    from 2(1) [OF this] up show ?thesis by auto
  qed
qed simp

lemma fields_from_ordered:
  "sorted_wrt (\<lambda>(f, m, t) (g, k, u). m + type_size t \<le> k) (fields_from n s)"
proof (induction n s rule: fields_from.induct)
  case (2 n f t fs)
  then show ?case using fields_from_bounds [of _ _ _ "align_up (type_align t) n + type_size t" fs] by auto
qed simp

text \<open>Every field is aligned and inside the structure, and a field ends before the next one begins.\<close>

lemma fields_well_placed:
  "(f, m, t) \<in> set (fields s) \<Longrightarrow> type_align t dvd m \<and> m + type_size t \<le> size_of s"
  "sorted_wrt (\<lambda>(f, m, t) (g, k, u). m + type_size t \<le> k) (fields s)"
  using fields_from_bounds [of f m t 0 s] align_up_ge [of "struct_align s" "end_from 0 s"]
    fields_from_ordered [of 0 s]
  by (auto simp: fields_def size_of_def)

section \<open>The structures of the crate\<close>

text \<open>\<open>core/nt_dir_enum.rs\<close>.\<close>

definition FILE_ID_BOTH_DIR_INFO :: c_struct where
  "FILE_ID_BOTH_DIR_INFO =
    [(''NextEntryOffset'', U32), (''FileIndex'', U32), (''CreationTime'', I64), (''LastAccessTime'', I64),
     (''LastWriteTime'', I64), (''ChangeTime'', I64), (''EndOfFile'', I64), (''AllocationSize'', I64),
     (''FileAttributes'', U32), (''FileNameLength'', U32), (''EaSize'', U32), (''ShortNameLength'', I8),
     (''ShortName'', Array U16 12), (''FileId'', I64), (''FileName'', Array U16 1)]"

definition IO_STATUS_BLOCK :: c_struct where
  "IO_STATUS_BLOCK = [(''Status'', I32), (''Information'', Usize)]"

definition UNICODE_STRING :: c_struct where
  "UNICODE_STRING = [(''Length'', U16), (''MaximumLength'', U16), (''Buffer'', Pointer)]"

definition OBJECT_ATTRIBUTES :: c_struct where
  "OBJECT_ATTRIBUTES =
    [(''Length'', U32), (''RootDirectory'', Pointer), (''ObjectName'', Pointer), (''Attributes'', U32),
     (''SecurityDescriptor'', Pointer), (''SecurityQualityOfService'', Pointer)]"

definition FILE_STAT_INFORMATION :: c_struct where
  "FILE_STAT_INFORMATION =
    [(''FileId'', I64), (''CreationTime'', I64), (''LastAccessTime'', I64), (''LastWriteTime'', I64),
     (''ChangeTime'', I64), (''AllocationSize'', I64), (''EndOfFile'', I64), (''FileAttributes'', U32),
     (''ReparseTag'', U32), (''NumberOfLinks'', U32), (''EffectiveAccess'', U32)]"

text \<open>\<open>examples/check_layout.rs\<close>, with \<open>ShortNameLength\<close> of two bytes, and what its \<open>main\<close> prints.\<close>

definition check_layout_info :: c_struct where
  "check_layout_info =
    [(''NextEntryOffset'', U32), (''FileIndex'', U32), (''CreationTime'', I64), (''LastAccessTime'', I64),
     (''LastWriteTime'', I64), (''ChangeTime'', I64), (''EndOfFile'', I64), (''AllocationSize'', I64),
     (''FileAttributes'', U32), (''FileNameLength'', U32), (''EaSize'', U32), (''ShortNameLength'', I16),
     (''ShortName'', Array U16 12), (''FileId'', I64), (''FileName'', Array U16 1)]"

definition check_layout_main :: "rust_text list" where
  "check_layout_main =
    [ascii ''size_of::<FILE_ID_BOTH_DIR_INFO>(): '' @ dec_nat (size_of check_layout_info),
     ascii ''offset_of FileName: '' @ dec_nat (offset_of check_layout_info ''FileName''),
     ascii ''size_of - 2 = '' @ dec_nat (size_of check_layout_info - 2),
     ascii ''offset_of FileId: '' @ dec_nat (offset_of check_layout_info ''FileId''),
     ascii ''offset_of ShortName: '' @ dec_nat (offset_of check_layout_info ''ShortName''),
     ascii ''offset_of ShortNameLength: '' @ dec_nat (offset_of check_layout_info ''ShortNameLength'')]"

text \<open>\<open>examples/class77_poc.rs\<close>, with the padding written out, and its structure of class 77.\<close>

definition class77_poc_info :: c_struct where
  "class77_poc_info =
    [(''NextEntryOffset'', U32), (''FileIndex'', U32), (''CreationTime'', I64), (''LastAccessTime'', I64),
     (''LastWriteTime'', I64), (''ChangeTime'', I64), (''EndOfFile'', I64), (''AllocationSize'', I64),
     (''FileAttributes'', U32), (''FileNameLength'', U32), (''EaSize'', U32), (''ShortNameLength'', U8),
     (''_pad'', Array U8 1), (''ShortName'', Array U16 12), (''FileId'', I64), (''FileName'', Array U16 1)]"

definition FILE_STAT_BASIC_INFORMATION :: c_struct where
  "FILE_STAT_BASIC_INFORMATION =
    [(''FileId'', I64), (''CreationTime'', I64), (''LastAccessTime'', I64), (''LastWriteTime'', I64),
     (''ChangeTime'', I64), (''AllocationSize'', I64), (''EndOfFile'', I64), (''FileAttributes'', U32),
     (''ReparseTag'', U32), (''NumberOfLinks'', U32), (''EffectiveAccess'', I64)]"

lemma size_of_structs:
  "size_of FILE_ID_BOTH_DIR_INFO = 112" "size_of class77_poc_info = 112" "size_of FILE_STAT_INFORMATION = 72"
  "size_of FILE_STAT_BASIC_INFORMATION = 80"
  by code_simp+

lemma offset_of_structs:
  "offset_of FILE_ID_BOTH_DIR_INFO ''FileName'' = 104" "offset_of class77_poc_info ''FileName'' = 104"
  by code_simp+

text \<open>The three declarations agree on the offset of every field but the length of the short name and its padding.\<close>

lemma file_id_layouts_agree:
  "f \<in> fst ` set FILE_ID_BOTH_DIR_INFO \<Longrightarrow>
     offset_of check_layout_info f = offset_of FILE_ID_BOTH_DIR_INFO f \<and>
     offset_of class77_poc_info f = offset_of FILE_ID_BOTH_DIR_INFO f"
proof -
  have "\<forall>f \<in> set (map fst FILE_ID_BOTH_DIR_INFO).
     offset_of check_layout_info f = offset_of FILE_ID_BOTH_DIR_INFO f \<and>
     offset_of class77_poc_info f = offset_of FILE_ID_BOTH_DIR_INFO f" by code_simp
  then show "f \<in> fst ` set FILE_ID_BOTH_DIR_INFO \<Longrightarrow> ?thesis" unfolding set_map by (rule bspec)
qed

lemma check_layout_prints:
  "check_layout_main =
    [ascii ''size_of::<FILE_ID_BOTH_DIR_INFO>(): 112'', ascii ''offset_of FileName: 104'',
     ascii ''size_of - 2 = 110'', ascii ''offset_of FileId: 96'', ascii ''offset_of ShortName: 70'',
     ascii ''offset_of ShortNameLength: 68'']"
  by code_simp

end
