(* ===== verification/Nt_Dir_Enum.thy ===== *)
theory Nt_Dir_Enum
  imports Layout Metadata
begin

text \<open>
  \<open>core/nt_dir_enum.rs\<close>: enumeration of a directory with \<open>NtQueryDirectoryFileEx\<close>. The records in
  the buffer are parsed byte by byte; a read outside the buffer, undefined behaviour in the
  source, is the value \<open>None\<close>. System calls are the record \<open>nt_world\<close>.
\<close>

section \<open>Constants and structures\<close>

definition BUFFER_SIZE :: nat where "BUFFER_SIZE = 64 * 1024"
definition STATUS_NO_MORE_FILES :: int where "STATUS_NO_MORE_FILES = -2147483642"
definition FILE_ATTRIBUTE_DIRECTORY :: u32 where "FILE_ATTRIBUTE_DIRECTORY = 0x10"
definition INVALID_HANDLE_VALUE :: int where "INVALID_HANDLE_VALUE = -1"

text \<open>
  \<open>FILE_ID_BOTH_DIR_INFO\<close>: the fields the crate reads. \<open>fi_file_name\<close> is \<open>FileName[0]\<close> with the three
  units of padding behind it, the last eight bytes of the copied structure.
\<close>

record file_id_both_dir_info =
  fi_next_entry_offset :: u32
  fi_creation_time :: u64
  fi_last_access_time :: u64
  fi_last_write_time :: u64
  fi_end_of_file :: u64
  fi_file_attributes :: u32
  fi_file_name_length :: u32
  fi_file_id :: u64
  fi_file_name :: "u16 list"

text \<open>Size of the structure and offset of \<open>FileName\<close> in it, from its declaration.\<close>

definition INFO_SIZE :: nat where "INFO_SIZE = size_of FILE_ID_BOTH_DIR_INFO"
definition FILE_NAME_OFFSET :: nat where "FILE_NAME_OFFSET = offset_of FILE_ID_BOTH_DIR_INFO ''FileName''"

lemma INFO_SIZE_eq [code]: "INFO_SIZE = 112"
  by (simp add: INFO_SIZE_def size_of_structs)

lemma FILE_NAME_OFFSET_eq [code]: "FILE_NAME_OFFSET = 104"
  by (simp add: FILE_NAME_OFFSET_def offset_of_structs)

text \<open>\<open>ptr::read_unaligned\<close> of the structure.\<close>

definition read_info :: "u8 list \<Rightarrow> nat \<Rightarrow> file_id_both_dir_info option" where
  "read_info buffer offset =
     (if offset + INFO_SIZE \<le> length buffer
      then Some \<lparr>fi_next_entry_offset = u32_at buffer offset,
                 fi_creation_time = u64_at buffer (offset + 8),
                 fi_last_access_time = u64_at buffer (offset + 16),
                 fi_last_write_time = u64_at buffer (offset + 24),
                 fi_end_of_file = u64_at buffer (offset + 40),
                 fi_file_attributes = u32_at buffer (offset + 56),
                 fi_file_name_length = u32_at buffer (offset + 60),
                 fi_file_id = u64_at buffer (offset + 96),
                 fi_file_name = u16s_at buffer (offset + FILE_NAME_OFFSET) 4\<rparr>
      else None)"

text \<open>Every field is read at the offset that the layout of the structure gives it.\<close>

lemma read_info_layout:
  "read_info buffer offset =
     (if offset + size_of FILE_ID_BOTH_DIR_INFO \<le> length buffer
      then Some \<lparr>fi_next_entry_offset = u32_at buffer (offset + offset_of FILE_ID_BOTH_DIR_INFO ''NextEntryOffset''),
                 fi_creation_time = u64_at buffer (offset + offset_of FILE_ID_BOTH_DIR_INFO ''CreationTime''),
                 fi_last_access_time = u64_at buffer (offset + offset_of FILE_ID_BOTH_DIR_INFO ''LastAccessTime''),
                 fi_last_write_time = u64_at buffer (offset + offset_of FILE_ID_BOTH_DIR_INFO ''LastWriteTime''),
                 fi_end_of_file = u64_at buffer (offset + offset_of FILE_ID_BOTH_DIR_INFO ''EndOfFile''),
                 fi_file_attributes = u32_at buffer (offset + offset_of FILE_ID_BOTH_DIR_INFO ''FileAttributes''),
                 fi_file_name_length = u32_at buffer (offset + offset_of FILE_ID_BOTH_DIR_INFO ''FileNameLength''),
                 fi_file_id = u64_at buffer (offset + offset_of FILE_ID_BOTH_DIR_INFO ''FileId''),
                 fi_file_name = u16s_at buffer (offset + offset_of FILE_ID_BOTH_DIR_INFO ''FileName'') 4\<rparr>
      else None)"
proof -
  have "offset_of FILE_ID_BOTH_DIR_INFO ''NextEntryOffset'' = 0" "offset_of FILE_ID_BOTH_DIR_INFO ''CreationTime'' = 8"
    "offset_of FILE_ID_BOTH_DIR_INFO ''LastAccessTime'' = 16" "offset_of FILE_ID_BOTH_DIR_INFO ''LastWriteTime'' = 24"
    "offset_of FILE_ID_BOTH_DIR_INFO ''EndOfFile'' = 40" "offset_of FILE_ID_BOTH_DIR_INFO ''FileAttributes'' = 56"
    "offset_of FILE_ID_BOTH_DIR_INFO ''FileNameLength'' = 60" "offset_of FILE_ID_BOTH_DIR_INFO ''FileId'' = 96"
    by code_simp+
  then show ?thesis by (simp add: read_info_def INFO_SIZE_def FILE_NAME_OFFSET_def)
qed

text \<open>\<open>slice::from_raw_parts\<close> of UTF-16 units.\<close>

definition read_wide :: "u8 list \<Rightarrow> nat \<Rightarrow> nat \<Rightarrow> u16 list option" where
  "read_wide buffer i n = (if i + 2 * n \<le> length buffer then Some (u16s_at buffer i n) else None)"

text \<open>\<open>DirEntryInfo\<close>; time stamps are the raw 64-bit values.\<close>

record dir_entry_info =
  di_file_name :: os_string
  di_file_attributes :: u32
  di_file_size :: u64
  di_creation_time :: u64
  di_last_write_time :: u64
  di_last_access_time :: u64
  di_file_id :: u64
  di_number_of_links :: "u32 option"
  di_volume_serial_number :: "u32 option"

section \<open>Parsing a buffer\<close>

function parse_entries_from :: "u8 list \<Rightarrow> nat \<Rightarrow> (file_id_both_dir_info \<Rightarrow> os_string \<Rightarrow> 's \<Rightarrow> 's) \<Rightarrow> 's \<Rightarrow> 's option" where
  "parse_entries_from buffer offset on_entry s =
     (if length buffer < offset + INFO_SIZE then Some s
      else case read_info buffer offset of
        None \<Rightarrow> None
      | Some entry \<Rightarrow>
          let name_len = unat (fi_file_name_length entry);
              name_chars = name_len div 2 in
          if length buffer < offset + FILE_NAME_OFFSET + name_len then Some s
          else
            let first_char = fi_file_name entry ! 0;
                is_dot = (name_chars = 1 \<and> first_char = 46);
                is_dotdot = (name_chars = 2 \<and> first_char = 46 \<and> fi_file_name entry ! 1 = 46);
                called =
                  (if \<not> is_dot \<and> \<not> is_dotdot
                   then map_option (\<lambda>name_slice. on_entry entry (from_wide name_slice) s)
                          (read_wide buffer (offset + FILE_NAME_OFFSET) name_chars)
                   else Some s)
            in case called of
                 None \<Rightarrow> None
               | Some s \<Rightarrow>
                   if fi_next_entry_offset entry = 0 then Some s
                   else parse_entries_from buffer (offset + unat (fi_next_entry_offset entry)) on_entry s)"
  by pat_completeness auto
termination
  by (relation "measure (\<lambda>(buffer, offset, f, s). length buffer - offset)")
    (auto simp: INFO_SIZE_eq unat_gt_0 intro!: diff_less_mono2)

declare parse_entries_from.simps [simp del]

definition parse_buffer_entries :: "u8 list \<Rightarrow> (file_id_both_dir_info \<Rightarrow> os_string \<Rightarrow> 's \<Rightarrow> 's) \<Rightarrow> 's \<Rightarrow> 's option" where
  "parse_buffer_entries buffer on_entry s = parse_entries_from buffer 0 on_entry s"

section \<open>Enumeration\<close>

text \<open>
  The system: \<open>CreateFileW\<close> on a NUL-terminated path with \<open>GetLastError\<close>, \<open>NtQueryDirectoryFileEx\<close>
  (status, bytes returned, buffer), \<open>RtlNtStatusToDosError\<close>, the classification of error codes by
  \<open>std::io\<close>, \<open>NtQueryInformationByName\<close> where it exists (directory handle, \<open>Length\<close> and \<open>Buffer\<close> of the
  name; status and output buffer), \<open>GetVolumeInformationByHandleW\<close>, \<open>CloseHandle\<close>.
\<close>

record 'w nt_world =
  nw_create_file :: "u16 list \<Rightarrow> 'w \<Rightarrow> int \<times> 'w"
  nw_last_os_error :: "'w \<Rightarrow> io_error"
  nw_query_dir :: "int \<Rightarrow> u8 list \<Rightarrow> bool \<Rightarrow> 'w \<Rightarrow> (int \<times> nat) \<times> u8 list \<times> 'w"
  nw_status_to_win32 :: "int \<Rightarrow> u32"
  nw_error_kind :: "int \<Rightarrow> error_kind"
  nw_query_by_name :: "(int \<Rightarrow> u16 \<Rightarrow> u16 list \<Rightarrow> u8 list \<Rightarrow> int \<times> u8 list) option"
  nw_volume_info :: "int \<Rightarrow> (u32 \<times> u16 list) option"
  nw_close_handle :: "int \<Rightarrow> 'w \<Rightarrow> 'w"

text \<open>
  Loading of the functions of \<open>ntdll.dll\<close>: \<open>LoadLibraryW\<close> and \<open>GetProcAddress\<close>, where null is \<open>None\<close>. A panic is
  \<open>None\<close>. The functions are kept in a \<open>OnceLock\<close>, a cell that is filled by the first call that succeeds; what
  they do when called is \<open>nt_world\<close>.
\<close>

record ('m, 'p) dll_loader =
  load_library :: "u16 list \<Rightarrow> 'm option"
  get_proc_address :: "'m \<Rightarrow> rust_text \<Rightarrow> 'p option"

record 'p nt_dll_funcs =
  fn_query_dir :: 'p
  fn_status_to_win32 :: 'p
  fn_query_by_name :: "'p option"

definition to_wide_null :: "rust_text \<Rightarrow> u16 list" where
  "to_wide_null s = text_utf16 s @ [0]"

definition load_ntdll :: "('m, 'p) dll_loader \<Rightarrow> 'p nt_dll_funcs option" where
  "load_ntdll ld =
     (case load_library ld (to_wide_null (ascii ''ntdll.dll'' @ [0])) of
        None \<Rightarrow> None
      | Some module \<Rightarrow>
          (case (get_proc_address ld module (ascii ''NtQueryDirectoryFileEx''),
                 get_proc_address ld module (ascii ''RtlNtStatusToDosError'')) of
             (Some query_dir_ptr, Some status_to_win32_ptr) \<Rightarrow>
               Some \<lparr>fn_query_dir = query_dir_ptr, fn_status_to_win32 = status_to_win32_ptr,
                     fn_query_by_name = get_proc_address ld module (ascii ''NtQueryInformationByName'')\<rparr>
           | _ \<Rightarrow> None))"

definition ntdll_funcs :: "('m, 'p) dll_loader \<Rightarrow> 'p nt_dll_funcs option \<Rightarrow>
    ('p nt_dll_funcs \<times> 'p nt_dll_funcs option) option" where
  "ntdll_funcs ld funcs =
     (case funcs of
        Some f \<Rightarrow> Some (f, Some f)
      | None \<Rightarrow> map_option (\<lambda>f. (f, Some f)) (load_ntdll ld))"

text \<open>Later calls return what the first one found, whatever the loader says then.\<close>

lemma ntdll_funcs_once: "ntdll_funcs ld cell = Some (f, cell') \<Longrightarrow> ntdll_funcs ld' cell' = Some (f, cell')"
  by (auto simp: ntdll_funcs_def split: option.splits)

text \<open>It panics exactly when the library or one of the two functions that every Windows has is missing.\<close>

lemma load_ntdll_panics_iff:
  "load_ntdll ld = None \<longleftrightarrow>
     (case load_library ld (to_wide_null (ascii ''ntdll.dll'' @ [0])) of
        None \<Rightarrow> True
      | Some module \<Rightarrow> get_proc_address ld module (ascii ''NtQueryDirectoryFileEx'') = None \<or>
                       get_proc_address ld module (ascii ''RtlNtStatusToDosError'') = None)"
  by (auto simp: load_ntdll_def split: option.splits)

definition path_to_widestring :: "path \<Rightarrow> u16 list" where
  "path_to_widestring p = encode_wide p @ [0]"

definition ntstatus_to_io_error :: "int \<Rightarrow> 'w nt_world \<Rightarrow> io_error" where
  "ntstatus_to_io_error status ops =
     (let code = sint (nw_status_to_win32 ops status) in OsError code (nw_error_kind ops code))"

definition open_dir_handle :: "'w nt_world \<Rightarrow> path \<Rightarrow> 'w \<Rightarrow> (io_error + int) \<times> 'w" where
  "open_dir_handle ops p w =
     (case nw_create_file ops (path_to_widestring p) w of (handle, w) \<Rightarrow>
      if handle = INVALID_HANDLE_VALUE then (Inl (nw_last_os_error ops w), w) else (Inr handle, w))"

partial_function (option) enumerate_dir_core_inner :: "'w nt_world \<Rightarrow> int \<Rightarrow>
    (file_id_both_dir_info \<Rightarrow> os_string \<Rightarrow> 's \<Rightarrow> 's) \<Rightarrow> bool \<Rightarrow> u8 list \<Rightarrow> 's \<Rightarrow> 'w \<Rightarrow>
    ((io_error + unit) \<times> 's \<times> u8 list \<times> 'w) option" where
  "enumerate_dir_core_inner ops handle on_entry restart_scan buffer s w =
     (case nw_query_dir ops handle buffer restart_scan w of ((status, bytes_returned), buffer, w) \<Rightarrow>
      if status \<noteq> 0
      then if status = STATUS_NO_MORE_FILES then Some (Inr (), s, buffer, w)
           else Some (Inl (ntstatus_to_io_error status ops), s, buffer, w)
      else if bytes_returned = 0 then Some (Inr (), s, buffer, w)
      else case parse_buffer_entries buffer on_entry s of
             None \<Rightarrow> None
           | Some s \<Rightarrow> enumerate_dir_core_inner ops handle on_entry False buffer s w)"

text \<open>The thread's buffer is taken out for the loop and put back after it.\<close>

definition enumerate_dir_core :: "'w nt_world \<Rightarrow> int \<Rightarrow>
    (file_id_both_dir_info \<Rightarrow> os_string \<Rightarrow> 's \<Rightarrow> 's) \<Rightarrow> u8 list option \<Rightarrow> 's \<Rightarrow> 'w \<Rightarrow>
    ((io_error + unit) \<times> 's \<times> u8 list option \<times> 'w) option" where
  "enumerate_dir_core ops handle on_entry tls s w =
     (let buffer = (case tls of Some buffer \<Rightarrow> buffer | None \<Rightarrow> replicate BUFFER_SIZE 0) in
      map_option (\<lambda>(result, s, buffer, w). (result, s, Some buffer, w))
        (enumerate_dir_core_inner ops handle on_entry True buffer s w))"

definition entry_info :: "file_id_both_dir_info \<Rightarrow> os_string \<Rightarrow> dir_entry_info" where
  "entry_info entry file_name =
     \<lparr>di_file_name = file_name, di_file_attributes = fi_file_attributes entry,
      di_file_size = fi_end_of_file entry, di_creation_time = fi_creation_time entry,
      di_last_write_time = fi_last_write_time entry, di_last_access_time = fi_last_access_time entry,
      di_file_id = fi_file_id entry, di_number_of_links = None, di_volume_serial_number = None\<rparr>"

definition enumerate_dir :: "'w nt_world \<Rightarrow> path \<Rightarrow> u8 list option \<Rightarrow> 'w \<Rightarrow>
    ((io_error + int \<times> dir_entry_info list) \<times> u8 list option \<times> 'w) option" where
  "enumerate_dir ops p tls w =
     (case open_dir_handle ops p w of
        (Inl e, w) \<Rightarrow> Some (Inl e, tls, w)
      | (Inr guard, w) \<Rightarrow>
          (case enumerate_dir_core ops guard (\<lambda>entry file_name result. result @ [entry_info entry file_name])
                  tls [] w of
             None \<Rightarrow> None
           | Some (Inl e, result, tls, w) \<Rightarrow> Some (Inl e, tls, nw_close_handle ops guard w)
           | Some (Inr _, result, tls, w) \<Rightarrow> Some (Inr (guard, result), tls, w)))"

definition stream_entry :: "(dir_entry_info \<Rightarrow> 's \<Rightarrow> 's) \<Rightarrow> file_id_both_dir_info \<Rightarrow> os_string \<Rightarrow>
    dir_entry_info list \<times> 's \<Rightarrow> dir_entry_info list \<times> 's" where
  "stream_entry on_subdir entry file_name st =
     (let info = entry_info entry file_name;
          s = (if di_file_attributes info AND FILE_ATTRIBUTE_DIRECTORY \<noteq> 0
               then on_subdir info (snd st) else snd st)
      in (fst st @ [info], s))"

text \<open>\<open>on_subdir\<close> acts on the state of its caller, which comes back on every path.\<close>

definition enumerate_dir_streaming :: "'w nt_world \<Rightarrow> path \<Rightarrow> (dir_entry_info \<Rightarrow> 's \<Rightarrow> 's) \<Rightarrow>
    u8 list option \<Rightarrow> 's \<Rightarrow> 'w \<Rightarrow>
    ((io_error + int \<times> dir_entry_info list) \<times> 's \<times> u8 list option \<times> 'w) option" where
  "enumerate_dir_streaming ops p on_subdir tls s w =
     (case open_dir_handle ops p w of
        (Inl e, w) \<Rightarrow> Some (Inl e, s, tls, w)
      | (Inr guard, w) \<Rightarrow>
          (case enumerate_dir_core ops guard (stream_entry on_subdir) tls ([], s) w of
             None \<Rightarrow> None
           | Some (Inl e, (result, s), tls, w) \<Rightarrow> Some (Inl e, s, tls, nw_close_handle ops guard w)
           | Some (Inr _, (result, s), tls, w) \<Rightarrow> Some (Inr (guard, result), s, tls, w)))"

section \<open>Hard link counts and the file system type\<close>

text \<open>The size of \<open>FILE_STAT_INFORMATION\<close>; its field \<open>NumberOfLinks\<close> is at offset 64.\<close>

definition STAT_INFO_SIZE :: nat where "STAT_INFO_SIZE = size_of FILE_STAT_INFORMATION"

lemma STAT_INFO_SIZE_eq [code]: "STAT_INFO_SIZE = 72"
  by (simp add: STAT_INFO_SIZE_def size_of_structs)

definition query_nlinks :: "(int \<Rightarrow> u16 \<Rightarrow> u16 list \<Rightarrow> u8 list \<Rightarrow> int \<times> u8 list) \<Rightarrow> int \<Rightarrow> bool \<Rightarrow>
    dir_entry_info \<Rightarrow> dir_entry_info" where
  "query_nlinks query_by_name root_handle query_file_nlinks entry =
     (if \<not> query_file_nlinks \<and> di_file_attributes entry AND FILE_ATTRIBUTE_DIRECTORY = 0 then entry
      else let wide_buf = encode_wide (di_file_name entry) in
           if wide_buf = [] then entry
           else let byte_len = of_nat (length wide_buf * 2) :: u16 in
                case query_by_name root_handle byte_len wide_buf (replicate STAT_INFO_SIZE 0) of
                  (status, stat_info_buf) \<Rightarrow>
                    if status = 0
                    then entry\<lparr>di_number_of_links := Some (u32_at stat_info_buf 64)\<rparr> else entry)"

definition batch_query_nlinks :: "'w nt_world \<Rightarrow> dir_entry_info list \<Rightarrow> int \<Rightarrow> bool \<Rightarrow> dir_entry_info list" where
  "batch_query_nlinks ops entries dir_handle query_file_nlinks =
     (case nw_query_by_name ops of
        None \<Rightarrow> entries
      | Some query_by_name \<Rightarrow> map (query_nlinks query_by_name dir_handle query_file_nlinks) entries)"

datatype fs_type = Ntfs | Refs | Fat32 | ExFat | UnknownFs

definition is_fat_family :: "fs_type \<Rightarrow> bool" where
  "is_fat_family fs \<longleftrightarrow> fs = Fat32 \<or> fs = ExFat"

text \<open>The match on the lossy string, whose literals are ASCII, is a match on the bytes of the name.\<close>

definition fs_type_of_name :: "os_string \<Rightarrow> fs_type" where
  "fs_type_of_name fs_name =
     (if fs_name = [78, 84, 70, 83] then Ntfs
      else if fs_name = [82, 101, 70, 83] then Refs
      else if fs_name = [70, 65, 84, 51, 50] then Fat32
      else if fs_name = [101, 120, 70, 65, 84] then ExFat
      else if fs_name = [70, 65, 84] then Fat32
      else if fs_name = [70, 65, 84, 49, 54] then Fat32
      else UnknownFs)"

definition detect_fs_type_and_vol_serial :: "'w nt_world \<Rightarrow> int \<Rightarrow> fs_type \<times> u32 option" where
  "detect_fs_type_and_vol_serial ops dir_handle =
     (case nw_volume_info ops dir_handle of
        None \<Rightarrow> (UnknownFs, None)
      | Some (volume_serial, fs_name_buf) \<Rightarrow>
          (fs_type_of_name (from_wide (takeWhile (\<lambda>c. c \<noteq> 0) fs_name_buf)), Some volume_serial))"

section \<open>The records of the kernel\<close>

text \<open>
  The layout the system promises: fixed fields, the name, padding (with any content) to a multiple
  of eight bytes. The system does not write the padding behind the last record; since the buffer has
  a multiple of eight bytes, there is always room for it, with whatever the buffer held before.
\<close>

record nt_record =
  nr_file_index :: u32
  nr_creation_time :: u64
  nr_last_access_time :: u64
  nr_last_write_time :: u64
  nr_change_time :: u64
  nr_end_of_file :: u64
  nr_allocation_size :: u64
  nr_file_attributes :: u32
  nr_ea_size :: u32
  nr_short_name :: "u8 list"
  nr_file_id :: u64
  nr_name :: "u16 list"
  nr_padding :: "u8 list"

definition nt_ok :: "nt_record \<Rightarrow> bool" where
  "nt_ok r \<longleftrightarrow> length (nr_short_name r) = 28 \<and> nr_name r \<noteq> [] \<and> length (nr_name r) \<le> 255 \<and>
     length (nr_padding r) < 8 \<and> 8 dvd 2 * length (nr_name r) + length (nr_padding r)"

definition nt_length :: "nt_record \<Rightarrow> nat" where
  "nt_length r = FILE_NAME_OFFSET + 2 * length (nr_name r) + length (nr_padding r)"

definition nt_header :: "u32 \<Rightarrow> nt_record \<Rightarrow> u8 list" where
  "nt_header next r =
     le_bytes 4 (unat next) @ le_bytes 4 (unat (nr_file_index r)) @ le_bytes 8 (unat (nr_creation_time r)) @
     le_bytes 8 (unat (nr_last_access_time r)) @ le_bytes 8 (unat (nr_last_write_time r)) @
     le_bytes 8 (unat (nr_change_time r)) @ le_bytes 8 (unat (nr_end_of_file r)) @
     le_bytes 8 (unat (nr_allocation_size r)) @ le_bytes 4 (unat (nr_file_attributes r)) @
     le_bytes 4 (unat (of_nat (2 * length (nr_name r)) :: u32)) @ le_bytes 4 (unat (nr_ea_size r)) @
     nr_short_name r @ le_bytes 8 (unat (nr_file_id r))"

definition encode_nt :: "u32 \<Rightarrow> nt_record \<Rightarrow> u8 list" where
  "encode_nt next r = nt_header next r @ wide_bytes (nr_name r) @ nr_padding r"

fun encode_chunk :: "nt_record list \<Rightarrow> u8 list" where
  "encode_chunk [] = []"
| "encode_chunk [r] = encode_nt 0 r"
| "encode_chunk (r # r' # rs) = encode_nt (of_nat (nt_length r)) r @ encode_chunk (r' # rs)"

text \<open>What a record says, and the names that are not listed.\<close>

definition record_info :: "nt_record \<Rightarrow> dir_entry_info" where
  "record_info r =
     \<lparr>di_file_name = from_wide (nr_name r), di_file_attributes = nr_file_attributes r,
      di_file_size = nr_end_of_file r, di_creation_time = nr_creation_time r,
      di_last_write_time = nr_last_write_time r, di_last_access_time = nr_last_access_time r,
      di_file_id = nr_file_id r, di_number_of_links = None, di_volume_serial_number = None\<rparr>"

definition is_dot_wide :: "u16 list \<Rightarrow> bool" where
  "is_dot_wide name \<longleftrightarrow> name = [46] \<or> name = [46, 46]"

definition nt_listed :: "nt_record list \<Rightarrow> dir_entry_info list" where
  "nt_listed rs = map record_info (filter (\<lambda>r. \<not> is_dot_wide (nr_name r)) rs)"

text \<open>What the parser needs of a record: its fixed fields and its name, with or without padding behind it.\<close>

definition nt_fits :: "nt_record \<Rightarrow> bool" where
  "nt_fits r \<longleftrightarrow> length (nr_short_name r) = 28 \<and> length (nr_name r) \<le> 255 \<and> INFO_SIZE \<le> nt_length r"

lemma length_nt_header: "length (nr_short_name r) = 28 \<Longrightarrow> length (nt_header next r) = FILE_NAME_OFFSET"
  by (simp add: nt_header_def FILE_NAME_OFFSET_eq del: le_bytes.simps)

lemma length_encode_fits: "nt_fits r \<Longrightarrow> length (encode_nt next r) = nt_length r"
  by (simp add: encode_nt_def nt_length_def length_nt_header nt_fits_def)

lemma nt_length_bounds:
  assumes "nt_ok r"
  shows "INFO_SIZE \<le> nt_length r" "nt_length r < 65536"
proof -
  have "length (nr_name r) \<noteq> 0" "8 dvd 2 * length (nr_name r) + length (nr_padding r)"
    using assms by (simp_all add: nt_ok_def)
  then have "8 \<le> 2 * length (nr_name r) + length (nr_padding r)" by (intro dvd_imp_le) simp_all
  then show "INFO_SIZE \<le> nt_length r" by (simp add: INFO_SIZE_eq FILE_NAME_OFFSET_eq nt_length_def)
  show "nt_length r < 65536" using assms by (simp add: nt_ok_def nt_length_def FILE_NAME_OFFSET_eq)
qed

lemma nt_ok_fits: "nt_ok r \<Longrightarrow> nt_fits r"
  using nt_length_bounds(1) [of r] by (simp add: nt_fits_def nt_ok_def)

lemma length_encode_nt: "nt_ok r \<Longrightarrow> length (encode_nt next r) = nt_length r"
  by (simp add: length_encode_fits nt_ok_fits)

lemma unat_u32: "n < 65536 \<Longrightarrow> unat (of_nat n :: u32) = n"
  by (simp add: unat_of_nat take_bit_eq_mod)

text \<open>Reading one record back, wherever it stands in the buffer.\<close>

lemma read_info_encoded:
  assumes "nt_fits r"
  shows "\<exists>e. read_info (pre @ encode_nt next r @ rest) (length pre) = Some e \<and>
    fi_next_entry_offset e = next \<and> unat (fi_file_name_length e) = 2 * length (nr_name r) \<and>
    entry_info e (from_wide (nr_name r)) = record_info r \<and>
    fi_file_name e = u16s_at (pre @ encode_nt next r @ rest) (length pre + FILE_NAME_OFFSET) 4"
proof -
  let ?buf = "pre @ encode_nt next r @ rest"
  have short: "length (nr_short_name r) = 28" using assms by (simp add: nt_fits_def)
  have f: "u32_at ?buf (length pre) = next" "u64_at ?buf (length pre + 8) = nr_creation_time r"
    "u64_at ?buf (length pre + 16) = nr_last_access_time r" "u64_at ?buf (length pre + 24) = nr_last_write_time r"
    "u64_at ?buf (length pre + 40) = nr_end_of_file r" "u32_at ?buf (length pre + 56) = nr_file_attributes r"
    "u32_at ?buf (length pre + 60) = of_nat (2 * length (nr_name r))" "u64_at ?buf (length pre + 96) = nr_file_id r"
    using short
    by (simp_all add: encode_nt_def nt_header_def u32_at_def u64_at_def le_nat_le_bytes unat_mod_width
        del: le_bytes.simps of_nat_mult)
  have "length pre + INFO_SIZE \<le> length ?buf"
    using assms length_encode_fits [OF assms, of "next"] by (simp add: nt_fits_def)
  moreover have "unat (of_nat (2 * length (nr_name r)) :: u32) = 2 * length (nr_name r)"
    using assms by (intro unat_u32) (simp add: nt_fits_def)
  ultimately show ?thesis by (simp add: read_info_def f entry_info_def record_info_def)
qed

lemma name_at_encoded:
  assumes "nt_fits r"
  shows "u16s_at (pre @ encode_nt next r @ rest) (length pre + FILE_NAME_OFFSET) (length (nr_name r)) = nr_name r"
  using u16s_at_encoded [of "pre @ nt_header next r" "length pre + FILE_NAME_OFFSET" "nr_name r" "nr_padding r @ rest"]
    assms by (simp add: encode_nt_def length_nt_header nt_fits_def)

lemma u16s_at_nth: "i < n \<Longrightarrow> u16s_at buf j n ! i = u16_at buf (j + 2 * i)"
  by (simp add: u16s_at_def)

text \<open>The two tests on the copied structure recognise \<open>.\<close> and \<open>..\<close>.\<close>

lemma dot_tests:
  assumes "u16s_at buf i (length name) = name" and "n = length name"
  shows "(n = 1 \<and> u16s_at buf i 4 ! 0 = 46) \<or>
         (n = 2 \<and> u16s_at buf i 4 ! 0 = 46 \<and> u16s_at buf i 4 ! 1 = 46) \<longleftrightarrow> is_dot_wide name"
proof -
  have nth: "name ! j = u16_at buf (i + 2 * j)" if "j < length name" for j
    using assms(1) u16s_at_nth [OF that, of buf i] by simp
  consider "name = []" | a where "name = [a]" | a b where "name = [a, b]" | a b c xs where "name = a # b # c # xs"
    by (metis neq_Nil_conv)
  then show ?thesis
    using nth [of 0] nth [of 1] assms(2) by cases (auto simp: is_dot_wide_def u16s_at_nth)
qed

text \<open>One step of the parser.\<close>

lemma parse_record:
  fixes g :: "dir_entry_info \<Rightarrow> 's \<Rightarrow> 's" and s :: 's
  assumes "nt_fits r" and buf: "buf = pre @ encode_nt next r @ rest"
  defines "s' \<equiv> (if is_dot_wide (nr_name r) then s else g (record_info r) s)"
  shows "parse_entries_from buf (length pre) (\<lambda>e n. g (entry_info e n)) s =
    (if next = 0 then Some s'
     else parse_entries_from buf (length pre + unat next) (\<lambda>e n. g (entry_info e n)) s')"
proof -
  obtain e where e: "read_info buf (length pre) = Some e" and "fi_next_entry_offset e = next"
    and len: "unat (fi_file_name_length e) = 2 * length (nr_name r)"
    and info: "entry_info e (from_wide (nr_name r)) = record_info r"
    and tail: "fi_file_name e = u16s_at buf (length pre + FILE_NAME_OFFSET) 4"
    using read_info_encoded [OF assms(1), of pre "next" rest] unfolding buf by blast
  have name: "u16s_at buf (length pre + FILE_NAME_OFFSET) (length (nr_name r)) = nr_name r"
    unfolding buf by (rule name_at_encoded [OF assms(1)])
  have "length buf = length pre + nt_length r + length rest"
    by (simp add: buf length_encode_fits [OF assms(1)])
  then have room: "\<not> length buf < length pre + INFO_SIZE"
    "\<not> length buf < length pre + FILE_NAME_OFFSET + 2 * length (nr_name r)"
    using assms(1) by (simp_all add: nt_length_def nt_fits_def)
  then have wide: "read_wide buf (length pre + FILE_NAME_OFFSET) (length (nr_name r)) = Some (nr_name r)"
    using name by (simp add: read_wide_def)
  show ?thesis
    using dot_tests [OF name refl] room
    by (subst parse_entries_from.simps)
      (auto simp: e len info tail wide s'_def \<open>fi_next_entry_offset e = next\<close> Let_def)
qed

lemma parse_chunk:
  fixes g :: "dir_entry_info \<Rightarrow> 's \<Rightarrow> 's"
  assumes "list_all nt_ok rs" and "rs \<noteq> []" and "buf = pre @ encode_chunk rs @ rest"
  shows "parse_entries_from buf (length pre) (\<lambda>e n. g (entry_info e n)) s = Some (fold g (nt_listed rs) s)"
  using assms
proof (induction rs arbitrary: pre s rule: encode_chunk.induct)
  case (2 r)
  then show ?case using parse_record [of r buf pre 0 rest g s] by (simp add: nt_listed_def nt_ok_fits)
next
  case (3 r r' rs)
  let ?s = "if is_dot_wide (nr_name r) then s else g (record_info r) s"
  let ?next = "of_nat (nt_length r) :: u32"
  have ok: "nt_ok r" and oks: "list_all nt_ok (r' # rs)" using "3.prems"(1) by simp_all
  have len: "unat ?next = nt_length r" using nt_length_bounds(2) [OF ok] by (rule unat_u32)
  have "unat ?next \<noteq> 0" using nt_length_bounds(1) [OF ok] by (simp add: len INFO_SIZE_eq)
  then have nz: "?next \<noteq> 0" by (metis unat_0)
  have buf: "buf = pre @ encode_nt ?next r @ encode_chunk (r' # rs) @ rest" using "3.prems"(3) by simp
  have off: "length pre + nt_length r = length (pre @ encode_nt ?next r)" by (simp add: length_encode_nt [OF ok])
  have "parse_entries_from buf (length pre) (\<lambda>e n. g (entry_info e n)) s =
      parse_entries_from buf (length (pre @ encode_nt ?next r)) (\<lambda>e n. g (entry_info e n)) ?s"
    using parse_record [OF nt_ok_fits [OF ok] buf, of g s] nz by (simp only: len off if_False)
  also have "\<dots> = Some (fold g (nt_listed (r' # rs)) ?s)"
    using oks buf by (intro "3.IH") simp_all
  also have "fold g (nt_listed (r' # rs)) ?s = fold g (nt_listed (r # r' # rs)) s" by (simp add: nt_listed_def)
  finally show ?case .
qed simp

lemma parse_buffer_chunk:
  assumes "list_all nt_ok rs" and "rs \<noteq> []"
  shows "parse_buffer_entries (encode_chunk rs @ rest) (\<lambda>e n. g (entry_info e n)) s = Some (fold g (nt_listed rs) s)"
  using parse_chunk [OF assms, of "encode_chunk rs @ rest" "[]" rest g s] by (simp add: parse_buffer_entries_def)


section \<open>Enumeration delivers the directory\<close>

text \<open>
  What the system promises for an open directory: each call fills the front of the buffer with whole
  records, until it ends with a status that is not a success; the first call asks for a restart.
\<close>

fun nt_serves :: "'w nt_world \<Rightarrow> int \<Rightarrow> bool \<Rightarrow> 'w \<Rightarrow> nt_record list list \<Rightarrow> int \<Rightarrow> bool" where
  "nt_serves ops h restart w [] status \<longleftrightarrow> status \<noteq> 0 \<and>
     (\<forall>buf. \<exists>n buf' w'. nw_query_dir ops h buf restart w = ((status, n), buf', w'))"
| "nt_serves ops h restart w (rs # chunks) status \<longleftrightarrow>
     rs \<noteq> [] \<and> list_all nt_ok rs \<and>
     (\<forall>buf. \<exists>n rest w'. 0 < n \<and> nw_query_dir ops h buf restart w = ((0, n), encode_chunk rs @ rest, w') \<and>
        nt_serves ops h False w' chunks status)"

definition nt_final :: "'w nt_world \<Rightarrow> int \<Rightarrow> io_error + unit" where
  "nt_final ops status =
     (if status = STATUS_NO_MORE_FILES then Inr () else Inl (ntstatus_to_io_error status ops))"

lemma nt_listed_append [simp]: "nt_listed (rs @ rs') = nt_listed rs @ nt_listed rs'"
  by (simp add: nt_listed_def)

lemma core_inner_serves:
  fixes g :: "dir_entry_info \<Rightarrow> 's \<Rightarrow> 's"
  shows "nt_serves ops h restart w chunks status \<Longrightarrow>
   \<exists>buf' w'. enumerate_dir_core_inner ops h (\<lambda>e n. g (entry_info e n)) restart buf s w =
     Some (nt_final ops status, fold g (nt_listed (concat chunks)) s, buf', w')"
proof (induction chunks arbitrary: restart w buf s)
  case Nil
  then have "status \<noteq> 0" by simp
  from Nil obtain n buf' w' where "nw_query_dir ops h buf restart w = ((status, n), buf', w')"
    unfolding nt_serves.simps by blast
  with \<open>status \<noteq> 0\<close> show ?case
    by (simp add: enumerate_dir_core_inner.simps [of ops h _ restart buf s w] nt_final_def nt_listed_def)
next
  case (Cons rs chunks)
  then obtain n rest w' where q: "nw_query_dir ops h buf restart w = ((0, n), encode_chunk rs @ rest, w')"
    and n: "0 < n" and sv: "nt_serves ops h False w' chunks status" and ok: "rs \<noteq> []" "list_all nt_ok rs"
    unfolding nt_serves.simps by blast
  have "enumerate_dir_core_inner ops h (\<lambda>e n. g (entry_info e n)) restart buf s w =
      enumerate_dir_core_inner ops h (\<lambda>e n. g (entry_info e n)) False (encode_chunk rs @ rest)
        (fold g (nt_listed rs) s) w'"
    using n parse_buffer_chunk [OF ok(2,1), of rest g s]
    by (simp add: enumerate_dir_core_inner.simps [of ops h _ restart buf s w] q)
  with Cons.IH [OF sv] show ?case by simp
qed

lemma core_serves:
  assumes "nt_serves ops h True w chunks status"
  shows "\<exists>tls' w'. enumerate_dir_core ops h (\<lambda>e n. g (entry_info e n)) tls s w =
           Some (nt_final ops status, fold g (nt_listed (concat chunks)) s, tls', w')"
  using core_inner_serves [OF assms, of g "case tls of Some buffer \<Rightarrow> buffer | None \<Rightarrow> replicate BUFFER_SIZE 0" s]
  by (auto simp: enumerate_dir_core_def)

lemma fold_snoc: "fold (\<lambda>x xs. xs @ [x]) ys xs = xs @ ys"
  by (induction ys arbitrary: xs) simp_all

definition is_subdir :: "dir_entry_info \<Rightarrow> bool" where
  "is_subdir info \<longleftrightarrow> di_file_attributes info AND FILE_ATTRIBUTE_DIRECTORY \<noteq> 0"

definition stream_info :: "(dir_entry_info \<Rightarrow> 's \<Rightarrow> 's) \<Rightarrow> dir_entry_info \<Rightarrow>
    dir_entry_info list \<times> 's \<Rightarrow> dir_entry_info list \<times> 's" where
  "stream_info f info st = (fst st @ [info], if is_subdir info then f info (snd st) else snd st)"

lemma stream_entry_info: "stream_entry f = (\<lambda>e n. stream_info f (entry_info e n))"
  by (simp add: fun_eq_iff stream_entry_def stream_info_def is_subdir_def Let_def)

lemma fold_stream_info: "fold (stream_info f) infos (xs, s) = (xs @ infos, fold f (filter is_subdir infos) s)"
  by (induction infos arbitrary: xs s) (simp_all add: stream_info_def)

lemma enumerate_dir_serves:
  assumes "open_dir_handle ops p w = (Inr h, w1)" and "nt_serves ops h True w1 chunks status"
  shows "\<exists>tls' w'. enumerate_dir ops p tls w =
           Some (map_sum id (\<lambda>_. (h, nt_listed (concat chunks))) (nt_final ops status), tls', w')"
  using core_serves [OF assms(2), of "\<lambda>info infos. infos @ [info]" tls "[]"] assms(1)
  by (cases "nt_final ops status") (auto simp: enumerate_dir_def fold_snoc)

lemma enumerate_dir_streaming_serves:
  assumes "open_dir_handle ops p w = (Inr h, w1)" and "nt_serves ops h True w1 chunks status"
  shows "\<exists>tls' w'. enumerate_dir_streaming ops p on_subdir tls s w =
           Some (map_sum id (\<lambda>_. (h, nt_listed (concat chunks))) (nt_final ops status),
             fold on_subdir (filter is_subdir (nt_listed (concat chunks))) s, tls', w')"
  using core_serves [OF assms(2), of "stream_info on_subdir" tls "([], s)"] assms(1)
  by (cases "nt_final ops status") (auto simp: enumerate_dir_streaming_def stream_entry_info fold_stream_info)

section \<open>A system for the witnesses\<close>

text \<open>A table of directories, each with the chunks in which it is delivered; the state is what is left.\<close>

definition nt_tree :: "(path \<Rightarrow> nt_record list list option) \<Rightarrow> nt_record list list nt_world" where
  "nt_tree dirs =
     \<lparr>nw_create_file = (\<lambda>p w. case dirs (from_wide (butlast p)) of
         Some chunks \<Rightarrow> (3, chunks) | None \<Rightarrow> (INVALID_HANDLE_VALUE, w)),
      nw_last_os_error = (\<lambda>w. OsError 2 OtherKind),
      nw_query_dir = (\<lambda>h buf restart w. case w of
          [] \<Rightarrow> ((STATUS_NO_MORE_FILES, 0), buf, [])
        | rs # chunks \<Rightarrow>
            ((0, length (encode_chunk rs)), encode_chunk rs @ drop (length (encode_chunk rs)) buf, chunks)),
      nw_status_to_win32 = (\<lambda>status. 18), nw_error_kind = (\<lambda>code. OtherKind),
      nw_query_by_name = Some (\<lambda>h len name buf. (0, take 64 buf @ le_bytes 4 (length name) @ drop 68 buf)),
      nw_volume_info = (\<lambda>h. Some (7, [78, 84, 70, 83, 0, 0])), nw_close_handle = (\<lambda>h w. [])\<rparr>"

definition example_record :: "u32 \<Rightarrow> u16 list \<Rightarrow> nt_record" where
  "example_record attributes name =
     \<lparr>nr_file_index = 0, nr_creation_time = 116444736000000000, nr_last_access_time = 0,
      nr_last_write_time = 116444736010000001, nr_change_time = 0, nr_end_of_file = 5,
      nr_allocation_size = 8, nr_file_attributes = attributes, nr_ea_size = 0,
      nr_short_name = replicate 28 0, nr_file_id = 9, nr_name = name,
      nr_padding = replicate ((8 - 2 * length name mod 8) mod 8) 170\<rparr>"

definition nt_chunks :: "nt_record list list" where
  "nt_chunks =
     [[example_record 0x10 [46], example_record 0x10 [46, 46], example_record 0x10 [97]],
      [example_record 0x20 [98, 0xD800]]]"

definition nt_well_formed :: "nt_record list list \<Rightarrow> bool" where
  "nt_well_formed chunks \<longleftrightarrow> list_all (\<lambda>rs. rs \<noteq> [] \<and> list_all nt_ok rs) chunks"

lemma encode_chunk_pos:
  assumes "list_all nt_ok rs" and "rs \<noteq> []"
  shows "0 < length (encode_chunk rs)"
proof -
  have "0 < length (encode_nt next r)" if "nt_ok r" for "next" r
    using nt_length_bounds(1) [OF that] by (simp add: length_encode_nt [OF that] INFO_SIZE_eq)
  then show ?thesis using assms by (cases rs rule: encode_chunk.cases) auto
qed

lemma nt_tree_serves:
  "nt_well_formed chunks \<Longrightarrow> nt_serves (nt_tree dirs) h restart chunks chunks STATUS_NO_MORE_FILES"
proof (induction chunks arbitrary: restart)
  case Nil
  then show ?case by (simp add: nt_tree_def STATUS_NO_MORE_FILES_def)
next
  case (Cons rs chunks)
  then have "list_all nt_ok rs" "rs \<noteq> []" "nt_well_formed chunks" by (simp_all add: nt_well_formed_def)
  moreover from this have "nt_serves (nt_tree dirs) h False chunks chunks STATUS_NO_MORE_FILES"
    using Cons.IH by blast
  moreover have "nw_query_dir (nt_tree dirs) h buf restart (rs # chunks) =
      ((0, length (encode_chunk rs)), encode_chunk rs @ drop (length (encode_chunk rs)) buf, chunks)" for buf
    by (simp add: nt_tree_def)
  ultimately show ?case unfolding nt_serves.simps using encode_chunk_pos [of rs] by metis
qed

lemma nt_tree_open:
  "dirs (from_wide (encode_wide p)) = Some chunks \<Longrightarrow>
   open_dir_handle (nt_tree dirs) p w = (Inr 3, chunks)"
  "dirs (from_wide (encode_wide p)) = None \<Longrightarrow>
   open_dir_handle (nt_tree dirs) p w = (Inl (OsError 2 OtherKind), w)"
  by (simp_all add: open_dir_handle_def nt_tree_def path_to_widestring_def INVALID_HANDLE_VALUE_def)

section \<open>Properties\<close>

text \<open>
  C18. Memory safety: whatever bytes the buffer holds, parsing it ends and reads only inside the
  buffer, since each of the two bounds checks covers the reads behind it.
\<close>

theorem nt_parse_memory_safe: "\<exists>s'. parse_buffer_entries buffer on_entry s = Some s'"
proof -
  have "\<exists>s'. parse_entries_from buffer offset on_entry s = Some s'" for offset
  proof (induction buffer offset on_entry s rule: parse_entries_from.induct)
    case (1 buffer offset on_entry s)
    show ?case
    proof (cases "length buffer < offset + INFO_SIZE")
      case True
      then show ?thesis by (simp add: parse_entries_from.simps)
    next
      case False
      then obtain entry where entry: "read_info buffer offset = Some entry" by (simp add: read_info_def)
      let ?len = "unat (fi_file_name_length entry)"
      show ?thesis
      proof (cases "length buffer < offset + FILE_NAME_OFFSET + ?len")
        case True
        with False entry show ?thesis by (subst parse_entries_from.simps) (simp add: Let_def)
      next
        case room: False
        have "2 * (?len div 2) \<le> ?len" by simp
        with room obtain name where
          "read_wide buffer (offset + FILE_NAME_OFFSET) (?len div 2) = Some name"
          by (simp add: read_wide_def)
        with 1 [OF False entry refl refl room refl refl refl refl] False entry room show ?thesis
          by (subst parse_entries_from.simps) (auto simp: Let_def)
      qed
    qed
  qed
  then show ?thesis by (simp add: parse_buffer_entries_def)
qed

text \<open>
  C19. Parsing round trip: over a buffer that starts with any sequence of records in the layout of the
  system, whatever follows them, the parser delivers exactly these records but \<open>.\<close> and \<open>..\<close>, in order and
  with all their fields; distinct names stay distinct, unpaired surrogates included. No record is lost
  to the check that asks for the whole structure of 112 bytes.
\<close>

theorem nt_parse_roundtrip:
  assumes "list_all nt_ok rs" and "rs \<noteq> []"
  shows "parse_buffer_entries (encode_chunk rs @ rest) (\<lambda>e n infos. infos @ [entry_info e n]) [] =
           Some (map record_info (filter (\<lambda>r. \<not> is_dot_wide (nr_name r)) rs)) \<and>
         (\<forall>r r'. di_file_name (record_info r) = di_file_name (record_info r') \<longrightarrow> nr_name r = nr_name r')"
  using parse_buffer_chunk [OF assms, of rest "\<lambda>info infos. infos @ [info]" "[]"]
  by (simp add: fold_snoc nt_listed_def record_info_def)

theorem nt_parse_roundtrip_witness:
  "map_option (map di_file_name)
     (parse_buffer_entries (encode_chunk (concat nt_chunks) @ [1, 2]) (\<lambda>e n infos. infos @ [entry_info e n]) []) =
   Some [[97], [98, 0xED, 0xA0, 0x80]]"
proof -
  have ok: "list_all nt_ok (concat nt_chunks)" "concat nt_chunks \<noteq> []" by code_simp+
  have names: "map di_file_name (map record_info (filter (\<lambda>r. \<not> is_dot_wide (nr_name r)) (concat nt_chunks))) =
      [[97], [98, 0xED, 0xA0, 0x80]]"
    by code_simp
  show ?thesis unfolding nt_parse_roundtrip [OF ok, of "[1, 2]", THEN conjunct1] option.map names ..
qed

text \<open>
  C20. Enumeration on Windows: for a directory that the system delivers in any number of buffers, the
  enumeration ends and returns every entry but \<open>.\<close> and \<open>..\<close>, in order; the streaming variant returns the
  same and calls \<open>on_subdir\<close> for exactly the entries with the directory attribute, in order. A status
  other than the end of the directory is returned as an error, after the callbacks before it.
\<close>

theorem nt_enumeration_delivers_directory:
  assumes "open_dir_handle ops p w = (Inr h, w1)" and "nt_serves ops h True w1 chunks status"
  shows "(\<exists>tls' w'. enumerate_dir ops p tls w =
           Some (map_sum id (\<lambda>_. (h, nt_listed (concat chunks))) (nt_final ops status), tls', w')) \<and>
         (\<exists>tls' w'. enumerate_dir_streaming ops p on_subdir tls s w =
           Some (map_sum id (\<lambda>_. (h, nt_listed (concat chunks))) (nt_final ops status),
             fold on_subdir (filter is_subdir (nt_listed (concat chunks))) s, tls', w'))"
  by (intro conjI enumerate_dir_serves [OF assms] enumerate_dir_streaming_serves [OF assms])

theorem nt_enumeration_delivers_directory_witness:
  "map di_file_name (nt_listed (concat nt_chunks)) = [[97], [98, 0xED, 0xA0, 0x80]] \<and>
   (\<exists>tls' w'. enumerate_dir (nt_tree (\<lambda>p. Some nt_chunks)) [114] None [] =
      Some (Inr (3, nt_listed (concat nt_chunks)), tls', w')) \<and>
   (\<exists>tls' w'. enumerate_dir_streaming (nt_tree (\<lambda>p. Some nt_chunks)) [114] (\<lambda>e n. n + 1) None (0 :: nat) [] =
      Some (Inr (3, nt_listed (concat nt_chunks)), 1, tls', w'))"
proof -
  have names: "map di_file_name (nt_listed (concat nt_chunks)) = [[97], [98, 0xED, 0xA0, 0x80]]"
    and count: "fold (\<lambda>e n. n + 1) (filter is_subdir (nt_listed (concat nt_chunks))) (0 :: nat) = 1"
    by code_simp+
  have "nt_well_formed nt_chunks" by code_simp
  then have "nt_serves (nt_tree (\<lambda>p. Some nt_chunks)) 3 True nt_chunks nt_chunks STATUS_NO_MORE_FILES"
    by (rule nt_tree_serves)
  moreover have "open_dir_handle (nt_tree (\<lambda>p. Some nt_chunks)) [114] [] = (Inr 3, nt_chunks)"
    by (rule nt_tree_open(1)) simp
  ultimately show ?thesis
    using nt_enumeration_delivers_directory [of "nt_tree (\<lambda>p. Some nt_chunks)" "[114]" "[]" 3 nt_chunks nt_chunks
        STATUS_NO_MORE_FILES None "\<lambda>e n. n + 1" "0 :: nat"] names count
    by (simp add: nt_final_def)
qed

text \<open>
  Hard link counts: every entry of the listing that is asked for is looked up by the exact UTF-16
  name of its record, with the matching byte length, and the entries keep everything but the count.
  Entries without the directory attribute are passed over unless files are asked for.
\<close>

theorem nlinks_queried_by_exact_name:
  assumes "list_all nt_ok rs" and "nw_query_by_name ops = Some query"
  shows "batch_query_nlinks ops (map record_info rs) h files =
    map (\<lambda>r. case query h (of_nat (2 * length (nr_name r))) (nr_name r) (replicate STAT_INFO_SIZE 0) of
          (status, buf) \<Rightarrow>
            if (files \<or> is_subdir (record_info r)) \<and> status = 0
            then (record_info r)\<lparr>di_number_of_links := Some (u32_at buf 64)\<rparr> else record_info r) rs"
  using assms
  by (auto simp: batch_query_nlinks_def query_nlinks_def is_subdir_def record_info_def nt_ok_def mult.commute
      Let_def list_all_iff split: prod.split)

theorem nlinks_queried_by_exact_name_witness:
  "map di_number_of_links (batch_query_nlinks (nt_tree (\<lambda>p. None)) (map record_info (concat nt_chunks)) 3 True) =
   [Some 1, Some 2, Some 1, Some 2]"
proof -
  have ok: "list_all nt_ok (concat nt_chunks)" by code_simp
  let ?query = "\<lambda>h len name buf. (0, take 64 buf @ le_bytes 4 (length name) @ drop 68 buf)"
  have q: "nw_query_by_name (nt_tree (\<lambda>p. None)) = Some ?query" by (simp add: nt_tree_def)
  have n: "map (\<lambda>r. u32_at (take 64 (replicate STAT_INFO_SIZE 0) @ le_bytes 4 (length (nr_name r)) @
      drop 68 (replicate STAT_INFO_SIZE 0)) 64) (concat nt_chunks) = [1, 2, 1, 2]"
    by code_simp
  have "map di_number_of_links (batch_query_nlinks (nt_tree (\<lambda>p. None)) (map record_info (concat nt_chunks)) 3 True) =
      map Some (map (\<lambda>r. u32_at (take 64 (replicate STAT_INFO_SIZE 0) @ le_bytes 4 (length (nr_name r)) @
        drop 68 (replicate STAT_INFO_SIZE 0)) 64) (concat nt_chunks))"
    unfolding nlinks_queried_by_exact_name [OF ok q] by (simp add: comp_def)
  also have "\<dots> = [Some 1, Some 2, Some 1, Some 2]" unfolding n by simp
  finally show ?thesis .
qed

end
