(* ===== verification/Read_Dir_Windows.thy ===== *)
theory Read_Dir_Windows
  imports Reader Nt_Dir_Enum
begin

text \<open>
  Reading one directory on Windows (\<open>lib.rs\<close>): time stamps and file types of the records of
  \<open>NtQueryDirectoryFileEx\<close>, the entries built from them, hard link counts, and streaming of
  subdirectories while the enumeration runs. The path syntax of the platform is a parameter.
\<close>

section \<open>Attributes and time stamps\<close>

definition FILE_ATTRIBUTE_REPARSE_POINT :: u32 where "FILE_ATTRIBUTE_REPARSE_POINT = 0x400"
definition FILE_ATTRIBUTE_HIDDEN :: u32 where "FILE_ATTRIBUTE_HIDDEN = 0x2"

definition is_hidden_win32 :: "os_string \<Rightarrow> u32 \<Rightarrow> bool" where
  "is_hidden_win32 file_name file_attributes \<longleftrightarrow>
     file_attributes AND FILE_ATTRIBUTE_HIDDEN \<noteq> 0 \<or> is_hidden file_name"

definition EPOCH_DIFFERENCE_100NS :: int where "EPOCH_DIFFERENCE_100NS = 116444736000000000"
definition HUNDRED_NS_PER_SEC :: int where "HUNDRED_NS_PER_SEC = 10000000"
definition NS_PER_HUNDRED_NS :: int where "NS_PER_HUNDRED_NS = 100"

definition i64_saturating_sub :: "int \<Rightarrow> int \<Rightarrow> int" where
  "i64_saturating_sub a b = max (- (2 ^ 63)) (min (2 ^ 63 - 1) (a - b))"

text \<open>
  \<open>SystemTime\<close> on Windows counts ticks of 100 ns since 1601 in an \<open>i64\<close>; adding a duration that does not
  fit panics.
\<close>

definition system_time_ticks :: "system_time \<Rightarrow> int" where
  "system_time_ticks t = EPOCH_DIFFERENCE_100NS + fst t * HUNDRED_NS_PER_SEC + int (snd t) div NS_PER_HUNDRED_NS"

definition filetime_to_systemtime :: "u64 \<Rightarrow> system_time option" where
  "filetime_to_systemtime ft =
     (if sint ft = 0 then None
      else let duration_100ns = i64_saturating_sub (sint ft) EPOCH_DIFFERENCE_100NS in
           if duration_100ns < 0 then None
           else let secs = duration_100ns div HUNDRED_NS_PER_SEC;
                    nanos = duration_100ns mod HUNDRED_NS_PER_SEC * NS_PER_HUNDRED_NS
                in Some (case duration_new (nat secs) (nat nanos) of (s, n) \<Rightarrow> (int s, n)))"

text \<open>The two bytes of \<open>FileType\<close> are the flags of a directory and of a link.\<close>

definition file_type_from_attrs :: "u32 \<Rightarrow> file_type" where
  "file_type_from_attrs attrs =
     WinFileType (attrs AND FILE_ATTRIBUTE_DIRECTORY \<noteq> 0) (attrs AND FILE_ATTRIBUTE_REPARSE_POINT \<noteq> 0)"

section \<open>Building an entry\<close>

definition make_metadata :: "dir_entry_info \<Rightarrow> meta_data" where
  "make_metadata info =
     (let is_dir = (di_file_attributes info AND FILE_ATTRIBUTE_DIRECTORY \<noteq> 0);
          is_symlink = (di_file_attributes info AND FILE_ATTRIBUTE_REPARSE_POINT \<noteq> 0)
      in \<lparr>md_is_dir = is_dir, md_is_file = (\<not> is_dir \<and> \<not> is_symlink), md_is_symlink = is_symlink,
          md_size = di_file_size info,
          md_created = filetime_to_systemtime (di_creation_time info),
          md_changed = filetime_to_systemtime (di_creation_time info),
          md_modified = filetime_to_systemtime (di_last_write_time info),
          md_accessed = filetime_to_systemtime (di_last_access_time info),
          md_permissions = None\<rparr>)"

definition option_or :: "'a option \<Rightarrow> 'a option \<Rightarrow> 'a option" where
  "option_or a b = (case a of Some x \<Rightarrow> Some x | None \<Rightarrow> b)"

definition make_metadata_ext :: "fs_ops \<Rightarrow> dir_entry_info \<Rightarrow> path option \<Rightarrow> bool \<Rightarrow> win_ext" where
  "make_metadata_ext fs info win32_fallback_path read_hardlink_info =
     (let need_nlink = (read_hardlink_info \<and> di_number_of_links info = None);
          need_vol = (read_hardlink_info \<and> di_volume_serial_number info = None);
          (number_of_links, volume_serial_number) =
            (if need_nlink \<or> need_vol
             then case win32_fallback_path of
                    Some p \<Rightarrow>
                      (case fs_symlink_metadata fs p of
                         Inr m \<Rightarrow>
                           (case get_metadata_ext Windows m of
                              WinExt ext \<Rightarrow>
                                (option_or (di_number_of_links info) (ext_number_of_links ext),
                                 option_or (di_volume_serial_number info) (ext_volume_serial_number ext))
                            | UnixExt _ \<Rightarrow> (di_number_of_links info, di_volume_serial_number info))
                       | Inl _ \<Rightarrow> (di_number_of_links info, di_volume_serial_number info))
                  | None \<Rightarrow> (di_number_of_links info, di_volume_serial_number info)
             else (di_number_of_links info, di_volume_serial_number info))
      in \<lparr>ext_file_attributes = di_file_attributes info, ext_volume_serial_number = volume_serial_number,
          ext_number_of_links = number_of_links, ext_file_index = Some (di_file_id info)\<rparr>)"

text \<open>The system of the Windows build: path syntax, the calls of the enumeration, \<open>std::fs\<close>.\<close>

record 'w win_ops =
  wo_platform :: platform
  wo_nt :: "'w nt_world"
  wo_fs :: fs_ops

record 'w win_state =
  ws_system :: 'w
  ws_tls :: "u8 list option"

definition make_dir_entry :: "'w win_ops \<Rightarrow> 'd \<Rightarrow> dir_entry_info \<Rightarrow> usize \<Rightarrow> path \<Rightarrow> bool \<Rightarrow> bool \<Rightarrow> bool \<Rightarrow>
    ancestor_identity list option \<Rightarrow> error + 'd dir_entry" where
  "make_dir_entry ops dflt info depth parent_path read_metadata read_metadata_ext read_hardlink_info ancestors =
     (let entry_metadata = (if read_metadata then Some (make_metadata info) else None);
          entry_metadata_ext =
            (if read_metadata_ext then Some (WinExt (make_metadata_ext (wo_fs ops) info None read_hardlink_info)) else None);
          file_type = file_type_from_attrs (di_file_attributes info)
      in from_raw_on (wo_platform ops) dflt depth parent_path entry_metadata entry_metadata_ext (di_file_name info)
           file_type ancestors)"

section \<open>Reading a directory\<close>

text \<open>
  The closure given to \<open>enumerate_dir_streaming\<close>; each call overwrites the last index of the child's path.
\<close>

definition stream_subdir_windows :: "'w win_ops \<Rightarrow> ('d, 'r) read_args \<Rightarrow> ('q, 'r) streaming_context \<Rightarrow>
    dir_entry_info \<Rightarrow> usize \<times> 'q \<Rightarrow> usize \<times> 'q" where
  "stream_subdir_windows ops args ctx dir_info st =
     (case st of (streamed_count, q) \<Rightarrow>
      case sc_is_stopped ctx q of (stopped, q) \<Rightarrow>
      if stopped then (streamed_count, q)
      else if ra_skip_hidden args \<and> is_hidden_win32 (di_file_name dir_info) (di_file_attributes dir_info)
      then (streamed_count, q)
      else if di_file_attributes dir_info AND FILE_ATTRIBUTE_DIRECTORY = 0 then (streamed_count, q)
      else
        let child_path = pl_join (wo_platform ops) (ra_path args) (di_file_name dir_info);
            spec = \<lparr>spec_depth = ra_contents_depth args, spec_path = child_path,
                    spec_client_read_state = ra_client_read_state args,
                    spec_follow_link_ancestors = ra_ancestors args\<rparr>;
            weight = usize_saturating_add (sc_parent_weight ctx) 1;
            child_index_path = index_path_push (sc_index_path ctx) 0;
            child_index_path =
              IndexPath ((indices child_index_path)[length (indices child_index_path) - 1 := streamed_count])
        in case sc_schedule ctx (weighted_new spec child_index_path weight) q of (scheduled, q) \<Rightarrow>
           if scheduled then (streamed_count + 1, q) else (streamed_count, q))"

definition fill_hardlink_info :: "'w win_ops \<Rightarrow> ('d, 'r) read_args \<Rightarrow> int \<Rightarrow> dir_entry_info list \<Rightarrow>
    dir_entry_info list" where
  "fill_hardlink_info ops args guard entries =
     (if ra_read_metadata_ext args \<and> ra_read_hardlink_info args
      then case detect_fs_type_and_vol_serial (wo_nt ops) guard of (fs_type, vol_serial) \<Rightarrow>
           let entries =
                 (if is_fat_family fs_type then map (\<lambda>e. e\<lparr>di_number_of_links := Some 1\<rparr>) entries
                  else batch_query_nlinks (wo_nt ops) entries guard (ra_read_hardlink_info args))
           in case vol_serial of
                Some vs \<Rightarrow> map (\<lambda>e. e\<lparr>di_volume_serial_number := Some vs\<rparr>) entries
              | None \<Rightarrow> entries
      else entries)"

definition windows_entry_results :: "'w win_ops \<Rightarrow> 'd \<Rightarrow> ('d, 'r) read_args \<Rightarrow> dir_entry_info list \<Rightarrow>
    (error + 'd dir_entry) list" where
  "windows_entry_results ops dflt args entries =
     List.map_filter (\<lambda>info.
       if ra_skip_hidden args \<and> is_hidden_win32 (di_file_name info) (di_file_attributes info) then None
       else case make_dir_entry ops dflt info (ra_contents_depth args) (ra_path args) (ra_read_metadata args)
                   (ra_read_metadata_ext args) (ra_read_hardlink_info args) (ra_ancestors args) of
              Inr e \<Rightarrow> Some (process_dir_entry_result_on (wo_platform ops) (wo_fs ops) dflt (Inr e) (ra_follow_links args))
            | Inl err \<Rightarrow> Some (Inl err)) entries"

text \<open>From the enumerated entries to the result; the handle is closed before the entries are built.\<close>

definition windows_read_dir :: "'w win_ops \<Rightarrow> 'd \<Rightarrow> ('d, 'r) read_args \<Rightarrow> int \<Rightarrow> dir_entry_info list \<Rightarrow>
    usize \<Rightarrow> ('d, 'r) read_dir" where
  "windows_read_dir ops dflt args guard entries streamed =
     (let entries = fill_hardlink_info ops args guard entries;
          results = windows_entry_results ops dflt args entries;
          (client_read_state, results) = finish_results args results
      in (read_dir_new client_read_state results)\<lparr>streamed_child_count := streamed\<rparr>)"

definition read_dir_windows :: "'w win_ops \<Rightarrow> 'd \<Rightarrow> ('d, 'r) read_args \<Rightarrow>
    ('q, 'r) streaming_context option \<Rightarrow> 'w win_state \<Rightarrow> 'q \<Rightarrow>
    ((error + ('d, 'r) read_dir) \<times> 'w win_state \<times> 'q) option" where
  "read_dir_windows ops dflt args streaming_ctx s q =
     (let use_streaming = (streaming_ctx \<noteq> None \<and> \<not> ra_sort args \<and> ra_process_read_dir args = None);
          enumerated =
            (case (if use_streaming then streaming_ctx else None) of
               Some ctx \<Rightarrow>
                 enumerate_dir_streaming (wo_nt ops) (ra_path args) (stream_subdir_windows ops args ctx)
                   (ws_tls s) (0, q) (ws_system s)
             | None \<Rightarrow>
                 map_option (\<lambda>(r, tls, w). (r, (0, q), tls, w))
                   (enumerate_dir (wo_nt ops) (ra_path args) (ws_tls s) (ws_system s)))
      in case enumerated of
           None \<Rightarrow> None
         | Some (entries_result, (streamed, q), tls, w) \<Rightarrow>
             let s = s\<lparr>ws_tls := tls, ws_system := w\<rparr> in
             (case entries_result of
                Inl err \<Rightarrow>
                  if 0 < streamed
                  then Some (Inr ((read_dir_new (ra_client_read_state args)
                                     [Inl (error_from_path 0 (ra_path args) err)])
                                  \<lparr>streamed_child_count := streamed\<rparr>), s, q)
                  else Some (Inl (error_from_path 0 (ra_path args) err), s, q)
              | Inr (guard, entries) \<Rightarrow>
                  let read_dir = windows_read_dir ops dflt args guard entries streamed;
                      s = s\<lparr>ws_system := nw_close_handle (wo_nt ops) guard (ws_system s)\<rparr>
                  in Some (Inr read_dir, s, q)))"

section \<open>Entries and subdirectories\<close>

lemma make_dir_entry_Inr:
  "\<exists>e. make_dir_entry ops dflt info depth p rm rx rh as = Inr e \<and>
     de_depth e = depth \<and> de_file_name e = di_file_name info \<and> de_follow_link_ancestors e = as \<and>
     de_file_type e = file_type_from_attrs (di_file_attributes info) \<and>
     de_read_children_path e = (if ft_is_dir (file_type_from_attrs (di_file_attributes info))
       then Some (pl_join (wo_platform ops) p (di_file_name info)) else None)"
  by (simp add: make_dir_entry_def Let_def from_raw_on_def)

text \<open>Filling in hard link counts changes neither names nor attributes.\<close>

definition di_key :: "dir_entry_info \<Rightarrow> os_string \<times> u32" where
  "di_key info = (di_file_name info, di_file_attributes info)"

lemma fill_hardlink_info_keeps: "map di_key (fill_hardlink_info ops args h es) = map di_key es"
proof -
  have "di_key (query_nlinks f h b e) = di_key e" for f b e
    by (auto simp: query_nlinks_def di_key_def Let_def split: prod.split)
  then show ?thesis
    by (auto simp: fill_hardlink_info_def batch_query_nlinks_def di_key_def comp_def Let_def
        split: option.split prod.split)
qed

definition hidden_info :: "('d, 'r) read_args \<Rightarrow> dir_entry_info \<Rightarrow> bool" where
  "hidden_info args info \<longleftrightarrow>
     ra_skip_hidden args \<and> is_hidden_win32 (di_file_name info) (di_file_attributes info)"

text \<open>The entries whose attribute says directory, which streaming schedules, and their specifications.\<close>

definition visible_subdirs :: "('d, 'r) read_args \<Rightarrow> dir_entry_info list \<Rightarrow> dir_entry_info list" where
  "visible_subdirs args infos = filter (\<lambda>info. is_subdir info \<and> \<not> hidden_info args info) infos"

definition info_spec :: "'w win_ops \<Rightarrow> ('d, 'r) read_args \<Rightarrow> dir_entry_info \<Rightarrow> 'r read_dir_spec" where
  "info_spec ops args info =
     \<lparr>spec_depth = ra_contents_depth args,
      spec_path = pl_join (wo_platform ops) (ra_path args) (di_file_name info),
      spec_client_read_state = ra_client_read_state args, spec_follow_link_ancestors = ra_ancestors args\<rparr>"

lemma fold_stream_subdir_windows:
  "fold (stream_subdir_windows ops args (recording_context p w)) infos (n, q) =
     (n + length (visible_subdirs args infos),
      q @ streamed_list p w n (map (info_spec ops args) (visible_subdirs args infos)))"
  unfolding visible_subdirs_def
  by (rule fold_streams)
    (simp add: stream_subdir_windows_def recording_context_def info_spec_def is_subdir_def hidden_info_def
      index_path_push_def adding_def index_path_new_def Let_def)

lemma visible_subdirs_of_subdirs:
  "visible_subdirs args (filter is_subdir infos) = visible_subdirs args infos"
  by (auto simp: visible_subdirs_def intro: filter_cong)

text \<open>Directories that are not reparse points: the type of the entry is the attribute.\<close>

definition plain_infos :: "dir_entry_info list \<Rightarrow> bool" where
  "plain_infos infos \<longleftrightarrow>
     (\<forall>info \<in> set infos. is_subdir info \<longrightarrow> di_file_attributes info AND FILE_ATTRIBUTE_REPARSE_POINT = 0)"

lemma plain_type:
  "plain_infos infos \<Longrightarrow> info \<in> set infos \<Longrightarrow>
   ft_is_dir (file_type_from_attrs (di_file_attributes info)) = is_subdir info"
  by (auto simp: plain_infos_def file_type_from_attrs_def is_subdir_def)

lemma windows_entry_child_specs:
  assumes "plain_infos infos" and "\<not> ra_follow_links args" and "0 < ra_contents_depth args"
  shows "List.map_filter (child_spec (ra_client_read_state args)) (windows_entry_results ops dflt args infos) =
         map (info_spec ops args) (visible_subdirs args infos)"
proof -
  define entry where "entry info = projr (make_dir_entry ops dflt info (ra_contents_depth args) (ra_path args)
      (ra_read_metadata args) (ra_read_metadata_ext args) (ra_read_hardlink_info args) (ra_ancestors args))" for info
  have e: "make_dir_entry ops dflt info (ra_contents_depth args) (ra_path args) (ra_read_metadata args)
      (ra_read_metadata_ext args) (ra_read_hardlink_info args) (ra_ancestors args) = Inr (entry info)"
    and d: "de_depth (entry info) = ra_contents_depth args"
    "de_follow_link_ancestors (entry info) = ra_ancestors args"
    and c: "de_read_children_path (entry info) = (if ft_is_dir (file_type_from_attrs (di_file_attributes info))
      then Some (pl_join (wo_platform ops) (ra_path args) (di_file_name info)) else None)" for info
    using make_dir_entry_Inr [of ops dflt info "ra_contents_depth args" "ra_path args"
        "ra_read_metadata args" "ra_read_metadata_ext args" "ra_read_hardlink_info args" "ra_ancestors args"]
    by (auto simp: entry_def)
  have p: "process_dir_entry_result_on (wo_platform ops) (wo_fs ops) dflt (Inr (entry info)) (ra_follow_links args) =
      Inr (entry info)" for info
    using process_no_follow [of "entry info"] assms(2,3) d(1) by simp
  show ?thesis
    unfolding windows_entry_results_def visible_subdirs_def
  proof (rule built_child_specs [where entry = entry])
    fix info assume "info \<in> set infos"
    then show "read_children_spec (entry info) (ra_client_read_state args) =
        (if is_subdir info then Some (info_spec ops args info) else None)"
      using plain_type [OF assms(1)] c d by (simp add: read_children_spec_def info_spec_def)
  qed (simp add: e p hidden_info_def)
qed

lemma keys_determine:
  assumes "map di_key es = map di_key es'"
  shows "plain_infos es = plain_infos es'"
    and "map (info_spec ops args) (visible_subdirs args es) = map (info_spec ops args) (visible_subdirs args es')"
proof -
  have plain: "plain_infos xs \<longleftrightarrow>
      (\<forall>(n, a) \<in> set (map di_key xs). a AND FILE_ATTRIBUTE_DIRECTORY \<noteq> 0 \<longrightarrow> a AND FILE_ATTRIBUTE_REPARSE_POINT = 0)" for xs
    by (simp add: plain_infos_def is_subdir_def di_key_def)
  show "plain_infos es = plain_infos es'" unfolding plain assms ..
  have specs: "map (info_spec ops args) (visible_subdirs args xs) =
      map (\<lambda>(n, a). \<lparr>spec_depth = ra_contents_depth args, spec_path = pl_join (wo_platform ops) (ra_path args) n,
          spec_client_read_state = ra_client_read_state args, spec_follow_link_ancestors = ra_ancestors args\<rparr>)
        (filter (\<lambda>(n, a). a AND FILE_ATTRIBUTE_DIRECTORY \<noteq> 0 \<and> \<not> (ra_skip_hidden args \<and> is_hidden_win32 n a))
          (map di_key xs))" for xs
    by (simp add: filter_map visible_subdirs_def di_key_def comp_def info_spec_def is_subdir_def hidden_info_def)
  show "map (info_spec ops args) (visible_subdirs args es) = map (info_spec ops args) (visible_subdirs args es')"
    unfolding specs assms ..
qed

lemma windows_read_dir_children:
  assumes "plain_infos infos" and "\<not> ra_follow_links args" and "0 < ra_contents_depth args"
    and "\<not> ra_sort args" and "ra_process_read_dir args = None"
  shows "read_children_specs (windows_read_dir ops dflt args h infos n) =
         map (info_spec ops args) (visible_subdirs args infos)"
proof -
  let ?es = "fill_hardlink_info ops args h infos"
  note keys = keys_determine [OF fill_hardlink_info_keeps [of ops args h infos]]
  have "read_children_specs (windows_read_dir ops dflt args h infos n) =
      List.map_filter (child_spec (ra_client_read_state args)) (windows_entry_results ops dflt args ?es)"
    using assms(4,5) by (simp add: windows_read_dir_def finish_results_def Let_def)
  also have "\<dots> = map (info_spec ops args) (visible_subdirs args ?es)"
    using assms(1-3) keys(1) by (intro windows_entry_child_specs) simp_all
  also have "\<dots> = map (info_spec ops args) (visible_subdirs args infos)" by (rule keys(2))
  finally show ?thesis .
qed

lemma windows_read_dir_streamed:
  "windows_read_dir ops dflt args h infos n = (windows_read_dir ops dflt args h infos 0)\<lparr>streamed_child_count := n\<rparr>"
  by (simp add: windows_read_dir_def Let_def case_prod_unfold)

section \<open>The three ways a read ends\<close>

lemma nt_open_error:
  assumes "open_dir_handle (wo_nt ops) (ra_path args) (ws_system s) = (Inl err, w1)"
  shows "\<exists>s'. read_dir_windows ops dflt args ctx s q =
           Some (Inl (error_from_path 0 (ra_path args) err), s', q)"
  using assms
  by (auto simp: read_dir_windows_def enumerate_dir_streaming_def enumerate_dir_def Let_def split: option.split)

lemma nt_collects:
  assumes "open_dir_handle (wo_nt ops) (ra_path args) (ws_system s) = (Inr h, w1)"
    and "nt_serves (wo_nt ops) h True w1 chunks STATUS_NO_MORE_FILES"
    and "ctx = None \<or> ra_sort args \<or> ra_process_read_dir args \<noteq> None"
  shows "\<exists>s'. read_dir_windows ops dflt args ctx s q =
           Some (Inr (windows_read_dir ops dflt args h (nt_listed (concat chunks)) 0), s', q)"
  using enumerate_dir_serves [OF assms(1,2), of "ws_tls s"] assms(3)
  by (auto simp: read_dir_windows_def Let_def nt_final_def)

text \<open>What a read does to the queue of its streaming context, beside the number of scheduled subdirectories.\<close>

definition nt_streamed_by :: "'w win_ops \<Rightarrow> ('d, 'r) read_args \<Rightarrow> ('q, 'r) streaming_context option \<Rightarrow>
    dir_entry_info list \<Rightarrow> 'q \<Rightarrow> usize \<times> 'q" where
  "nt_streamed_by ops args ctx infos q =
     (case ctx of
        Some c \<Rightarrow> if ra_sort args \<or> \<not> Option.is_none (ra_process_read_dir args) then (0, q)
                  else fold (stream_subdir_windows ops args c) (filter is_subdir infos) (0, q)
      | None \<Rightarrow> (0, q))"

lemma nt_reads:
  assumes "open_dir_handle (wo_nt ops) (ra_path args) (ws_system s) = (Inr h, w1)"
    and "nt_serves (wo_nt ops) h True w1 chunks STATUS_NO_MORE_FILES"
  shows "\<exists>s'. read_dir_windows ops dflt args ctx s q =
           Some (Inr (windows_read_dir ops dflt args h (nt_listed (concat chunks))
               (fst (nt_streamed_by ops args ctx (nt_listed (concat chunks)) q))), s',
             snd (nt_streamed_by ops args ctx (nt_listed (concat chunks)) q))"
proof (cases "ctx = None \<or> ra_sort args \<or> ra_process_read_dir args \<noteq> None")
  case True
  then have "nt_streamed_by ops args ctx (nt_listed (concat chunks)) q = (0, q)"
    by (auto simp: nt_streamed_by_def Option.is_none_def split: option.split)
  with nt_collects [OF assms True, of dflt q] show ?thesis by simp
next
  case False
  then obtain c where c: "ctx = Some c" by (cases ctx) auto
  let ?L = "nt_listed (concat chunks)"
  have st: "nt_streamed_by ops args ctx ?L q = fold (stream_subdir_windows ops args c) (filter is_subdir ?L) (0, q)"
    using False c by (simp add: nt_streamed_by_def)
  obtain tls w where "enumerate_dir_streaming (wo_nt ops) (ra_path args) (stream_subdir_windows ops args c)
      (ws_tls s) (0, q) (ws_system s) = Some (Inr (h, ?L), nt_streamed_by ops args ctx ?L q, tls, w)"
    using enumerate_dir_streaming_serves [OF assms, of "stream_subdir_windows ops args c" "ws_tls s" "(0, q)"]
    by (auto simp: st nt_final_def)
  with False c show ?thesis by (simp add: read_dir_windows_def Let_def case_prod_unfold)
qed

lemma nt_streams_visible:
  assumes "open_dir_handle (wo_nt ops) (ra_path args) (ws_system s) = (Inr h, w1)"
    and "nt_serves (wo_nt ops) h True w1 chunks STATUS_NO_MORE_FILES"
    and "\<not> ra_sort args" and "ra_process_read_dir args = None"
    and rd: "rd = windows_read_dir ops dflt args h (nt_listed (concat chunks)) 0"
    and vis: "vis = visible_subdirs args (nt_listed (concat chunks))"
  shows "\<exists>s'. read_dir_windows ops dflt args (Some (recording_context p w)) s [] =
           Some (Inr (rd\<lparr>streamed_child_count := length vis\<rparr>), s',
             streamed_list p w 0 (map (info_spec ops args) vis))"
  using enumerate_dir_streaming_serves [OF assms(1,2), of
      "stream_subdir_windows ops args (recording_context p w)" "ws_tls s" "(0, [])"] assms(3,4)
    windows_read_dir_streamed [of ops dflt args h "nt_listed (concat chunks)" "length vis"]
  by (auto simp: read_dir_windows_def Let_def nt_final_def fold_stream_subdir_windows
      visible_subdirs_of_subdirs rd vis)

lemma nt_streaming:
  assumes "open_dir_handle (wo_nt ops) (ra_path args) (ws_system s) = (Inr h, w1)"
    and "nt_serves (wo_nt ops) h True w1 chunks STATUS_NO_MORE_FILES"
    and "plain_infos (nt_listed (concat chunks))"
    and "\<not> ra_follow_links args" and "0 < ra_contents_depth args"
    and "\<not> ra_sort args" and "ra_process_read_dir args = None"
    and rd: "rd = windows_read_dir ops dflt args h (nt_listed (concat chunks)) 0"
  shows "\<exists>s'. read_dir_windows ops dflt args (Some (recording_context p w)) s [] =
           Some (Inr (rd\<lparr>streamed_child_count := length (read_children_specs rd)\<rparr>), s',
             streamed_list p w 0 (read_children_specs rd))"
proof -
  have "read_children_specs rd = map (info_spec ops args) (visible_subdirs args (nt_listed (concat chunks)))"
    unfolding rd using assms(3-7) by (rule windows_read_dir_children)
  then show ?thesis using nt_streams_visible [OF assms(1,2,6,7) rd refl, of p w] by simp
qed

section \<open>A Windows system for the witnesses\<close>

text \<open>Paths with one separator, without drives and prefixes, are enough for the examples.\<close>

definition example_platform :: platform where
  "example_platform =
     \<lparr>pl_target = Windows, pl_join = (\<lambda>p n. p @ 92 # n), pl_is_absolute = (\<lambda>p. False),
      pl_file_name = Some, pl_parent = (\<lambda>p. None)\<rparr>"

definition example_win :: "(path \<Rightarrow> nt_record list list option) \<Rightarrow> nt_record list list win_ops" where
  "example_win dirs = \<lparr>wo_platform = example_platform, wo_nt = nt_tree dirs, wo_fs = example_fs\<rparr>"

definition example_win_state :: "nt_record list list win_state" where
  "example_win_state = \<lparr>ws_system = [], ws_tls = None\<rparr>"

definition win_args :: "(unit, unit) read_args" where
  "win_args =
     \<lparr>ra_path = [114], ra_read_dir_depth = 0, ra_contents_depth = 1, ra_follow_links = False,
      ra_read_metadata = True, ra_read_metadata_ext = True, ra_read_hardlink_info = True, ra_skip_hidden = False,
      ra_sort = False, ra_ancestors = None, ra_client_read_state = (), ra_process_read_dir = None\<rparr>"

section \<open>Properties\<close>

text \<open>
  C33. Time stamps on Windows: a file time before 1970 (zero and negative values included) has no system
  time, every other one is converted exactly, to the tick; the sum that the source forms is the file
  time again, so it fits and the addition never panics.
\<close>

theorem filetime_exact:
  "case filetime_to_systemtime ft of
     None \<Rightarrow> sint ft < EPOCH_DIFFERENCE_100NS
   | Some t \<Rightarrow> EPOCH_DIFFERENCE_100NS \<le> sint ft \<and> system_time_ticks t = sint ft \<and> 0 \<le> fst t \<and>
       snd t < NANOS_PER_SEC"
proof (cases "sint ft < EPOCH_DIFFERENCE_100NS")
  case True
  then show ?thesis
    by (simp add: filetime_to_systemtime_def i64_saturating_sub_def EPOCH_DIFFERENCE_100NS_def Let_def)
next
  case False
  define d where "d = sint ft - EPOCH_DIFFERENCE_100NS"
  have "sint ft < 2 ^ 63" using sint_lt [of ft] by simp
  then have d: "0 \<le> d" "i64_saturating_sub (sint ft) EPOCH_DIFFERENCE_100NS = d"
    using False by (simp_all add: d_def i64_saturating_sub_def EPOCH_DIFFERENCE_100NS_def)
  have m: "0 \<le> d mod HUNDRED_NS_PER_SEC" "d mod HUNDRED_NS_PER_SEC < HUNDRED_NS_PER_SEC"
    "0 \<le> d div HUNDRED_NS_PER_SEC"
    using d(1) by (simp_all add: HUNDRED_NS_PER_SEC_def pos_imp_zdiv_nonneg_iff)
  let ?n = "nat (d mod HUNDRED_NS_PER_SEC * NS_PER_HUNDRED_NS)"
  have n: "int ?n = d mod HUNDRED_NS_PER_SEC * NS_PER_HUNDRED_NS"
    using m(1) by (simp add: NS_PER_HUNDRED_NS_def)
  then have lt: "?n < NANOS_PER_SEC"
    using m(2) by (simp add: NANOS_PER_SEC_def HUNDRED_NS_PER_SEC_def NS_PER_HUNDRED_NS_def)
  have "sint ft \<noteq> 0" using False by (simp add: EPOCH_DIFFERENCE_100NS_def)
  then have t: "filetime_to_systemtime ft = Some (d div HUNDRED_NS_PER_SEC, ?n)"
    using d m(3) lt by (simp add: filetime_to_systemtime_def Let_def duration_new_def)
  have "EPOCH_DIFFERENCE_100NS + d div HUNDRED_NS_PER_SEC * HUNDRED_NS_PER_SEC + int ?n div NS_PER_HUNDRED_NS =
      EPOCH_DIFFERENCE_100NS + d"
    unfolding n using div_mult_mod_eq [of d HUNDRED_NS_PER_SEC] by (simp add: NS_PER_HUNDRED_NS_def)
  then have "system_time_ticks (d div HUNDRED_NS_PER_SEC, ?n) = sint ft"
    by (simp add: system_time_ticks_def d_def)
  with t m(3) lt False show ?thesis by simp
qed

lemma windows_entry_results_names:
  assumes "\<not> ra_follow_links args" and "0 < ra_contents_depth args"
  shows "map (map_sum id de_file_name) (windows_entry_results ops dflt args es) =
         map (Inr \<circ> di_file_name) (filter (\<lambda>e. \<not> hidden_info args e) es)"
proof (induction es)
  case Nil
  then show ?case by (simp add: windows_entry_results_def List.map_filter_def)
next
  case (Cons info es)
  obtain e where e: "make_dir_entry ops dflt info (ra_contents_depth args) (ra_path args) (ra_read_metadata args)
      (ra_read_metadata_ext args) (ra_read_hardlink_info args) (ra_ancestors args) = Inr e"
    and d: "de_depth e = ra_contents_depth args" "de_file_name e = di_file_name info"
    using make_dir_entry_Inr [of ops dflt info "ra_contents_depth args" "ra_path args" "ra_read_metadata args"
        "ra_read_metadata_ext args" "ra_read_hardlink_info args" "ra_ancestors args"] by auto
  have "process_dir_entry_result_on (wo_platform ops) (wo_fs ops) dflt (Inr e) (ra_follow_links args) = Inr e"
    using process_no_follow [of e] assms d(1) by simp
  then have "windows_entry_results ops dflt args (info # es) =
      (if hidden_info args info then [] else [Inr e]) @ windows_entry_results ops dflt args es"
    using e by (simp add: windows_entry_results_def List.map_filter_def hidden_info_def)
  with Cons d(2) show ?case by simp
qed

text \<open>The names that the result lists, whatever counting hard links does to the records.\<close>

lemma windows_read_dir_names:
  assumes "\<not> ra_follow_links args" and "0 < ra_contents_depth args" and "ra_process_read_dir args = None"
  shows "mset (map (map_sum id de_file_name) (results_list (windows_read_dir ops dflt args h L n))) =
           mset (map (Inr \<circ> di_file_name) (filter (\<lambda>e. \<not> hidden_info args e) L)) \<and>
         (\<not> ra_sort args \<longrightarrow>
           map (map_sum id de_file_name) (results_list (windows_read_dir ops dflt args h L n)) =
           map (Inr \<circ> di_file_name) (filter (\<lambda>e. \<not> hidden_info args e) L))"
proof -
  let ?es = "fill_hardlink_info ops args h L"
  let ?keep = "\<lambda>es. map (Inr \<circ> di_file_name) (filter (\<lambda>e. \<not> hidden_info args e) es)"
  have eq: "?keep es = map (Inr \<circ> fst) (filter (\<lambda>(n, a). \<not> (ra_skip_hidden args \<and> is_hidden_win32 n a)) (map di_key es))" for es
    by (simp add: filter_map di_key_def comp_def hidden_info_def)
  have keep: "?keep ?es = ?keep L" unfolding eq fill_hardlink_info_keeps ..
  let ?rs = "windows_entry_results ops dflt args ?es"
  have rs: "map (map_sum id de_file_name) ?rs = ?keep L"
    using windows_entry_results_names [OF assms(1,2), of ops dflt ?es] keep by simp
  let ?rd = "windows_read_dir ops dflt args h L n"
  have rd: "results_list ?rd = (if ra_sort args then sort_dir_entries_by_name ?rs else ?rs)"
    using assms(3) by (simp add: windows_read_dir_def finish_results_def read_dir_new_def Let_def)
  have "mset (results_list ?rd) = mset ?rs" by (simp add: rd sort_dir_entries_by_name_def)
  then have "mset (map (map_sum id de_file_name) (results_list ?rd)) = mset (?keep L)"
    using rs by (metis mset_map)
  then show ?thesis using rs by (simp add: rd)
qed

text \<open>
  C21. Reading a directory on Windows without client callback and followed links, with or without a
  streaming context, whatever its queue does: the result lists every record of the system but \<open>.\<close>, \<open>..\<close>
  and, when hidden files are skipped, the ones hidden by name or by attribute, each as an entry and never
  as an error, in the order of the system (up to sorting). Neither counting hard links nor streaming
  changes the list. What is streamed is one call of the closure for each record with the directory
  attribute, in order, when there is a context and no sorting, and nothing otherwise; the result carries
  the number of scheduled subdirectories.
\<close>

theorem windows_read_lists_records:
  assumes "open_dir_handle (wo_nt ops) (ra_path args) (ws_system s) = (Inr h, w1)"
    and "nt_serves (wo_nt ops) h True w1 chunks STATUS_NO_MORE_FILES"
    and "\<not> ra_follow_links args" and "0 < ra_contents_depth args" and "ra_process_read_dir args = None"
  shows "\<exists>rd s' q'. read_dir_windows ops dflt args ctx s q = Some (Inr rd, s', q') \<and>
           mset (map (map_sum id de_file_name) (results_list rd)) =
             mset (map (Inr \<circ> di_file_name) (filter (\<lambda>e. \<not> hidden_info args e) (nt_listed (concat chunks)))) \<and>
           (\<not> ra_sort args \<longrightarrow> map (map_sum id de_file_name) (results_list rd) =
             map (Inr \<circ> di_file_name) (filter (\<lambda>e. \<not> hidden_info args e) (nt_listed (concat chunks)))) \<and>
           (streamed_child_count rd, q') =
             (case ctx of
                Some c \<Rightarrow> if ra_sort args then (0, q)
                  else fold (stream_subdir_windows ops args c) (filter is_subdir (nt_listed (concat chunks))) (0, q)
              | None \<Rightarrow> (0, q))"
proof -
  let ?L = "nt_listed (concat chunks)"
  let ?st = "nt_streamed_by ops args ctx ?L q"
  let ?rd = "windows_read_dir ops dflt args h ?L (fst ?st)"
  obtain s' where s': "read_dir_windows ops dflt args ctx s q = Some (Inr ?rd, s', snd ?st)"
    using nt_reads [OF assms(1,2), of dflt ctx q] by blast
  have "streamed_child_count ?rd = fst ?st" by (subst windows_read_dir_streamed) simp
  then show ?thesis
    using windows_read_dir_names [OF assms(3-5), of ops dflt h ?L "fst ?st"] assms(5)
    by (intro exI [of _ ?rd] exI [of _ s'] exI [of _ "snd ?st"]) (simp add: s' nt_streamed_by_def split: option.split)
qed

theorem windows_read_lists_records_witness:
  "\<exists>rd s' q'. read_dir_windows (example_win (\<lambda>p. Some nt_chunks)) () win_args
       (Some (recording_context (index_path_new []) 0)) example_win_state [] = Some (Inr rd, s', q') \<and>
     map (map_sum id de_file_name) (results_list rd) = [Inr [97], Inr [98, 0xED, 0xA0, 0x80]] \<and>
     streamed_child_count rd = 1 \<and> map (spec_path \<circ> w_value) q' = [[114, 92, 97]]"
proof -
  let ?ops = "example_win (\<lambda>p. Some nt_chunks)"
  have o: "open_dir_handle (wo_nt ?ops) (ra_path win_args) (ws_system example_win_state) = (Inr 3, nt_chunks)"
    using nt_tree_open(1) [of "\<lambda>p. Some nt_chunks"] by (simp add: example_win_def)
  have "nt_well_formed nt_chunks" by code_simp
  then have sv: "nt_serves (wo_nt ?ops) 3 True nt_chunks nt_chunks STATUS_NO_MORE_FILES"
    using nt_tree_serves [of nt_chunks] by (simp add: example_win_def)
  have args: "\<not> ra_follow_links win_args" "0 < ra_contents_depth win_args"
    "ra_process_read_dir win_args = None" "\<not> ra_sort win_args" by (simp_all add: win_args_def)
  have "map di_file_name (filter (\<lambda>e. \<not> hidden_info win_args e) (nt_listed (concat nt_chunks))) =
      [[97], [98, 0xED, 0xA0, 0x80]]"
    by code_simp
  then have names: "map (Inr \<circ> di_file_name) (filter (\<lambda>e. \<not> hidden_info win_args e) (nt_listed (concat nt_chunks))) =
      [Inr [97], Inr [98, 0xED, 0xA0, 0x80]]"
    by (simp flip: map_map)
  have dirs: "map di_file_name (visible_subdirs win_args (nt_listed (concat nt_chunks))) = [[97]]" by code_simp
  then have n: "length (visible_subdirs win_args (nt_listed (concat nt_chunks))) = 1"
    using length_map [of di_file_name "visible_subdirs win_args (nt_listed (concat nt_chunks))"] by simp
  have paths: "map (spec_path \<circ> info_spec ?ops win_args) (visible_subdirs win_args (nt_listed (concat nt_chunks))) =
      [[114, 92, 97]]"
    using arg_cong [OF dirs, of "map (\<lambda>n. [114, 92] @ n)"]
    by (simp add: comp_def info_spec_def example_win_def example_platform_def win_args_def)
  from windows_read_lists_records
    [OF o sv args(1-3), of "()" "Some (recording_context (index_path_new []) 0)" "[]"] args(4)
  show ?thesis
    unfolding names using n paths
    by (auto simp: fold_stream_subdir_windows visible_subdirs_of_subdirs simp flip: map_map)
qed

end
