(* ===== verification/Walk_Windows.thy ===== *)
theory Walk_Windows
  imports Core_Callback Read_Dir_Windows
begin

text \<open>
  The closure of a walk on Windows: \<open>read_dir_windows\<close> keeps the contract \<open>dir_reader\<close> of the closure on
  a file system that does not change and has no directories that are reparse points. With reparse
  points the contract fails, with and without followed links.
\<close>

abbreviation windows_serial :: "'w win_ops \<Rightarrow> 'd \<Rightarrow> ('p, 'd, 'r) walk_dir_options \<Rightarrow> 'w win_state \<Rightarrow>
    ('d, 'r) read_dir_callback" where
  "windows_serial ops dflt \<equiv> serial_closure Windows (wo_fs ops) (read_dir_windows ops dflt)"

abbreviation windows_streaming :: "'w win_ops \<Rightarrow> 'd \<Rightarrow> ('p, 'd, 'r) walk_dir_options \<Rightarrow> 'w win_state \<Rightarrow>
    ('d, 'r) par_callback" where
  "windows_streaming ops dflt \<equiv> streaming_closure Windows (wo_fs ops) (read_dir_windows ops dflt)"

section \<open>The contract of the closure\<close>

lemma windows_entry_results_depth:
  assumes "Inr e \<in> set (windows_entry_results ops dflt args es)"
  shows "de_depth e = ra_contents_depth args"
proof -
  from assms obtain info where "(case make_dir_entry ops dflt info (ra_contents_depth args) (ra_path args)
        (ra_read_metadata args) (ra_read_metadata_ext args) (ra_read_hardlink_info args) (ra_ancestors args) of
          Inr e \<Rightarrow> Some (process_dir_entry_result_on (wo_platform ops) (wo_fs ops) dflt (Inr e) (ra_follow_links args))
        | Inl err \<Rightarrow> Some (Inl err)) = Some (Inr e)"
    by (auto simp: windows_entry_results_def List.map_filter_def split: if_splits)
  moreover obtain x where "make_dir_entry ops dflt info (ra_contents_depth args) (ra_path args)
      (ra_read_metadata args) (ra_read_metadata_ext args) (ra_read_hardlink_info args) (ra_ancestors args) = Inr x"
    "de_depth x = ra_contents_depth args"
    using make_dir_entry_Inr [of ops dflt info "ra_contents_depth args" "ra_path args" "ra_read_metadata args"
        "ra_read_metadata_ext args" "ra_read_hardlink_info args" "ra_ancestors args"] by auto
  ultimately show ?thesis
    using process_keeps_depth [of "wo_platform ops" "wo_fs ops" dflt x "ra_follow_links args" e] by simp
qed

lemma read_dir_windows_depth:
  assumes "read_dir_windows ops dflt args ctx s q = Some (Inr rd, s', q')"
    and "ra_process_read_dir args = None" and "Inr e \<in> set (results_list rd)"
  shows "de_depth e = ra_contents_depth args"
proof -
  have "de_depth e = ra_contents_depth args" if "Inr e \<in> set (results_list (windows_read_dir ops dflt args h es n))"
    for h es n
    using that assms(2) windows_entry_results_depth
    by (fastforce simp: windows_read_dir_def finish_results_def sort_dir_entries_by_name_def read_dir_new_def
        Let_def split: if_splits)
  with assms show ?thesis
    unfolding read_dir_windows_def Let_def
    by (auto simp: read_dir_new_def split: option.splits prod.splits sum.splits if_splits)
qed

text \<open>
  A file system that does not change while it is walked: in the given state, every directory can be
  listed to its end and holds no directory that is a reparse point, or cannot be opened for good.
\<close>

definition stable_nt :: "'w win_ops \<Rightarrow> 'w win_state \<Rightarrow> bool" where
  "stable_nt ops s \<longleftrightarrow>
     (\<forall>p. case open_dir_handle (wo_nt ops) p (ws_system s) of
        (Inl err, w) \<Rightarrow> \<not> is_transient_io_error Windows err
      | (Inr h, w) \<Rightarrow> \<exists>chunks. nt_serves (wo_nt ops) h True w chunks STATUS_NO_MORE_FILES \<and>
          plain_infos (nt_listed (concat chunks)))"

lemma stable_nt_cases:
  assumes "stable_nt ops s"
  obtains (Refused) err w where "open_dir_handle (wo_nt ops) p (ws_system s) = (Inl err, w)"
      "\<not> is_transient_io_error Windows err"
  | (Listed) h w chunks where "open_dir_handle (wo_nt ops) p (ws_system s) = (Inr h, w)"
      "nt_serves (wo_nt ops) h True w chunks STATUS_NO_MORE_FILES" "plain_infos (nt_listed (concat chunks))"
proof -
  obtain r w where o: "open_dir_handle (wo_nt ops) p (ws_system s) = (r, w)" by fastforce
  with assms [unfolded stable_nt_def, THEN spec, of p] show thesis
    using Refused Listed by (cases r) auto
qed

lemma windows_reads_well:
  assumes "stable_nt ops s" and "0 < ra_contents_depth args"
    and "ra_sort args \<or> ra_process_read_dir args \<noteq> None \<or> \<not> ra_follow_links args"
  shows "reads_well Windows (read_dir_windows ops dflt) args s"
  using assms(1)
proof (cases rule: stable_nt_cases [where p = "ra_path args"])
  case (Refused err w)
  show ?thesis
  proof (rule reads_well_refusedI)
    show "\<not> is_transient_error Windows (error_from_path 0 (ra_path args) err)"
      using Refused(2) by (simp add: is_transient_error_def error_from_path_def)
  qed (rule nt_open_error [OF Refused(1)])
next
  case (Listed h w chunks)
  let ?rd = "windows_read_dir ops dflt args h (nt_listed (concat chunks)) 0"
  show ?thesis
  proof (rule reads_well_listedI)
    show "streamed_child_count ?rd = 0"
      by (simp add: windows_read_dir_def Let_def case_prod_unfold read_dir_new_def)
    show "\<exists>s'. read_dir_windows ops dflt args ctx s q = Some (Inr ?rd, s', q)"
      if "ctx = None \<or> ra_sort args \<or> ra_process_read_dir args \<noteq> None" for ctx q
      using nt_collects [OF Listed(1,2) that] .
    show "\<exists>s'. read_dir_windows ops dflt args (Some (recording_context p v)) s [] =
        Some (Inr (?rd\<lparr>streamed_child_count := length (read_children_specs ?rd)\<rparr>), s',
          streamed_list p v 0 (read_children_specs ?rd))"
      if "\<not> ra_sort args" "ra_process_read_dir args = None" for p v
      using nt_streaming [OF Listed _ assms(2) that refl] assms(3) that by simp
  qed
qed

interpretation windows: dir_reader Windows "wo_fs ops" "read_dir_windows ops dflt" "stable_nt ops" for ops dflt
  by (rule dir_reader.intro) (fact read_dir_windows_depth, rule windows_reads_well)

section \<open>The Windows system of the witnesses\<close>

lemma example_win_open:
  obtains (err) "open_dir_handle (wo_nt (example_win dirs)) p (ws_system example_win_state) =
      (Inl (OsError 2 OtherKind), [])" "dirs (from_wide (encode_wide p)) = None"
  | (ok) chunks where "open_dir_handle (wo_nt (example_win dirs)) p (ws_system example_win_state) = (Inr 3, chunks)"
      "dirs (from_wide (encode_wide p)) = Some chunks"
proof (cases "dirs (from_wide (encode_wide p))")
  case None
  with nt_tree_open(2) [of dirs p "[]"] show thesis
    by (intro err) (simp_all add: example_win_def example_win_state_def)
next
  case (Some chunks)
  with nt_tree_open(1) [of dirs p chunks] show thesis by (intro ok) (simp_all add: example_win_def)
qed

lemma not_found_not_transient: "\<not> is_transient_io_error Windows (OsError 2 OtherKind)"
  by code_simp

lemma example_win_serves:
  "nt_well_formed chunks \<Longrightarrow> nt_serves (wo_nt (example_win dirs)) 3 True chunks chunks STATUS_NO_MORE_FILES"
  using nt_tree_serves by (simp add: example_win_def)

lemma example_win_stable:
  assumes "\<And>p chunks. dirs p = Some chunks \<Longrightarrow> nt_well_formed chunks \<and> plain_infos (nt_listed (concat chunks))"
  shows "stable_nt (example_win dirs) example_win_state"
  unfolding stable_nt_def
proof
  fix p
  show "case open_dir_handle (wo_nt (example_win dirs)) p (ws_system example_win_state) of
      (Inl err, w) \<Rightarrow> \<not> is_transient_io_error Windows err
    | (Inr h, w) \<Rightarrow> \<exists>chunks. nt_serves (wo_nt (example_win dirs)) h True w chunks STATUS_NO_MORE_FILES \<and>
        plain_infos (nt_listed (concat chunks))"
  proof (cases rule: example_win_open [of dirs p])
    case err
    then show ?thesis by (simp add: not_found_not_transient)
  next
    case (ok chunks)
    then show ?thesis using assms [OF ok(2)] example_win_serves [of chunks dirs] by auto
  qed
qed

text \<open>The streaming closure over such a system, without the buffers of the enumeration.\<close>

definition nt_closure :: "(path \<Rightarrow> nt_record list list option) \<Rightarrow> 'd \<Rightarrow> ('p, 'd, 'r) walk_dir_options \<Rightarrow>
    ('d, 'r) par_callback" where
  "nt_closure dirs dflt opts spec =
     (if opt_max_depth opts < usize_saturating_add (spec_depth spec) 1
      then ([], \<lambda>n. Inr ((read_dir_new (spec_client_read_state spec) [])\<lparr>streamed_child_count := n\<rparr>))
      else case dirs (from_wide (encode_wide (spec_path spec))) of
        None \<Rightarrow> ([], \<lambda>n. Inl (error_from_path 0 (spec_path spec) (OsError 2 OtherKind)))
      | Some chunks \<Rightarrow>
          let args = callback_args Windows example_fs opts spec;
              rd = windows_read_dir (example_win dirs) dflt args 3 (nt_listed (concat chunks)) 0
          in (map (info_spec (example_win dirs) args) (visible_subdirs args (nt_listed (concat chunks))),
              \<lambda>n. Inr (rd\<lparr>streamed_child_count := n\<rparr>)))"

lemma windows_streaming_listed:
  fixes opts :: "('p, 'd, 'r) walk_dir_options"
  assumes wf: "\<And>p chunks. dirs p = Some chunks \<Longrightarrow> nt_well_formed chunks"
    and "\<not> opt_sort opts" and "opt_process_read_dir opts = None"
  shows "windows_streaming (example_win dirs) dflt opts example_win_state = nt_closure dirs dflt opts"
proof
  fix spec :: "'r read_dir_spec"
  let ?ops = "example_win dirs"
  let ?args = "callback_args Windows (wo_fs ?ops) opts spec"
  have fs: "wo_fs ?ops = example_fs" by (simp add: example_win_def)
  show "windows_streaming ?ops dflt opts example_win_state spec = nt_closure dirs dflt opts spec"
  proof (cases "opt_max_depth opts < usize_saturating_add (spec_depth spec) 1")
    case True
    then show ?thesis using closures_beyond(2) [OF True] by (simp add: nt_closure_def)
  next
    case False
    then have le: "usize_saturating_add (spec_depth spec) 1 \<le> opt_max_depth opts" by simp
    show ?thesis
    proof (cases rule: example_win_open [of dirs "spec_path spec"])
      case err
      let ?err = "error_from_path 0 (spec_path spec) (OsError 2 OtherKind)"
      have ex: "\<exists>s'. read_dir_windows ?ops dflt ?args (Some (recording_context (index_path_new []) 0))
          example_win_state [] = Some (Inl ?err, s', [])"
        using nt_open_error [of ?ops ?args example_win_state "OsError 2 OtherKind" "[]"] err(1) by simp
      have "\<not> is_transient_error Windows ?err"
        using not_found_not_transient by (simp add: is_transient_error_def error_from_path_def)
      then have "windows_streaming ?ops dflt opts example_win_state spec = ([], \<lambda>n. Inl ?err)"
        using streaming_closure_first [where read = "read_dir_windows ?ops dflt", OF le ex] by simp
      with err le show ?thesis by (simp add: nt_closure_def)
    next
      case (ok chunks)
      have o: "open_dir_handle (wo_nt ?ops) (ra_path ?args) (ws_system example_win_state) = (Inr 3, chunks)"
        using ok(1) by simp
      have ns: "\<not> ra_sort ?args" "ra_process_read_dir ?args = None" using assms(2,3) by simp_all
      note ex = nt_streams_visible [OF o example_win_serves [OF wf [OF ok(2)]] ns refl refl, of dflt "index_path_new []" 0]
      show ?thesis
        using streaming_closure_first [where read = "read_dir_windows ?ops dflt", OF le ex] ok le fs
        by (simp add: nt_closure_def Let_def)
    qed
  qed
qed

section \<open>Reparse points\<close>

text \<open>
  The entries of a listing, links not followed, whatever the attributes: one descends exactly when its
  record is a visible directory that is no reparse point.
\<close>

definition plain_subdir :: "dir_entry_info \<Rightarrow> bool" where
  "plain_subdir info \<longleftrightarrow> is_subdir info \<and> di_file_attributes info AND FILE_ATTRIBUTE_REPARSE_POINT = 0"

lemma windows_entry_of_info:
  assumes "\<not> ra_follow_links args" and "0 < ra_contents_depth args" and "\<not> hidden_info args info"
  shows "\<exists>e. windows_entry_results ops dflt args [info] = [Inr e] \<and> de_file_name e = di_file_name info \<and>
           (de_read_children_path e \<noteq> None \<longleftrightarrow> plain_subdir info)"
proof -
  obtain e where e: "make_dir_entry ops dflt info (ra_contents_depth args) (ra_path args) (ra_read_metadata args)
      (ra_read_metadata_ext args) (ra_read_hardlink_info args) (ra_ancestors args) = Inr e"
    and d: "de_depth e = ra_contents_depth args" "de_file_name e = di_file_name info"
    and c: "de_read_children_path e = (if ft_is_dir (file_type_from_attrs (di_file_attributes info))
       then Some (pl_join (wo_platform ops) (ra_path args) (di_file_name info)) else None)"
    using make_dir_entry_Inr [of ops dflt info "ra_contents_depth args" "ra_path args" "ra_read_metadata args"
        "ra_read_metadata_ext args" "ra_read_hardlink_info args" "ra_ancestors args"] by auto
  have "process_dir_entry_result_on (wo_platform ops) (wo_fs ops) dflt (Inr e) (ra_follow_links args) = Inr e"
    using process_no_follow [of e] assms(1,2) d(1) by simp
  then have "windows_entry_results ops dflt args [info] = [Inr e]"
    using e assms(3) by (simp add: windows_entry_results_def List.map_filter_def hidden_info_def)
  moreover have "de_read_children_path e \<noteq> None \<longleftrightarrow> plain_subdir info"
    using c by (auto simp: plain_subdir_def is_subdir_def file_type_from_attrs_def)
  ultimately show ?thesis using d(2) by blast
qed

lemma windows_entry_results_Cons:
  "windows_entry_results ops dflt args (info # es) =
   windows_entry_results ops dflt args [info] @ windows_entry_results ops dflt args es"
  by (simp add: windows_entry_results_def List.map_filter_def split: option.split)

lemma windows_children_count:
  assumes "\<not> ra_follow_links args" and "0 < ra_contents_depth args"
  shows "length (List.map_filter (child_spec st) (windows_entry_results ops dflt args es)) =
         length (filter plain_subdir (visible_subdirs args es))"
proof (induction es)
  case (Cons info es)
  show ?case
  proof (cases "hidden_info args info")
    case True
    then have "windows_entry_results ops dflt args [info] = []"
      by (simp add: windows_entry_results_def List.map_filter_def hidden_info_def)
    with True Cons.IH show ?thesis by (subst windows_entry_results_Cons) (simp add: visible_subdirs_def)
  next
    case False
    with windows_entry_of_info [OF assms, of info ops dflt] obtain e
      where e: "windows_entry_results ops dflt args [info] = [Inr e]"
      and c: "de_read_children_path e \<noteq> None \<longleftrightarrow> plain_subdir info" by blast
    have "length (List.map_filter (child_spec st) [Inr e]) = (if plain_subdir info then 1 else 0)"
      using c by (auto simp: List.map_filter_simps child_spec_def read_children_spec_def)
    with Cons.IH have "length (List.map_filter (child_spec st) (windows_entry_results ops dflt args (info # es))) =
        (if plain_subdir info then 1 else 0) + length (filter plain_subdir (visible_subdirs args es))"
      by (simp only: windows_entry_results_Cons [of ops dflt args info es] map_filter_append e length_append)
    with False show ?thesis by (simp add: visible_subdirs_def plain_subdir_def)
  qed
qed (simp add: windows_entry_results_def List.map_filter_def visible_subdirs_def)

lemma visible_plain_keys:
  assumes "map di_key es = map di_key es'"
  shows "length (filter plain_subdir (visible_subdirs args es)) = length (filter plain_subdir (visible_subdirs args es'))"
proof -
  have count: "length (filter plain_subdir (visible_subdirs args xs)) =
      length (filter (\<lambda>(n, a). a AND FILE_ATTRIBUTE_DIRECTORY \<noteq> 0 \<and> a AND FILE_ATTRIBUTE_REPARSE_POINT = 0 \<and>
        \<not> (ra_skip_hidden args \<and> is_hidden_win32 n a)) (map di_key xs))" for xs
    by (simp add: filter_map visible_subdirs_def di_key_def comp_def plain_subdir_def is_subdir_def hidden_info_def
        conj_ac)
  show ?thesis unfolding count assms ..
qed

lemma windows_read_dir_reparse:
  assumes "\<not> ra_follow_links args" and "0 < ra_contents_depth args"
    and "\<not> ra_sort args" and "ra_process_read_dir args = None"
    and "info \<in> set L" and "\<not> hidden_info args info" and "\<not> plain_subdir info"
  shows "\<exists>e. Inr e \<in> set (results_list (windows_read_dir ops dflt args h L n)) \<and>
           de_file_name e = di_file_name info \<and> de_read_children_path e = None"
    and "length (read_children_specs (windows_read_dir ops dflt args h L n)) =
           length (filter plain_subdir (visible_subdirs args L))"
proof -
  let ?es = "fill_hardlink_info ops args h L"
  note keys = fill_hardlink_info_keeps [of ops args h L]
  have rs: "results_list (windows_read_dir ops dflt args h L n) = windows_entry_results ops dflt args ?es"
    using assms(3,4) by (simp add: windows_read_dir_def finish_results_def read_dir_new_def Let_def)
  have kids: "read_children_specs (windows_read_dir ops dflt args h L n) =
      List.map_filter (child_spec (ra_client_read_state args)) (windows_entry_results ops dflt args ?es)"
    using assms(3,4) by (simp add: windows_read_dir_def finish_results_def Let_def)
  show "length (read_children_specs (windows_read_dir ops dflt args h L n)) =
      length (filter plain_subdir (visible_subdirs args L))"
    unfolding kids windows_children_count [OF assms(1,2)] using keys by (rule visible_plain_keys)
  have "di_key info \<in> set (map di_key ?es)" using assms(5) unfolding keys by simp
  then obtain i where i: "i \<in> set ?es" "di_file_name i = di_file_name info"
      "di_file_attributes i = di_file_attributes info"
    by (auto simp: di_key_def)
  then have "\<not> hidden_info args i" "\<not> plain_subdir i"
    using assms(6,7) by (simp_all add: hidden_info_def plain_subdir_def is_subdir_def)
  then obtain e where e: "windows_entry_results ops dflt args [i] = [Inr e]" "de_file_name e = di_file_name info"
      "de_read_children_path e = None"
    using windows_entry_of_info [OF assms(1,2), of i ops dflt] i(2) by auto
  obtain us vs where "?es = us @ i # vs" using i(1) by (metis split_list)
  then have "Inr e \<in> set (windows_entry_results ops dflt args ?es)"
    using e(1) windows_entry_results_Cons [of ops dflt args i vs]
    by (simp add: windows_entry_results_def List.map_filter_def)
  with e show "\<exists>e. Inr e \<in> set (results_list (windows_read_dir ops dflt args h L n)) \<and>
      de_file_name e = di_file_name info \<and> de_read_children_path e = None"
    unfolding rs by blast
qed

section \<open>Properties\<close>

text \<open>
  C39. With a directory that is a reparse point (a junction or a directory link) the streaming contract
  fails even though links are not followed: while the directory is enumerated the record is scheduled
  because of its attribute, but its entry is a link and has no listing in the result, so more
  directories are scheduled than the result has children. Stated for any listing, any record with both
  attributes that is not skipped as hidden, and any options without followed links, sorting and client
  callback.
\<close>

theorem windows_streaming_schedules_junctions:
  fixes ops :: "'w win_ops" and opts :: "('p, 'd, 'r) walk_dir_options" and spec :: "'r read_dir_spec"
    and dflt :: 'd and s :: "'w win_state"
  defines "args \<equiv> callback_args Windows (wo_fs ops) opts spec :: ('d, 'r) read_args"
    and "cb \<equiv> windows_streaming ops dflt opts s"
  assumes "open_dir_handle (wo_nt ops) (spec_path spec) (ws_system s) = (Inr h, w)"
    and "nt_serves (wo_nt ops) h True w chunks STATUS_NO_MORE_FILES"
    and "usize_saturating_add (spec_depth spec) 1 \<le> opt_max_depth opts"
    and "\<not> opt_follow_links opts" and "\<not> opt_sort opts" and "opt_process_read_dir opts = None"
    and "info \<in> set (nt_listed (concat chunks))" and "\<not> hidden_info args info"
    and "di_file_attributes info AND FILE_ATTRIBUTE_DIRECTORY \<noteq> 0"
    and "di_file_attributes info AND FILE_ATTRIBUTE_REPARSE_POINT \<noteq> 0"
  shows "pl_join (wo_platform ops) (spec_path spec) (di_file_name info) \<in> spec_path ` set (fst (cb spec)) \<and>
         (\<exists>rd e. full_result cb spec = Inr rd \<and> Inr e \<in> set (results_list rd) \<and>
            de_file_name e = di_file_name info \<and> de_read_children_path e = None) \<and>
         length (result_children (full_result cb spec)) < length (fst (cb spec)) \<and>
         \<not> streams_ok cb"
proof -
  let ?L = "nt_listed (concat chunks)"
  let ?vis = "visible_subdirs args ?L"
  let ?rd = "windows_read_dir ops dflt args h ?L 0"
  have sel: "ra_path args = spec_path spec" "\<not> ra_follow_links args" "\<not> ra_sort args"
    "ra_process_read_dir args = None" "0 < ra_contents_depth args"
    using assms(6-8) by (simp_all add: args_def usize_saturating_add_def usize_MAX_def)
  have o: "open_dir_handle (wo_nt ops) (ra_path args) (ws_system s) = (Inr h, w)" using assms(3) sel(1) by simp
  have no: "\<not> plain_subdir info" and vis: "info \<in> set ?vis"
    using assms(9-12) by (simp_all add: plain_subdir_def visible_subdirs_def is_subdir_def)
  note ex = nt_streams_visible [OF o assms(4) sel(3,4) refl refl, of dflt "index_path_new []" 0, unfolded args_def]
  have cb: "cb spec = (map (info_spec ops args) ?vis, \<lambda>n. Inr (?rd\<lparr>streamed_child_count := n\<rparr>))"
    using streaming_closure_first [where read = "read_dir_windows ops dflt", OF assms(5) ex, folded cb_def]
    by (simp flip: args_def)
  have full: "full_result cb spec = Inr (?rd\<lparr>streamed_child_count := length ?vis\<rparr>)"
    by (simp add: full_result_def cb)
  note rep = windows_read_dir_reparse [where ops = ops and dflt = dflt and h = h and n = 0,
      OF sel(2,5,3,4) assms(9,10) no]
  have "length (filter plain_subdir ?vis) < length ?vis" using vis no by (rule length_filter_less)
  then have less: "length (result_children (full_result cb spec)) < length (fst (cb spec))"
    using rep(2) by (simp add: cb full result_children_def)
  then have "\<not> streams_ok cb"
    unfolding streams_ok_def Let_def by (intro notI) (drule spec [of _ spec], auto)
  moreover have "pl_join (wo_platform ops) (spec_path spec) (di_file_name info) \<in> spec_path ` set (fst (cb spec))"
    using imageI [OF vis, of "spec_path \<circ> info_spec ops args"] by (simp add: cb info_spec_def sel(1) image_image)
  ultimately show ?thesis using less rep(1) by (auto simp: full)
qed

text \<open>A directory that holds the junction \<open>j\<close>: a directory by its attribute, a link by its type.\<close>

definition junction_chunks :: "nt_record list list" where
  "junction_chunks = [[example_record 0x10 [46], example_record 0x410 [106]]]"

definition windows_walk :: "(unit, unit, unit) walk_dir" where
  "windows_walk = set_parallelism (RayonNewPool 1) (walk_dir_new () [114])"

theorem windows_streaming_schedules_junctions_witness:
  "let cb = windows_streaming (example_win (\<lambda>p. Some junction_chunks)) () (wd_options windows_walk) example_win_state
   in [114, 92, 106] \<in> spec_path ` set (fst (cb (example_spec [114]))) \<and>
      length (result_children (full_result cb (example_spec [114]))) < length (fst (cb (example_spec [114])))"
proof -
  let ?ops = "example_win (\<lambda>p. Some junction_chunks)" and ?opts = "wd_options windows_walk"
  let ?spec = "example_spec [114]"
  let ?args = "callback_args Windows (wo_fs ?ops) ?opts ?spec :: (unit, unit) read_args"
  have o: "open_dir_handle (wo_nt ?ops) (spec_path ?spec) (ws_system example_win_state) = (Inr 3, junction_chunks)"
    using nt_tree_open(1) [of "\<lambda>p. Some junction_chunks"] by (simp add: example_win_def)
  have "nt_well_formed junction_chunks" by code_simp
  then have sv: "nt_serves (wo_nt ?ops) 3 True junction_chunks junction_chunks STATUS_NO_MORE_FILES"
    by (rule example_win_serves)
  have opts: "usize_saturating_add (spec_depth ?spec) 1 \<le> opt_max_depth ?opts" "\<not> opt_follow_links ?opts"
    "\<not> opt_sort ?opts" "opt_process_read_dir ?opts = None" "\<not> opt_skip_hidden ?opts" "spec_path ?spec = [114]"
    by (simp_all add: usize_saturating_add_def setter_defs windows_walk_def walk_dir_new_def example_spec_def)
  have facts: "map di_file_name (nt_listed (concat junction_chunks)) = [[106]]"
    "map di_file_attributes (nt_listed (concat junction_chunks)) = [0x410]" by code_simp+
  then obtain info where info: "nt_listed (concat junction_chunks) = [info]" "di_file_name info = [106]"
    "di_file_attributes info = 0x410" by (auto simp: map_eq_Cons_conv)
  have i: "info \<in> set (nt_listed (concat junction_chunks))" "\<not> hidden_info ?args info"
    using opts(5) by (simp_all add: info(1) hidden_info_def callback_args_def)
  have a: "di_file_attributes info AND FILE_ATTRIBUTE_DIRECTORY \<noteq> 0"
    "di_file_attributes info AND FILE_ATTRIBUTE_REPARSE_POINT \<noteq> 0"
    unfolding info(3) by code_simp+
  have j: "pl_join (wo_platform ?ops) [114] [106] = [114, 92, 106]" by (simp add: example_win_def example_platform_def)
  from windows_streaming_schedules_junctions [OF o sv opts(1-4) i a, of "()"] show ?thesis
    unfolding Let_def info(2) opts(6) j by blast
qed

end
