(* ===== verification/Par_Stop.thy ===== *)
theory Par_Stop
  imports Par_Walk
begin

text \<open>
  Stopping a parallel walk: \<open>Drop\<close> of \<open>DirEntryIter\<close> (\<open>core/dir_entry_iter.rs\<close>) and the busy timeout of
  \<open>ReadDirIter::try_new\<close> set the stop flag, and the workers of \<open>Par_Walk\<close> see it at their next step. They read no further
  directory and come to an end after a bounded number of steps; a worker that waits for room in the scheduling
  channel is not woken.
\<close>

section \<open>The stop flag\<close>

definition dir_entry_iter_drop :: "('d, 'r) par_state \<Rightarrow> ('d, 'r) par_state" where
  "dir_entry_iter_drop s = s\<lparr>ps_stop := True\<rparr>"

text \<open>A step that changes the state; setting the flag again does not.\<close>

definition par_moves :: "('d, 'r) par_callback \<Rightarrow> usize \<Rightarrow> ('d, 'r) par_state \<Rightarrow> ('d, 'r) par_state \<Rightarrow> bool" where
  "par_moves callback cap s s' \<longleftrightarrow> par_step callback cap s s' \<and> s' \<noteq> s"

section \<open>The work that is left\<close>

text \<open>
  How many steps a thread can take before it is gone, when the flag is set. A child costs two steps and puts one message
  into the channel; the result of a directory that is being enumerated depends on how many children get streamed.
\<close>

fun stop_weight :: "('d, 'r) pc \<Rightarrow> nat" where
  "stop_weight Exited = 0"
| "stop_weight IterStop = 1"
| "stop_weight Idle = 2"
| "stop_weight IterWait = 2"
| "stop_weight IterPending = 3"
| "stop_weight (Completing x) = 3"
| "stop_weight (Got x) = 4"
| "stop_weight IterDrain = 5"
| "stop_weight (Scheduling x cs counted) = 4 + 3 * length cs - of_bool counted"
| "stop_weight (SendResult x r) = 5 + 3 * length (regular_children r x)"
| "stop_weight (Streaming x ss n counted f) =
     6 + 3 * length ss - of_bool counted + 3 * (\<Sum>m \<leftarrow> [n..<Suc (n + length ss)]. length (regular_children (f m) x))"

definition stop_work :: "('d, 'r) par_state \<Rightarrow> nat" where
  "stop_work s = length (ps_chan s) + sum_list (map stop_weight (ps_pcs s))"

lemma stop_weight_0_iff [simp]: "stop_weight p = 0 \<longleftrightarrow> p = Exited"
  by (cases p) simp_all

lemma stop_work_move:
  assumes "at_pc s i p" and "ps_pcs s' = ps_pcs s"
    and "length (ps_chan s') + stop_weight q < length (ps_chan s) + stop_weight p"
  shows "stop_work (goto i q s') < stop_work s"
  using sum_pcs_move [OF assms(1,2), of stop_weight q] assms(3) by (simp add: stop_work_def)

lemma sum_upt_Cons: "(\<Sum>m \<leftarrow> [n..<Suc (Suc (n + k))]. f m) = (f n + (\<Sum>m \<leftarrow> [Suc n..<Suc (Suc n + k)]. f m) :: nat)"
  by (simp add: upt_conv_Cons del: upt_Suc)

lemma stream_weights:
  "stop_weight (Streaming x ss n False f) < stop_weight (Streaming x (c # ss) n False f)"
  "stop_weight (Streaming x (c # ss) n True f) < stop_weight (Streaming x (c # ss) n False f)"
  "Suc (stop_weight (Streaming x ss (Suc n) False f)) < stop_weight (Streaming x (c # ss) n True f)"
  "stop_weight (SendResult x (f n)) < stop_weight (Streaming x [] n False f)"
proof -
  show "stop_weight (Streaming x ss n False f) < stop_weight (Streaming x (c # ss) n False f)"
    by simp
  show "Suc (stop_weight (Streaming x ss (Suc n) False f)) < stop_weight (Streaming x (c # ss) n True f)"
    using sum_upt_Cons [of "\<lambda>m. length (regular_children (f m) x)" n "length ss"] by (simp del: upt_Suc)
qed simp_all

text \<open>Once the flag is set, every step uses up some of the work that is left.\<close>

lemma stopped_step:
  assumes "par_step callback cap s s'" and "ps_stop s"
  shows "s' = s \<or> stop_work s' < stop_work s"
  using assms
proof (induction rule: par_step.induct)
  case (drain s i x xs)
  then show ?case by (simp add: stop_work_def)
next
  case (stream_skip s i x c ss n f)
  show ?case by (rule disjI2, rule stop_work_move [OF stream_skip.hyps(1)]) (simp_all add: stream_weights(1))
next
  case (stream_send s i x c ss n f)
  show ?case
    by (rule disjI2, rule stop_work_move [OF stream_send.hyps(1)])
      (use stream_weights(3) [of x ss n f c] in \<open>simp_all del: stop_weight.simps\<close>)
next
  case (stream_end s i x n f)
  show ?case by (rule disjI2, rule stop_work_move [OF stream_end.hyps]) (simp_all add: stream_weights(4))
next
  case (client_stop s)
  then show ?case by simp
qed (simp_all add: stop_work_move)

lemma moves_Suc:
  assumes "(par_moves callback cap ^^ Suc n) s s'"
  obtains s1 where "(par_moves callback cap ^^ n) s s1" "par_step callback cap s1 s'" "s' \<noteq> s1"
  using assms relpowp_Suc_E by (metis par_moves_def)

lemma stopped_moves:
  "(par_moves callback cap ^^ n) s s' \<Longrightarrow> ps_stop s \<Longrightarrow> ps_stop s' \<and> stop_work s' + n \<le> stop_work s"
proof (induction n arbitrary: s')
  case (Suc n)
  from Suc.prems(1) obtain s1 where s1: "(par_moves callback cap ^^ n) s s1" "par_step callback cap s1 s'" "s' \<noteq> s1"
    by (rule moves_Suc)
  then show ?case
    using Suc.IH [OF s1(1) Suc.prems(2)] stopped_step [OF s1(2)] par_step_mono [OF s1(2)] by auto
qed simp

section \<open>No further directory is read\<close>

text \<open>The threads that have called the callback and not yet sent its result.\<close>

fun reading :: "('d, 'r) pc \<Rightarrow> nat" where
  "reading (Streaming x ss n counted f) = 1"
| "reading (SendResult x r) = 1"
| "reading _ = 0"

definition results_left :: "('d, 'r) par_state \<Rightarrow> nat" where
  "results_left s = length (ps_sent s) + sum_list (map reading (ps_pcs s))"

lemma results_left_move:
  assumes "at_pc s i p" and "ps_pcs s' = ps_pcs s"
    and "length (ps_sent s') + reading q \<le> length (ps_sent s) + reading p"
  shows "results_left (goto i q s') \<le> results_left s"
  using sum_pcs_move [OF assms(1,2), of reading q] assms(3) by (simp add: results_left_def)

lemma stopped_results:
  "par_step callback cap s s' \<Longrightarrow> ps_stop s \<Longrightarrow> results_left s' \<le> results_left s"
proof (induction rule: par_step.induct)
  case (drain s i x xs)
  then show ?case by (simp add: results_left_def)
next
  case (client_stop s)
  then show ?case by (simp add: results_left_def)
qed (simp_all add: results_left_move)

lemma stopped_moves_results:
  "(par_moves callback cap ^^ n) s s' \<Longrightarrow> ps_stop s \<Longrightarrow> results_left s' \<le> results_left s"
proof (induction n arbitrary: s')
  case (Suc n)
  from Suc.prems(1) obtain s1 where s1: "(par_moves callback cap ^^ n) s s1" "par_step callback cap s1 s'" "s' \<noteq> s1"
    by (rule moves_Suc)
  then show ?case
    using Suc.IH [OF s1(1) Suc.prems(2)] stopped_moves [OF s1(1) Suc.prems(2)] stopped_results [OF s1(2)] by simp
qed simp

lemma reading_le_threads: "sum_list (map reading ps) \<le> length ps"
proof (induction ps)
  case (Cons p ps)
  then show ?case by (cases p) simp_all
qed simp

section \<open>Where the workers come to an end\<close>

lemma thread_step_changes:
  assumes "thread_step callback cap i s = Some s'"
  shows "ps_pcs s' ! i \<noteq> ps_pcs s ! i \<or> length (ps_chan s') < length (ps_chan s)"
proof (cases "ps_pcs s ! i")
  case (Streaming x ss n counted f)
  then show ?thesis using assms by (cases ss) (auto simp: thread_step_def split: if_splits)
next
  case (Scheduling x cs counted)
  then show ?thesis using assms by (cases cs) (auto simp: thread_step_def split: if_splits)
qed (use assms in \<open>auto simp: thread_step_def split: if_splits list.splits option.splits prod.splits\<close>)

lemma thread_step_moves: "thread_step callback cap i s = Some s' \<Longrightarrow> par_moves callback cap s s'"
  using thread_step_sound [of callback cap i s s'] thread_step_changes [of callback cap i s s'] by (auto simp: par_moves_def)

text \<open>After a stop a thread can take its next step unless it is gone, or waits for the iterator or for room in the channel.\<close>

lemma stopped_enabled:
  assumes "at_pc s i p" and "ps_stop s" and "pc_wf p" and "p \<noteq> Exited" and "p \<noteq> Idle"
    and "pc_units p = 2 \<Longrightarrow> length (ps_chan s) < cap"
  shows "\<exists>s'. thread_step callback cap i s = Some s'"
proof (cases p)
  case (Streaming x ss n counted f)
  then show ?thesis using assms by (cases ss; cases counted) (auto simp: thread_step_def at_pc_def)
next
  case (Scheduling x cs counted)
  then show ?thesis using assms by (cases cs; cases counted) (auto simp: thread_step_def at_pc_def)
qed (use assms in \<open>auto simp: thread_step_def at_pc_def split: list.splits option.splits\<close>)

lemma idle_enabled:
  assumes "at_pc s i Idle" and "ps_stop s"
  shows "\<exists>j s'. thread_step callback cap j s = Some s'"
proof (cases "ps_done s \<or> \<not> list_ex holds_iterator (ps_pcs s)")
  case True
  then show ?thesis using assms by (intro exI [of _ i]) (auto simp: thread_step_def at_pc_def)
next
  case False
  then obtain j where j: "j < length (ps_pcs s)" "holds_iterator (ps_pcs s ! j)"
    by (auto simp: list_ex_iff in_set_conv_nth)
  then have "\<exists>s'. thread_step callback cap j s = Some s'"
    by (intro stopped_enabled [of s j "ps_pcs s ! j"]) (use assms in \<open>cases "ps_pcs s ! j"; simp add: at_pc_def\<close>)+
  then show ?thesis by blast
qed

lemma stopped_stuck:
  assumes "list_all pc_wf (ps_pcs s)" and "ps_stop s" and "\<nexists>s'. par_moves callback cap s s'" and "p \<in> set (ps_pcs s)"
  shows "p = Exited \<or> pc_units p = 2 \<and> cap \<le> length (ps_chan s)"
proof (rule ccontr)
  assume not: "\<not> ?thesis"
  obtain i where i: "at_pc s i p" using assms(4) by (auto simp: at_pc_def in_set_conv_nth)
  have "pc_wf p" using assms(1,4) by (auto simp: list_all_iff)
  then have "\<exists>j s'. thread_step callback cap j s = Some s'"
    using stopped_enabled [OF i assms(2), of cap callback] idle_enabled [of s i callback cap] i not assms(2)
    by (cases "p = Idle") auto
  then show False using assms(3) thread_step_moves by blast
qed

section \<open>Properties of a stopped walk\<close>

text \<open>
  C12. A stopped walk ends: when the iterator over the entries is dropped, in whatever state the workers are, they take at most
  \<open>stop_work\<close> more steps in every interleaving, and send no more results than there are workers, since no further directory
  is read. Where they can take no step any more, every worker is gone, or it waits for room in the full scheduling channel;
  with room in the channel for what is left to do, all are gone.
\<close>

theorem stopped_workers_finish:
  assumes "par_reachable callback cap (par_init k spec) s0" and "s = dir_entry_iter_drop s0"
    and "(par_moves callback cap ^^ n) s s'"
  shows "n \<le> stop_work s \<and> length (ps_sent s') \<le> length (ps_sent s) + k \<and>
    ((\<nexists>s''. par_moves callback cap s' s'') \<longrightarrow>
       (\<forall>p \<in> set (ps_pcs s'). p = Exited \<or> pc_units p = 2 \<and> cap \<le> length (ps_chan s')) \<and>
       (stop_work s \<le> cap \<longrightarrow> (\<forall>p \<in> set (ps_pcs s'). p = Exited)))"
proof -
  have stop: "ps_stop s" by (simp add: assms(2) dir_entry_iter_drop_def)
  have r: "par_reachable callback cap (par_init k spec) s"
    unfolding assms(2) dir_entry_iter_drop_def by (rule par_reachable.step [OF assms(1) client_stop])
  have "par_reachable callback cap s s1" if "(par_moves callback cap ^^ m) s s1" for m s1
    using that
  proof (induction m arbitrary: s1)
    case (Suc m)
    then show ?case by (metis moves_Suc par_reachable.step)
  qed (simp add: par_reachable.init)
  then have wf: "list_all pc_wf (ps_pcs s')" using r assms(3) reachable_wf reachable_trans by blast
  have len: "length (ps_pcs s) = k" using reachable_threads [OF r] by (simp add: par_init_def)
  note moves = stopped_moves [OF assms(3) stop] stopped_moves_results [OF assms(3) stop]
  have sent: "length (ps_sent s') \<le> length (ps_sent s) + k"
    using moves(2) reading_le_threads [of "ps_pcs s"] len by (simp add: results_left_def)
  have "length (ps_chan s') < stop_work s'" if "p \<in> set (ps_pcs s')" "pc_units p = 2" for p
  proof -
    have "0 < stop_weight p" using that(2) by (intro neq0_conv [THEN iffD1]) auto
    then show ?thesis using member_le_sum_list [of "stop_weight p" "map stop_weight (ps_pcs s')"] that(1)
      by (simp add: stop_work_def)
  qed
  with stopped_stuck [OF wf] moves(1) sent show ?thesis by fastforce
qed

text \<open>One of two workers is scheduling the subdirectories of the root when the iterator is dropped; both run to their end.\<close>

lemma par_run_moves:
  "par_run callback cap sched s = Some s' \<Longrightarrow> (par_moves callback cap ^^ length sched) s s'"
proof (induction sched arbitrary: s)
  case (Cons i sched)
  then show ?case by (auto simp: bind_eq_Some_conv simp del: relpowp.simps intro: relpowp_Suc_I2 thread_step_moves)
qed simp

definition running_pair :: "(unit, unit) par_state" where
  "running_pair = the (par_run streaming_callback 32 (replicate 8 0) (par_init 2 (example_spec [114])))"

definition dropped_run :: "(unit, unit) par_state" where
  "dropped_run = the (par_run streaming_callback 32 (replicate 7 0 @ [1]) (dir_entry_iter_drop running_pair))"

theorem stopped_workers_finish_witness:
  "stop_work (dir_entry_iter_drop running_pair) = 11 \<and> length (ps_sent dropped_run) \<le> 2 \<and>
   ps_pcs dropped_run = [Exited, Exited]"
proof -
  let ?s = "dir_entry_iter_drop running_pair"
  have work: "stop_work ?s = 11" "length (ps_sent ?s) = 0" by code_simp+
  have "par_reachable streaming_callback 32 (par_init 2 (example_spec [114])) running_pair"
    unfolding running_pair_def by (rule par_run_reachable_the) code_simp
  moreover have "\<not> Option.is_none (par_run streaming_callback 32 (replicate 7 0 @ [1]) ?s)" by code_simp
  then have "(par_moves streaming_callback 32 ^^ length (replicate 7 (0 :: nat) @ [1])) ?s dropped_run"
    by (intro par_run_moves) (auto simp: dropped_run_def Option.is_none_def)
  ultimately have "length (ps_sent dropped_run) \<le> length (ps_sent ?s) + 2"
    using stopped_workers_finish [of streaming_callback 32 2 "example_spec [114]" running_pair ?s _ dropped_run] by blast
  moreover have "map stop_weight (ps_pcs dropped_run) = [0, 0]" by code_simp
  then have "ps_pcs dropped_run = [Exited, Exited]" by (cases "ps_pcs dropped_run") auto
  ultimately show ?thesis using work by simp
qed

text \<open>The threads that are still idle when the iterator has ended leave one after the other.\<close>

lemma idle_threads_leave:
  assumes "ps_pcs s = p # replicate j Exited @ replicate m Idle" and "ps_done s"
  shows "par_reachable callback cap s (s\<lparr>ps_pcs := p # replicate (j + m) Exited\<rparr>)"
  using assms
proof (induction m arbitrary: s j)
  case 0
  then have "s\<lparr>ps_pcs := p # replicate (j + 0) Exited\<rparr> = s" by simp
  then show ?case by (simp add: par_reachable.init)
next
  case (Suc m)
  let ?s = "goto (Suc j) Exited s"
  have "at_pc s (Suc j) Idle" using Suc.prems(1) by (simp add: at_pc_def nth_append)
  then have step: "par_step callback cap s ?s" using Suc.prems(2) by (rule exhausted)
  have pcs: "ps_pcs ?s = p # replicate (Suc j) Exited @ replicate m Idle"
    using Suc.prems(1) replicate_append_same [of j "Exited :: ('a, 'b) pc"] by (simp add: list_update_append)
  have "par_reachable callback cap ?s (?s\<lparr>ps_pcs := p # replicate (Suc j + m) Exited\<rparr>)"
    using pcs Suc.prems(2) by (intro Suc.IH) simp_all
  moreover have "?s\<lparr>ps_pcs := p # replicate (Suc j + m) Exited\<rparr> = s\<lparr>ps_pcs := p # replicate (j + Suc m) Exited\<rparr>"
    by (simp add: goto_def)
  ultimately show ?case
    using step par_reachable.init par_reachable.step reachable_trans by metis
qed

text \<open>
  C37. A stop does not wake a worker that waits for room in the scheduling channel: with a root directory that has more
  subdirectories than the channel has room for (not streamed), a walk on any number of threads can be dropped at a moment
  from which on all other workers leave, and the worker that is scheduling is blocked for ever, although the walk was stopped.
\<close>

theorem stop_leaves_worker_blocked:
  assumes "callback spec = ([], f)" and "f 0 = Inr rd" and "streamed_child_count rd = 0"
    and "cap < length (read_children_specs rd)"
  shows "\<exists>s p. par_reachable callback cap (par_init (Suc (Suc k)) spec) s \<and> ps_stop s \<and>
    ps_pcs s = p # replicate (Suc k) Exited \<and> pc_units p = 2 \<and> Collect (par_step callback cap s) = {s}"
proof -
  obtain s0 x c cs where r0: "par_reachable callback cap (par_init (Suc (Suc k)) spec) s0"
    and s0: "\<not> ps_done s0" "length (ps_chan s0) = cap" "ps_pcs s0 = Scheduling x (c # cs) True # replicate (Suc k) Idle"
    using wide_directory_fills_channel [of callback spec f rd cap "Suc k"] assms by blast
  let ?p = "Scheduling x (c # cs) True"
  let ?s1 = "dir_entry_iter_drop s0" let ?s2 = "goto 1 IterStop ?s1"
  let ?s3 = "goto 1 Exited (?s2\<lparr>ps_done := True\<rparr>)"
  have s1: "ps_stop ?s1" "\<not> ps_done ?s1" "ps_pcs ?s1 = ps_pcs s0" "ps_chan ?s1 = ps_chan s0"
    using s0(1) by (simp_all add: dir_entry_iter_drop_def)
  have "par_step callback cap s0 ?s1" unfolding dir_entry_iter_drop_def by (rule client_stop)
  moreover have "par_step callback cap ?s1 ?s2"
    by (rule lock) (use s1 s0(3) in \<open>simp_all add: at_pc_def list_ex_iff\<close>)
  moreover have "par_step callback cap ?s2 ?s3"
    by (rule stop_set) (use s1 s0(3) in \<open>simp_all add: at_pc_def\<close>)
  ultimately have r3: "par_reachable callback cap (par_init (Suc (Suc k)) spec) ?s3"
    using r0 by (meson par_reachable.step)
  have "ps_pcs ?s3 = ?p # replicate 1 Exited @ replicate k Idle" using s1(3) s0(3) by simp
  then have "par_reachable callback cap ?s3 (?s3\<lparr>ps_pcs := ?p # replicate (1 + k) Exited\<rparr>)"
    by (rule idle_threads_leave) simp
  with r3 have "par_reachable callback cap (par_init (Suc (Suc k)) spec) (?s3\<lparr>ps_pcs := ?p # replicate (1 + k) Exited\<rparr>)"
    by (meson reachable_trans)
  moreover have "Collect (par_step callback cap (?s3\<lparr>ps_pcs := ?p # replicate (1 + k) Exited\<rparr>)) =
      {?s3\<lparr>ps_pcs := ?p # replicate (1 + k) Exited\<rparr>}"
    using blocked_thread [of "?s3\<lparr>ps_pcs := ?p # replicate (1 + k) Exited\<rparr>" x c cs "1 + k" cap callback] s1 s0(2)
    by (simp add: goto_def)
  ultimately show ?thesis using s1(1) by (intro exI) auto
qed

theorem stop_leaves_worker_blocked_witness:
  "\<exists>s p. par_reachable wide_callback 1 (par_init 4 (example_spec [114])) s \<and> ps_stop s \<and>
     ps_pcs s = p # replicate 3 Exited \<and> pc_units p = 2 \<and> Collect (par_step wide_callback 1 s) = {s}"
proof -
  have "1 < length (read_children_specs (read_dir_new () wide_listing))" by code_simp
  then show ?thesis
    using stop_leaves_worker_blocked [of wide_callback "example_spec [114]"
        "\<lambda>n. Inr (read_dir_new () wide_listing)" "read_dir_new () wide_listing" 1 2]
    by (simp add: wide_callback_def example_spec_def read_dir_new_def numeral_eq_Suc)
qed

end
