(* ===== verification/Par_Finish.thy ===== *)
theory Par_Finish
  imports Par_Stop
begin

text \<open>
  A parallel walk comes to its end. The potential of a state bounds the work that is left; polling the empty queue is the only
  thing the workers can do without using it up. In a fair execution, in which no worker is passed over for ever, the workers of
  a walk of a finite tree therefore all leave.
\<close>

section \<open>The work that is left\<close>

text \<open>The number of results below an item, itself included.\<close>

definition item_size :: "nat \<Rightarrow> ('d, 'r) read_dir_callback \<Rightarrow> 'r read_dir_spec weighted \<Rightarrow> nat" where
  "item_size n cb x = size (item_results n cb x)"

text \<open>
  Every item costs at most ten steps and the work below it. An item gets cheaper on its way: held by a thread that will
  schedule it, counted, in the channel, in the heap, taken, and read.
\<close>

fun potential :: "nat \<Rightarrow> ('d, 'r) read_dir_callback \<Rightarrow> ('d, 'r) pc \<Rightarrow> nat" where
  "potential n cb Exited = 0"
| "potential n cb (Got x) = 10 * item_size n cb x - 4"
| "potential n cb (Streaming x ss k counted f) =
     10 * sum_list (map (item_size n cb) (pc_items (Streaming x ss k counted f))) + 5 - of_bool counted"
| "potential n cb (SendResult x r) = 10 * sum_list (map (item_size n cb) (regular_children r x)) + 4"
| "potential n cb (Scheduling x cs counted) = 10 * sum_list (map (item_size n cb) cs) + 3 - of_bool counted"
| "potential n cb (Completing x) = 2"
| "potential n cb _ = 1"

definition work_left :: "nat \<Rightarrow> ('d, 'r) read_dir_callback \<Rightarrow> ('d, 'r) par_state \<Rightarrow> nat" where
  "work_left n cb s =
     sum_list (map (\<lambda>x. 10 * item_size n cb x - 2) (ps_chan s)) +
     sum_list (map (\<lambda>x. 10 * item_size n cb x - 3) (ps_heap s)) +
     sum_list (map (potential n cb) (ps_pcs s))"

abbreviation queue_left :: "nat \<Rightarrow> ('d, 'r) read_dir_callback \<Rightarrow> ('d, 'r) par_state \<Rightarrow> nat" where
  "queue_left n cb s \<equiv>
     sum_list (map (\<lambda>x. 10 * item_size n cb x - 2) (ps_chan s)) +
     sum_list (map (\<lambda>x. 10 * item_size n cb x - 3) (ps_heap s))"

lemma item_size_pos: "0 < item_size n cb x"
  by (simp add: item_size_def item_results_def item_tree_def label_nonempty)

text \<open>The steps of a worker that waits for work.\<close>

definition polls :: "('d, 'r) par_state \<Rightarrow> ('d, 'r) par_state \<Rightarrow> bool" where
  "polls s s' \<longleftrightarrow> s' = s \<or> (\<exists>i p q. at_pc s i p \<and> s' = goto i q s \<and>
     (p = Idle \<and> q = IterStop \<and> \<not> ps_done s \<and> \<not> list_ex holds_iterator (ps_pcs s) \<or>
      p = IterStop \<and> q = IterDrain \<or>
      p = IterDrain \<and> q = IterPending \<and> ps_chan s = [] \<and> ps_heap s = [] \<or>
      p = IterPending \<and> q = IterWait \<and> ps_pending s \<noteq> 0 \<or>
      p = IterWait \<and> q = IterStop))"

lemma polls_intros:
  "at_pc s i Idle \<Longrightarrow> \<not> ps_done s \<Longrightarrow> \<not> list_ex holds_iterator (ps_pcs s) \<Longrightarrow> polls s (goto i IterStop s)"
  "at_pc s i IterStop \<Longrightarrow> polls s (goto i IterDrain s)"
  "at_pc s i IterDrain \<Longrightarrow> ps_chan s = [] \<Longrightarrow> heap_pop weighted_cmp (ps_heap s) = None \<Longrightarrow> polls s (goto i IterPending s)"
  "at_pc s i IterPending \<Longrightarrow> ps_pending s \<noteq> 0 \<Longrightarrow> polls s (goto i IterWait s)"
  "at_pc s i IterWait \<Longrightarrow> polls s (goto i IterStop s)"
  by (auto simp: polls_def heap_pop_None_iff)

lemma work_left_move:
  assumes "at_pc s i p" and "ps_pcs s' = ps_pcs s"
    and "queue_left n cb s' + potential n cb q < queue_left n cb s + potential n cb p"
  shows "work_left n cb (goto i q s') < work_left n cb s"
  using sum_pcs_move [OF assms(1,2), of "potential n cb" q] assms(3) by (simp add: work_left_def)

lemma heap_pop_sum: "heap_pop cmp h = Some (m, rest) \<Longrightarrow> sum_list (map f h) = (f m + sum_list (map f rest) :: nat)"
  using arg_cong [OF heap_pop_mset, of cmp h m rest "\<lambda>M. sum_mset (image_mset f M)"] by (simp add: sum_mset_sum_list [symmetric])

lemma size_sum_items: "size (\<Sum>y \<in># mset ys. item_results n cb y) = sum_list (map (item_size n cb) ys)"
  by (induction ys) (simp_all add: item_size_def)

lemma read_potential:
  assumes "streams_ok callback" and "callback (w_value x) = (ss, f)"
    and "read_tree n (full_result callback) (w_value x) \<noteq> None"
  shows "potential n (full_result callback) (Streaming x ss 0 False f) < potential n (full_result callback) (Got x)"
proof -
  let ?V = "item_size n (full_result callback)" and ?I = "pc_items (Streaming x ss 0 False f)"
  have "size (item_results n (full_result callback) x) =
      size (pc_own (Streaming x ss 0 False f)) + size (\<Sum>y \<in># mset ?I. item_results n (full_result callback) y)"
    by (simp only: read_conserves(1) [OF assms] size_union)
  then have "?V x = 1 + sum_list (map ?V ?I)"
    unfolding size_sum_items by (simp add: item_size_def del: pc_items.simps)
  then show ?thesis by (simp del: pc_items.simps)
qed

lemma taken_item_tree:
  assumes "results_conserved n cb t s" and "at_pc s i (Got x)"
  shows "read_tree n cb (w_value x) \<noteq> None"
proof -
  from assms(2) have i: "i < length (ps_pcs s)" "ps_pcs s ! i = Got x" by (auto simp: at_pc_def)
  have "x \<in># items s"
    using sum_list_split [OF i(1), of "mset \<circ> pc_items"] i(2) by (simp add: items_def)
  then show ?thesis using assms(1) by (simp add: results_conserved_def)
qed

lemma work_left_drain:
  assumes "ps_chan s = x # xs"
  shows "work_left n cb (s\<lparr>ps_chan := xs, ps_heap := heap_push x (ps_heap s)\<rparr>) < work_left n cb s"
proof -
  obtain v where "item_size n cb x = Suc v" using item_size_pos [of n cb x] by (metis gr0_implies_Suc)
  then show ?thesis using assms by (simp add: work_left_def heap_push_def)
qed

text \<open>Every step of a walk that is not stopped uses up work, or polls.\<close>

lemma working_step:
  assumes "par_step callback cap s s'" and "streams_ok callback" and "\<not> ps_stop s'"
    and "results_conserved n (full_result callback) t s"
  shows "polls s s' \<or> work_left n (full_result callback) s' < work_left n (full_result callback) s"
  using assms
proof (induction rule: par_step.induct)
  case (drain s i x xs)
  then show ?case by (simp add: work_left_drain)
next
  case (pop s i x rest)
  show ?case
    using item_size_pos [of n "full_result callback" x] heap_pop_sum [OF pop.hyps(3)]
    by (intro disjI2 work_left_move [OF pop.hyps(1)]) simp_all
next
  case (wait_recv s i x xs)
  show ?case
    using item_size_pos [of n "full_result callback" x] wait_recv.hyps(2)
    by (intro disjI2 work_left_move [OF wait_recv.hyps(1)]) (simp_all add: heap_push_def)
next
  case (read s i x ss f)
  show ?case
    using read_potential [OF read.prems(1) read.hyps(3) taken_item_tree [OF read.prems(3) read.hyps(1)]]
    by (intro disjI2 work_left_move [OF read.hyps(1)]) (simp_all del: potential.simps)
next
  case (stream_send s i x c ss k f)
  show ?case
    using item_size_pos [of n "full_result callback" "streamed_child x k c"]
    by (intro disjI2 work_left_move [OF stream_send.hyps(1)]) (simp_all add: streamed_items_Cons)
next
  case (stream_end s i x k f)
  show ?case
    by (intro disjI2 work_left_move [OF stream_end.hyps]) (simp_all add: streamed_items_def)
next
  case (sched_send s i x c cs)
  show ?case
    using item_size_pos [of n "full_result callback" c]
    by (intro disjI2 work_left_move [OF sched_send.hyps(1)]) simp_all
next
  case (client_stop s)
  then show ?case by simp
qed (simp; fail | intro disjI2, erule work_left_move; simp; fail | intro disjI1, blast intro: polls_intros)+

section \<open>The iterator is held by one thread\<close>

definition holders :: "('d, 'r) par_state \<Rightarrow> nat" where
  "holders s = sum_list (map (\<lambda>p. of_bool (holds_iterator p)) (ps_pcs s))"

lemma holders_move:
  "at_pc s i p \<Longrightarrow> ps_pcs s' = ps_pcs s \<Longrightarrow>
   holders (goto i q s') + of_bool (holds_iterator p) = holders s + of_bool (holds_iterator q)"
  unfolding holders_def by (rule sum_pcs_move)

lemma holders_0: "holders s = 0 \<longleftrightarrow> \<not> list_ex holds_iterator (ps_pcs s)"
  by (auto simp: holders_def list_ex_iff)

lemma holds_pos: "at_pc s i p \<Longrightarrow> holds_iterator p \<Longrightarrow> 0 < holders s"
  using holders_0 [of s] by (auto simp: at_pc_def list_ex_iff)

text \<open>At most one thread holds the iterator, none once it has ended, and only then a thread leaves.\<close>

definition iterator_exclusive :: "('d, 'r) par_state \<Rightarrow> bool" where
  "iterator_exclusive s \<longleftrightarrow> holders s \<le> of_bool (\<not> ps_done s) \<and> (Exited \<in> set (ps_pcs s) \<longrightarrow> ps_done s)"

lemma goto_exited: "q \<noteq> Exited \<Longrightarrow> Exited \<in> set (ps_pcs (goto i q s)) \<Longrightarrow> Exited \<in> set (ps_pcs s)"
  by (auto dest!: set_update_subset_insert [THEN subsetD])

lemma par_step_exclusive:
  assumes "par_step callback cap s s'" and "iterator_exclusive s"
  shows "iterator_exclusive s'"
proof -
  have move: "iterator_exclusive (goto i q u)"
    if "at_pc s i p" "ps_pcs u = ps_pcs s" "q \<noteq> Exited" "ps_done u = ps_done s"
      "holds_iterator q \<longrightarrow> holds_iterator p \<or> \<not> ps_done s \<and> holders s = 0" for i p q u
  proof -
    have "Exited \<in> set (ps_pcs (goto i q u)) \<longrightarrow> Exited \<in> set (ps_pcs s)"
      using goto_exited [OF that(3), of i u] that(2) by simp
    then show ?thesis
      using assms(2) holders_move [OF that(1,2), of q] that(4,5)
      by (cases "holds_iterator q"; cases "holds_iterator p") (auto simp: iterator_exclusive_def split: if_splits)
  qed
  have leave: "iterator_exclusive (goto i Exited (s\<lparr>ps_done := True\<rparr>))"
    if "at_pc s i p" "holds_iterator p" for i p
    using assms(2) holders_move [OF that(1), of "s\<lparr>ps_done := True\<rparr>" Exited] that(2)
    by (cases "ps_done s") (auto simp: iterator_exclusive_def)
  show ?thesis using assms(1)
  proof cases
    case (exhausted i)
    then show ?thesis
      using assms(2) holders_move [OF exhausted(2), of s Exited] by (auto simp: iterator_exclusive_def)
  next
    case (drain i x xs)
    then show ?thesis using assms(2) by (simp add: iterator_exclusive_def holders_def)
  next
    case client_stop
    then show ?thesis using assms(2) by (simp add: iterator_exclusive_def holders_def)
  qed (auto intro: move leave simp: holders_0)
qed

lemma reachable_exclusive:
  "par_reachable callback cap (par_init k spec) s \<Longrightarrow> iterator_exclusive s"
proof (induction rule: par_reachable.induct)
  case init
  then show ?case by (simp add: iterator_exclusive_def holders_def par_init_def sum_list_replicate)
qed (rule par_step_exclusive)

section \<open>Fair executions\<close>

text \<open>
  An execution that is not stopped takes a step or pauses at every point in time. It is fair when no thread is passed over for
  ever: again and again, thread \<open>i\<close> takes its step, or it has none at that moment.
\<close>

definition par_execution :: "('d, 'r) par_callback \<Rightarrow> usize \<Rightarrow> (nat \<Rightarrow> ('d, 'r) par_state) \<Rightarrow> bool" where
  "par_execution callback cap r \<longleftrightarrow>
     (\<forall>m. (par_step callback cap (r m) (r (Suc m)) \<or> r (Suc m) = r m) \<and> \<not> ps_stop (r m))"

definition fair_thread :: "('d, 'r) par_callback \<Rightarrow> usize \<Rightarrow> (nat \<Rightarrow> ('d, 'r) par_state) \<Rightarrow> nat \<Rightarrow> bool" where
  "fair_thread callback cap r i \<longleftrightarrow>
     (\<forall>m. \<exists>m' \<ge> m. case thread_step callback cap i (r m') of None \<Rightarrow> True | Some s \<Rightarrow> r (Suc m') = s)"

lemma execution_reachable: "par_execution callback cap r \<Longrightarrow> par_reachable callback cap (r 0) (r m)"
proof (induction m)
  case (Suc m)
  then show ?case by (metis par_execution_def par_reachable.step)
qed (rule par_reachable.init)

text \<open>What decreases whenever \<open>Q\<close> fails settles down, and \<open>Q\<close> fails no more often than the first value.\<close>

lemma settles:
  fixes f :: "nat \<Rightarrow> nat"
  assumes "\<And>m. Q m \<and> f (Suc m) = f m \<or> f (Suc m) < f m"
  shows "\<exists>N. \<forall>m \<ge> N. Q m" and "card {m. m < M \<and> \<not> Q m} + f M \<le> f 0"
proof -
  have mono: "f (Suc m) \<le> f m" for m using assms [of m] by auto
  obtain N where N: "\<forall>m. f N \<le> f m" using ex_has_least_nat [of "\<lambda>_. True" _ f] by blast
  have "Q m" if "N \<le> m" for m
    using assms [of m] N lift_Suc_antimono_le [of f, OF mono that] by (meson not_less order_trans)
  then show "\<exists>N. \<forall>m \<ge> N. Q m" by blast
  show "card {m. m < M \<and> \<not> Q m} + f M \<le> f 0"
  proof (induction M)
    case (Suc M)
    have "{m. m < Suc M \<and> \<not> Q m} = {m. m < M \<and> \<not> Q m} \<union> (if Q M then {} else {M})"
      by (auto simp: less_Suc_eq)
    then have "card {m. m < Suc M \<and> \<not> Q m} \<le> card {m. m < M \<and> \<not> Q m} + of_bool (\<not> Q M)"
      by simp
    with Suc assms [of M] show ?case by (cases "Q M") auto
  qed simp
qed

text \<open>Polling changes nothing but where the holder of the iterator is.\<close>

lemma polls_keeps:
  assumes "polls s s'"
  shows "ps_chan s' = ps_chan s" "ps_heap s' = ps_heap s" "ps_pending s' = ps_pending s" "ps_done s' = ps_done s"
    "ps_sent s' = ps_sent s" "work_left n cb s' = work_left n cb s"
proof -
  show "ps_chan s' = ps_chan s" "ps_heap s' = ps_heap s" "ps_pending s' = ps_pending s" "ps_done s' = ps_done s"
    "ps_sent s' = ps_sent s" using assms by (auto simp: polls_def)
  have "work_left n cb (goto i q s) = work_left n cb s" if "at_pc s i p" "potential n cb q = potential n cb p" for i p q
    using sum_pcs_move [OF that(1), of s "potential n cb" q] that(2) by (simp add: work_left_def)
  then show "work_left n cb s' = work_left n cb s" using assms by (auto simp: polls_def)
qed

lemma polls_leave:
  assumes "polls s s'" and "at_pc s i p" and "\<not> at_pc s' i p"
  shows "\<exists>q. at_pc s' i q \<and>
    (p = Idle \<and> q = IterStop \<and> \<not> ps_done s \<or>
     p = IterStop \<and> q = IterDrain \<or>
     p = IterDrain \<and> q = IterPending \<and> ps_chan s = [] \<and> ps_heap s = [] \<or>
     p = IterPending \<and> q = IterWait \<and> ps_pending s \<noteq> 0 \<or>
     p = IterWait \<and> q = IterStop)"
proof -
  have "s' \<noteq> s" using assms(2,3) by auto
  then obtain j p' q where m: "at_pc s j p'" "s' = goto j q s" and
    c: "p' = Idle \<and> q = IterStop \<and> \<not> ps_done s \<and> \<not> list_ex holds_iterator (ps_pcs s) \<or>
      p' = IterStop \<and> q = IterDrain \<or> p' = IterDrain \<and> q = IterPending \<and> ps_chan s = [] \<and> ps_heap s = [] \<or>
      p' = IterPending \<and> q = IterWait \<and> ps_pending s \<noteq> 0 \<or> p' = IterWait \<and> q = IterStop"
    using assms(1) unfolding polls_def by blast
  have "j = i" using assms(2,3) m by (cases "j = i") (auto simp: at_pc_def)
  then have "p' = p" "at_pc s' i q" using assms(2) m by (auto simp: at_pc_def)
  with c show ?thesis by blast
qed

section \<open>When only polling is left\<close>

definition quiet :: "(nat \<Rightarrow> ('d, 'r) par_state) \<Rightarrow> nat \<Rightarrow> bool" where
  "quiet r N \<longleftrightarrow> (\<forall>m \<ge> N. polls (r m) (r (Suc m)))"

lemma quiet_constant:
  assumes "quiet r N" and "N \<le> m"
  shows "ps_chan (r m) = ps_chan (r N) \<and> ps_heap (r m) = ps_heap (r N) \<and> ps_pending (r m) = ps_pending (r N) \<and>
    ps_done (r m) = ps_done (r N)"
  using assms(2)
proof (induction rule: dec_induct)
  case (step m)
  then show ?case using assms(1) polls_keeps [of "r m" "r (Suc m)"] by (simp add: quiet_def)
qed simp

text \<open>A thread that could always take its step from \<open>p\<close> is not at \<open>p\<close> for ever.\<close>

lemma thread_leaves:
  assumes "quiet r N" and "fair_thread callback cap r i" and "N \<le> m" and "at_pc (r m) i p"
    and enabled: "\<And>m'. m \<le> m' \<Longrightarrow> at_pc (r m') i p \<Longrightarrow> \<exists>s. thread_step callback cap i (r m') = Some s"
  shows "\<exists>m' \<ge> m. at_pc (r m') i p \<and> \<not> at_pc (r (Suc m')) i p"
proof (rule ccontr)
  assume not: "\<not> ?thesis"
  have stays: "at_pc (r m') i p" if "m \<le> m'" for m'
    using that by (induction m' rule: dec_induct) (use not in \<open>auto simp: assms(4)\<close>)
  obtain m' where m': "m \<le> m'" "case thread_step callback cap i (r m') of None \<Rightarrow> True | Some s \<Rightarrow> r (Suc m') = s"
    using assms(2) unfolding fair_thread_def by blast
  with enabled stays have "thread_step callback cap i (r m') = Some (r (Suc m'))" by fastforce
  then have "ps_pcs (r (Suc m')) ! i \<noteq> ps_pcs (r m') ! i \<or> length (ps_chan (r (Suc m'))) < length (ps_chan (r m'))"
    by (rule thread_step_changes)
  moreover have "ps_pcs (r (Suc m')) ! i = ps_pcs (r m') ! i"
    using stays [OF m'(1)] stays [of "Suc m'"] m'(1) by (simp add: at_pc_def)
  ultimately show False
    using quiet_constant [OF assms(1), of m'] quiet_constant [OF assms(1), of "Suc m'"] assms(3) m'(1) by simp
qed

lemma thread_goes_on:
  assumes "quiet r N" and "fair_thread callback cap r i" and "N \<le> m" and "at_pc (r m) i p"
    and "\<And>m'. m \<le> m' \<Longrightarrow> at_pc (r m') i p \<Longrightarrow> \<exists>s. thread_step callback cap i (r m') = Some s"
  shows "\<exists>m' \<ge> N. \<exists>q. at_pc (r m') i q \<and>
    (p = Idle \<and> q = IterStop \<and> \<not> ps_done (r N) \<or> p = IterStop \<and> q = IterDrain \<or>
     p = IterDrain \<and> q = IterPending \<and> ps_chan (r N) = [] \<and> ps_heap (r N) = [] \<or>
     p = IterPending \<and> q = IterWait \<and> ps_pending (r N) \<noteq> 0 \<or> p = IterWait \<and> q = IterStop)"
proof -
  obtain m' where m': "m \<le> m'" "at_pc (r m') i p" "\<not> at_pc (r (Suc m')) i p"
    using thread_leaves [of r N callback cap i m p, OF assms] by blast
  have "polls (r m') (r (Suc m'))" using assms(1,3) m'(1) by (simp add: quiet_def)
  from polls_leave [OF this m'(2,3)] have "\<exists>q. at_pc (r (Suc m')) i q \<and>
    (p = Idle \<and> q = IterStop \<and> \<not> ps_done (r N) \<or> p = IterStop \<and> q = IterDrain \<or>
     p = IterDrain \<and> q = IterPending \<and> ps_chan (r N) = [] \<and> ps_heap (r N) = [] \<or>
     p = IterPending \<and> q = IterWait \<and> ps_pending (r N) \<noteq> 0 \<or> p = IterWait \<and> q = IterStop)"
    using quiet_constant [OF assms(1), of m'] assms(3) m'(1) by simp
  then show ?thesis using assms(3) m'(1) by (intro exI [of _ "Suc m'"]) simp
qed

text \<open>The holder of the iterator goes round, and finds the queue empty and work pending.\<close>

lemma holder_enabled: "at_pc s i p \<Longrightarrow> holds_iterator p \<Longrightarrow> \<exists>s'. thread_step callback cap i s = Some s'"
  by (cases p) (auto simp: at_pc_def thread_step_def split: list.splits option.splits)

lemma holder_polls:
  assumes "quiet r N" and "fair_thread callback cap r i" and "N \<le> m" and "at_pc (r m) i p" and "holds_iterator p"
  shows "ps_chan (r N) = [] \<and> ps_heap (r N) = [] \<and> ps_pending (r N) \<noteq> 0"
proof -
  have go: "\<exists>m' \<ge> N. \<exists>q. at_pc (r m') i q \<and>
    (p = IterStop \<and> q = IterDrain \<or> p = IterDrain \<and> q = IterPending \<and> ps_chan (r N) = [] \<and> ps_heap (r N) = [] \<or>
     p = IterPending \<and> q = IterWait \<and> ps_pending (r N) \<noteq> 0 \<or> p = IterWait \<and> q = IterStop)"
    if "holds_iterator p" "\<exists>m \<ge> N. at_pc (r m) i p" for p
    using that thread_goes_on [of r N callback cap i _ p, OF assms(1,2) _ _ holder_enabled] by fastforce
  let ?at = "\<lambda>p. \<exists>m \<ge> N. at_pc (r m) i p"
  have wait: "?at IterWait \<Longrightarrow> ?at IterStop" and stop: "?at IterStop \<Longrightarrow> ?at IterDrain"
    and drain: "?at IterDrain \<Longrightarrow> ?at IterPending \<and> ps_chan (r N) = [] \<and> ps_heap (r N) = []"
    and pending: "?at IterPending \<Longrightarrow> ?at IterWait \<and> ps_pending (r N) \<noteq> 0"
    using go [of IterWait] go [of IterStop] go [of IterDrain] go [of IterPending] by auto
  have "?at p" using assms(3,4) by blast
  with assms(5) show ?thesis using wait stop drain pending by (cases p) auto
qed

lemma quiet_no_work:
  assumes "quiet r N" and "fair_thread callback cap r i" and "N \<le> m" and "at_pc (r m) i p"
    and "\<And>m. at_pc (r m) i p \<Longrightarrow> 0 < pc_units p \<Longrightarrow> \<exists>s. thread_step callback cap i (r m) = Some s"
  shows "pc_units p = 0"
proof (rule ccontr)
  assume work: "pc_units p \<noteq> 0"
  then have "\<exists>s. thread_step callback cap i (r m') = Some s" if "at_pc (r m') i p" for m'
    using assms(5) that by simp
  from thread_goes_on [of r N callback cap i m p, OF assms(1-4) this] work show False by auto
qed

lemma no_work_outstanding:
  assumes "\<And>i p. at_pc s i p \<Longrightarrow> pc_units p = 0" and "ps_chan s = []" and "ps_heap s = []"
  shows "outstanding s = 0"
  using assms by (auto simp: outstanding_def at_pc_def in_set_conv_nth)

lemma quiet_finished:
  assumes quiet: "quiet r N" and fair: "\<And>i. i < k \<Longrightarrow> fair_thread callback cap r i" and "0 < k"
    and enabled: "\<And>m i p. at_pc (r m) i p \<Longrightarrow> 0 < pc_units p \<Longrightarrow> \<exists>s. thread_step callback cap i (r m) = Some s"
    and inv: "\<And>m. iterator_exclusive (r m)" and len: "\<And>m. length (ps_pcs (r m)) = k" and "counter_exact (r N)"
  shows "ps_done (r N) \<and> ps_pcs (r N) = replicate k Exited"
proof -
  have lt: "i < k" if "at_pc (r m) i p" for m i p using that len by (auto simp: at_pc_def)
  have no_work: "pc_units p = 0" if "N \<le> m" "at_pc (r m) i p" for m i p
    using quiet_no_work [of r N callback cap i m p, OF quiet fair [OF lt [OF that(2)]] that] enabled by blast
  have not_held: "\<not> holds_iterator p" if m: "N \<le> m" "at_pc (r m) i p" for m i p
  proof
    assume "holds_iterator p"
    then have e: "ps_chan (r N) = [] \<and> ps_heap (r N) = [] \<and> ps_pending (r N) \<noteq> 0"
      using quiet fair [OF lt [OF m(2)]] m by (intro holder_polls)
    then have "outstanding (r N) = 0" using no_work by (intro no_work_outstanding) auto
    with e assms(7) show False by (simp add: counter_exact_def)
  qed
  have not_idle: "p \<noteq> Idle" if p: "at_pc (r N) i p" for i p
  proof
    assume idle: "p = Idle"
    have "\<exists>s. thread_step callback cap i (r m) = Some s" if m: "N \<le> m" "at_pc (r m) i Idle" for m
    proof -
      have "\<not> list_ex holds_iterator (ps_pcs (r m))"
        using not_held [OF m(1)] by (auto simp: list_ex_iff at_pc_def in_set_conv_nth)
      then show ?thesis using m(2) by (auto simp: thread_step_def at_pc_def)
    qed
    then obtain m where "N \<le> m" "at_pc (r m) i IterStop"
      using thread_goes_on [of r N callback cap i N Idle, OF quiet fair [OF lt [OF p]]] p idle by auto
    then show False using not_held by fastforce
  qed
  have "p = Exited" if "at_pc (r N) i p" for i p
    using no_work [OF _ that] not_held [OF _ that] not_idle [OF that] by (cases p) (auto split: if_splits)
  then have all: "p = Exited" if "p \<in> set (ps_pcs (r N))" for p using that by (auto simp: in_set_conv_nth at_pc_def)
  then have pcs: "ps_pcs (r N) = replicate k Exited" using len [of N] by (metis replicate_eqI)
  with inv [of N] \<open>0 < k\<close> show ?thesis by (simp add: iterator_exclusive_def)
qed

section \<open>Every fair walk finishes\<close>

lemma sent_bounded:
  assumes "results_conserved n cb t s"
  shows "length (ps_sent s) \<le> length (preorder t)"
proof -
  have "length (ps_sent s) \<le> size (own_results s + (\<Sum>x \<in># items s. item_results n cb x))"
    by (simp add: own_results_def)
  also have "\<dots> = length (preorder t)"
    using assms arg_cong [OF label_values(1), of length "index_path_new [0]" t]
    by (simp only: results_conserved_def size_mset length_map)
  finally show ?thesis .
qed

lemma fair_walk:
  assumes "r 0 = par_init k spec" and "0 < k" and run: "par_execution callback cap r"
    and fair: "\<And>i. i < k \<Longrightarrow> fair_thread callback cap r i"
    and ok: "streams_ok callback" and tree: "read_tree n (full_result callback) spec = Some t"
    and "length (preorder t) \<le> cap" and "length (preorder t) + 2 * k < 2 ^ 64"
  shows "(\<exists>m. ps_done (r m) \<and> ps_pcs (r m) = replicate k Exited \<and>
            mset (ps_sent (r m)) = mset (label (index_path_new [0]) t)) \<and>
         length (ps_sent (r M)) \<le> cap \<and>
         card {m. m < M \<and> \<not> polls (r m) (r (Suc m))} \<le> 10 * length (preorder t) + k"
proof -
  let ?w = "\<lambda>m. work_left n (full_result callback) (r m)"
  have reach: "par_reachable callback cap (par_init k spec) (r m)" for m
    using execution_reachable [OF run, of m] assms(1) by simp
  have live: "\<not> ps_stop (r m)" for m using run by (simp add: par_execution_def)
  have conserved: "results_conserved n (full_result callback) t (r m)" for m
    using reach ok tree live by (rule reachable_results_conserved)
  have step: "polls (r m) (r (Suc m)) \<and> ?w (Suc m) = ?w m \<or> ?w (Suc m) < ?w m" for m
  proof (cases "polls (r m) (r (Suc m))")
    case False
    then have "par_step callback cap (r m) (r (Suc m))"
      using run by (auto simp: par_execution_def polls_def)
    then show ?thesis using working_step [OF _ ok live conserved] False by blast
  qed (simp add: polls_keeps(6))
  have enabled: "\<exists>s. thread_step callback cap i (r m) = Some s" if "at_pc (r m) i p" "0 < pc_units p" for m i p
    using worker_enabled [OF reach ok tree assms(7) live that] by blast
  have len: "length (ps_pcs (r m)) = k" for m using reachable_threads [OF reach] by (simp add: par_init_def)
  obtain N where "quiet r N" using settles(1) [of "\<lambda>m. polls (r m) (r (Suc m))", OF step] by (auto simp: quiet_def)
  then have "ps_done (r N) \<and> ps_pcs (r N) = replicate k Exited"
    using fair \<open>0 < k\<close> enabled reachable_exclusive [OF reach] len reachable_counter_exact [OF reach]
    by (rule quiet_finished)
  moreover from this have "mset (ps_sent (r N)) = mset (label (index_path_new [0]) t)"
    using reachable_sent_all [OF reach ok tree assms(8)] live by blast
  moreover have "?w 0 \<le> 10 * length (preorder t) + k"
  proof -
    have "item_size n (full_result callback) (root_item spec) = length (preorder t)"
      using tree arg_cong [OF label_values(1), of length "index_path_new [0]" t]
      by (simp add: item_size_def item_results_def item_tree_def root_item_def)
    then show ?thesis by (simp add: assms(1) work_left_def par_init_def sum_list_replicate)
  qed
  then have "card {m. m < M \<and> \<not> polls (r m) (r (Suc m))} \<le> 10 * length (preorder t) + k"
    using settles(2) [of "\<lambda>m. polls (r m) (r (Suc m))" ?w M, OF step] by simp
  moreover have "length (ps_sent (r M)) \<le> cap" using sent_bounded [OF conserved, of M] assms(7) by simp
  ultimately show ?thesis by blast
qed

text \<open>Taking turns is fair: thread \<open>m mod k\<close> has its turn at time \<open>m\<close>.\<close>

primrec round_robin :: "('d, 'r) par_callback \<Rightarrow> usize \<Rightarrow> nat \<Rightarrow> ('d, 'r) par_state \<Rightarrow> nat \<Rightarrow> ('d, 'r) par_state" where
  "round_robin callback cap k s 0 = s"
| "round_robin callback cap k s (Suc m) =
     (let s' = round_robin callback cap k s m in
      case thread_step callback cap (m mod k) s' of None \<Rightarrow> s' | Some s'' \<Rightarrow> s'')"

lemma thread_step_stop: "thread_step callback cap i s = Some s' \<Longrightarrow> ps_stop s' = ps_stop s"
  unfolding thread_step_def by (auto split: if_splits pc.splits list.splits option.splits prod.splits)

lemma round_robin_execution:
  assumes "\<not> ps_stop s"
  shows "par_execution callback cap (round_robin callback cap k s)"
proof -
  have "\<not> ps_stop (round_robin callback cap k s m)" for m
    using assms by (induction m) (auto simp: Let_def thread_step_stop split: option.splits)
  then show ?thesis
    by (auto simp: par_execution_def Let_def split: option.splits intro: thread_step_sound)
qed

lemma round_robin_fair:
  assumes "i < k"
  shows "fair_thread callback cap (round_robin callback cap k s) i"
  unfolding fair_thread_def
proof
  fix m
  have "m \<le> m * k + i" using assms by (cases k) simp_all
  moreover have "(m * k + i) mod k = i" using assms by simp
  then have "case thread_step callback cap i (round_robin callback cap k s (m * k + i)) of None \<Rightarrow> True
      | Some s' \<Rightarrow> round_robin callback cap k s (Suc (m * k + i)) = s'"
    by (simp add: Let_def split: option.split)
  ultimately show "\<exists>m' \<ge> m. case thread_step callback cap i (round_robin callback cap k s m') of None \<Rightarrow> True
      | Some s' \<Rightarrow> round_robin callback cap k s (Suc m') = s'" by blast
qed

section \<open>Properties of a fair walk\<close>

text \<open>
  C11. A parallel walk ends: in every fair execution over a finite tree that has room in the scheduling channel, however the
  workers are interleaved and however long they wait, all workers leave at last, with the result of every directory sent exactly
  once at its position; the bounded result channel, which has the same capacity, has room for every result even if nobody
  receives; and all but polling is over after at most \<open>10\<close> steps per directory and one per worker.
\<close>

theorem fair_walk_finishes:
  assumes "r 0 = par_init k spec" and "0 < k" and run: "par_execution callback cap r"
    and fair: "\<And>i. i < k \<Longrightarrow> fair_thread callback cap r i"
    and ok: "streams_ok callback" and tree: "read_tree n (full_result callback) spec = Some t"
    and "length (preorder t) \<le> cap" and "length (preorder t) + 2 * k < 2 ^ 64"
  shows "(\<exists>m. ps_done (r m) \<and> ps_pcs (r m) = replicate k Exited \<and>
            mset (ps_sent (r m)) = mset (label (index_path_new [0]) t)) \<and>
         length (ps_sent (r M)) \<le> cap \<and>
         card {m. m < M \<and> \<not> polls (r m) (r (Suc m))} \<le> 10 * length (preorder t) + k"
  using assms by (rule fair_walk)

theorem fair_walk_finishes_witness:
  "\<exists>m. ps_done (round_robin streaming_callback 8 2 (par_init 2 (example_spec [114])) m) \<and>
     ps_pcs (round_robin streaming_callback 8 2 (par_init 2 (example_spec [114])) m) = [Exited, Exited] \<and>
     mset (ps_sent (round_robin streaming_callback 8 2 (par_init 2 (example_spec [114])) m)) =
       mset (label (index_path_new [0]) example_tree)"
proof -
  let ?s = "par_init 2 (example_spec [114]) :: (unit, unit) par_state"
  have "length (preorder example_tree) = 3" by code_simp
  then have "length (preorder example_tree) \<le> 8" "length (preorder example_tree) + 2 * 2 < 2 ^ 64" by simp_all
  moreover have "\<not> ps_stop ?s" by (simp add: par_init_def)
  ultimately show ?thesis
    using fair_walk_finishes [of "round_robin streaming_callback 8 2 ?s" 2 "example_spec [114]" streaming_callback 8 2 example_tree]
      round_robin_execution [of ?s streaming_callback 8 2] round_robin_fair [of _ 2 streaming_callback 8 ?s]
      example_streams_ok(2) example_tree_read
    by (simp add: numeral_2_eq_2)
qed

end
