(* ===== verification/Whole_Walk.thy ===== *)
theory Whole_Walk
  imports Walk_Linux Walk_Windows Par_Finish
begin

text \<open>
  The walk as a whole: the results that the workers send, consumed by the iterator, and the same from the
  builder on, for every reader that keeps the contract \<open>dir_reader\<close>.
\<close>

section \<open>Workers and consumer together\<close>

text \<open>
  The serial callback and the parallel one give the same directory listings; they differ in the
  number of children reported as streamed, which no entry shows.
\<close>

definition forget_streamed :: "('d, 'r) read_result \<Rightarrow> ('d, 'r) read_result" where
  "forget_streamed r = map_sum id (\<lambda>rd. rd\<lparr>streamed_child_count := 0\<rparr>) r"

definition same_listings :: "('d, 'r) read_dir_callback \<Rightarrow> ('d, 'r) par_callback \<Rightarrow> bool" where
  "same_listings serial_callback par_callback \<longleftrightarrow>
     (\<forall>spec. forget_streamed (serial_callback spec) = forget_streamed (full_result par_callback spec))"

lemma forget_streamed_simps [simp]:
  "forget_streamed (Inl e) = Inl e"
  "forget_streamed (Inr rd) = Inr (rd\<lparr>streamed_child_count := 0\<rparr>)"
  by (simp_all add: forget_streamed_def)

lemma result_children_forget [simp]: "result_children (forget_streamed r) = result_children r"
  by (cases r) (simp_all add: forget_streamed_def result_children_def read_children_specs_def)

lemma read_tree_forget:
  "read_tree n (forget_streamed \<circ> cb) spec = map_option (map_otree forget_streamed) (read_tree n cb spec)"
proof (induction n arbitrary: spec)
  case (Suc n)
  have those_map: "those (map (\<lambda>s. map_option g (h s)) xs) = map_option (map g) (those (map h xs))"
    for g :: "'x \<Rightarrow> 'y" and h :: "'z \<Rightarrow> 'x option" and xs
    by (induction xs) (auto simp: option.map_comp comp_def split: option.splits)
  have "those (map (read_tree n (forget_streamed \<circ> cb)) (result_children (cb spec))) =
      map_option (map (map_otree forget_streamed)) (those (map (read_tree n cb) (result_children (cb spec))))"
    unfolding Suc those_map [symmetric] ..
  then show ?case by (simp add: option.map_comp comp_def)
qed simp

lemma emit_forget: "emit m rs (map (map_otree forget_streamed) ts) = emit m rs ts"
proof (induction m rs ts rule: emit.induct)
  case (3 m e rs ts)
  show ?case
  proof (cases "de_read_children_path e")
    case None
    with 3 show ?thesis by simp
  next
    case (Some q)
    show ?thesis
    proof (cases ts)
      case Nil
      with 3 Some show ?thesis by simp
    next
      case (Cons t us)
      obtain r kids where t: "t = ONode r kids" by (cases t)
      then show ?thesis
        using "3.IH"(3) "3.IH"(4) [of t us] "3.IH"(5) [of t us] Some Cons by (cases r) simp_all
    qed
  qed
qed simp_all

lemma length_preorder_map: "length (preorder (map_otree g t)) = length (preorder t)"
  by (induction t) (simp add: length_concat comp_def cong: map_cong)

text \<open>Callbacks with the same listings have trees of the same shape, which yield the same entries.\<close>

lemma forget_streamed_tree:
  assumes "forget_streamed \<circ> cb = forget_streamed \<circ> cb'" and "read_tree n cb spec = Some t"
  obtains t' where "read_tree n cb' spec = Some t'"
    and "length (preorder t') = length (preorder t)" and "emit m rs [t'] = emit m rs [t]"
proof -
  obtain t' where t': "read_tree n cb' spec = Some t'"
    and eq: "map_otree forget_streamed t = map_otree forget_streamed t'"
    using read_tree_forget [of n cb spec] read_tree_forget [of n cb' spec] assms by auto
  show thesis
  proof (rule that [OF t'])
    show "length (preorder t') = length (preorder t)"
      using arg_cong [OF eq, of "\<lambda>u. length (preorder u)"] by (simp add: length_preorder_map)
    show "emit m rs [t'] = emit m rs [t]"
      using emit_forget [of m rs "[t]"] emit_forget [of m rs "[t']"] eq by simp
  qed
qed

lemma same_listings_comp:
  "same_listings cb par_cb \<longleftrightarrow> forget_streamed \<circ> cb = forget_streamed \<circ> full_result par_cb"
  by (auto simp: same_listings_def fun_eq_iff)

text \<open>The consumer of results that were all sent, for any callback of the (unused) serial arm.\<close>

lemma consume_sent:
  assumes "root_specs roots st = [spec]" and "has_tree cb' spec t" and "p \<noteq> Serial"
    and "mset sent = mset (label (index_path_new [0]) t)"
  shows "collect (read_dir_iter_next cb arrived_world)
           (dir_entry_iter_new roots p True m st max_size (sent, 0)) = Some (emit m roots [t])"
proof -
  have "iter_remaining cb arrived_world (ParWalk (new_ordered_queue max_size), (sent, 0))
      (concat (map preorder [t]))"
    using par_remaining_root [OF arrived_world_ok, of "(sent, 0)" t cb max_size] assms(4) by simp
  note rde.collect_emit [OF complete_root [OF assms(1,2)] this]
  then show ?thesis using assms(1,3) by (simp add: dir_entry_iter_new_def try_new_parallel)
qed

text \<open>Workers and consumer together, for any pair of callbacks with the same listings.\<close>

lemma parallel_execution:
  assumes "par_reachable par_cb cap (par_init k spec) s" and "ps_done s" and "\<not> ps_stop s"
    and "streams_ok par_cb" and "same_listings cb par_cb"
    and "root_specs roots st = [spec]" and "read_tree n cb spec = Some t"
    and "length (preorder t) + 2 * k < 2 ^ 64" and "p \<noteq> Serial"
  shows "collect (read_dir_iter_next cb arrived_world)
           (dir_entry_iter_new roots p True m st max_size (ps_sent s, 0)) = Some (emit m roots [t])"
proof -
  obtain t' where t': "read_tree n (full_result par_cb) spec = Some t'"
    and len: "length (preorder t') = length (preorder t)" and e: "emit m roots [t'] = emit m roots [t]"
    using assms(5) [unfolded same_listings_comp] assms(7) by (rule forget_streamed_tree)
  have sent: "mset (ps_sent s) = mset (label (index_path_new [0]) t')"
    using reachable_sent_all [OF assms(1,4) t' _ assms(2,3)] assms(8) len by simp
  have "has_tree (full_result par_cb) spec t'" using t' by (auto simp: has_tree_def)
  from consume_sent [OF assms(6) this assms(9) sent, of cb m max_size] e show ?thesis by simp
qed

section \<open>A whole walk on a platform\<close>

text \<open>From the contract of a reader to walks: what holds on Linux and on Windows alike.\<close>

context dir_reader
begin

lemma closures_same_listings:
  assumes "stable s" and "streaming_safe opts"
  shows "same_listings (serial_closure cfg fs read opts s) (streaming_closure cfg fs read opts s)"
  unfolding same_listings_def
proof
  fix spec
  show "forget_streamed (serial_closure cfg fs read opts s spec) =
      forget_streamed (full_result (streaming_closure cfg fs read opts s) spec)"
    unfolding closures_same_result [OF assms]
    by (cases "serial_closure cfg fs read opts s spec") simp_all
qed

lemma whole_parallel_walk:
  assumes "stable st" and "streaming_safe (wd_options self)"
    and "par_reachable (streaming_closure cfg fs read (wd_options self) st) cap (par_init k spec) s"
    and "ps_done s" and "\<not> ps_stop s"
    and "root_results pf fs dflt self = (rst, roots)" and "root_specs roots rst = [spec]"
    and "read_tree n (serial_closure cfg fs read (wd_options self) st) spec = Some t"
    and "length (preorder t) + 2 * k < 2 ^ 64" and "opt_parallelism (wd_options self) \<noteq> Serial"
  shows "collect (read_dir_iter_next (serial_closure cfg fs read (wd_options self) st) arrived_world)
           (walk_into_iter pf fs dflt self True (ps_sent s, 0)) =
         Some (emit (opt_min_depth (wd_options self)) roots [t])"
  by (simp add: walk_into_iter_def assms(6) parallel_execution [OF assms(3-5)
        streaming_closure_ok [OF assms(1,2)] closures_same_listings [OF assms(1,2)] assms(7-10)])

lemma whole_serial_walk:
  assumes "root_results pf fs dflt self = (rst, roots)" and "root_specs roots rst = [spec]"
    and "read_tree n (serial_closure cfg fs read (wd_options self) st) spec = Some t"
  shows "collect (read_dir_iter_next (serial_closure cfg fs read (wd_options self) st) arrived_world)
           (walk_into_iter pf fs dflt (set_parallelism Serial self) True ([], 0)) =
         Some (emit (opt_min_depth (wd_options self)) roots [t])"
proof -
  let ?cb = "serial_closure cfg fs read (wd_options self) st"
  have tree: "has_tree ?cb spec t" using assms(3) by (auto simp: has_tree_def)
  have "root_results pf fs dflt (set_parallelism Serial self) = root_results pf fs dflt self"
    by (cases "opt_process_read_dir (wd_options self)")
      (simp_all add: root_results_def root_entry_def setter_defs Let_def)
  then have "root_results pf fs dflt (self\<lparr>wd_options := (wd_options self)\<lparr>opt_parallelism := Serial\<rparr>\<rparr>) = (rst, roots)"
    using assms(1) by (simp add: setter_defs)
  then show ?thesis by (simp add: walk_into_iter_def setter_defs serial_run [OF assms(2) tree])
qed

lemma whole_walk:
  assumes "stable st" and "streaming_safe (wd_options self)"
    and "par_reachable (streaming_closure cfg fs read (wd_options self) st) cap (par_init k spec) s"
    and "ps_done s" and "\<not> ps_stop s"
    and "root_results pf fs dflt self = (rst, roots)" and "root_specs roots rst = [spec]"
    and "read_tree n (serial_closure cfg fs read (wd_options self) st) spec = Some t"
    and "length (preorder t) + 2 * k < 2 ^ 64" and "opt_parallelism (wd_options self) \<noteq> Serial"
  shows "collect (read_dir_iter_next (serial_closure cfg fs read (wd_options self) st) arrived_world)
           (walk_into_iter pf fs dflt self True (ps_sent s, 0)) =
         collect (read_dir_iter_next (serial_closure cfg fs read (wd_options self) st) arrived_world)
           (walk_into_iter pf fs dflt (set_parallelism Serial self) True ([], 0))"
  unfolding whole_parallel_walk [OF assms] whole_serial_walk [OF assms(6-8)] ..

text \<open>A fair walk finishes, and what its workers have sent then is yielded in the serial order.\<close>

lemma fair_whole_walk:
  assumes "stable st" and "streaming_safe (wd_options self)"
    and "r 0 = par_init k spec" and "0 < k"
    and "par_execution (streaming_closure cfg fs read (wd_options self) st) cap r"
    and "\<And>i. i < k \<Longrightarrow> fair_thread (streaming_closure cfg fs read (wd_options self) st) cap r i"
    and "root_results pf fs dflt self = (rst, roots)" and "root_specs roots rst = [spec]"
    and "read_tree n (serial_closure cfg fs read (wd_options self) st) spec = Some t" and "length (preorder t) \<le> cap"
    and "length (preorder t) + 2 * k < 2 ^ 64" and "opt_parallelism (wd_options self) \<noteq> Serial"
  shows "\<exists>m. ps_done (r m) \<and> ps_pcs (r m) = replicate k Exited \<and>
    collect (read_dir_iter_next (serial_closure cfg fs read (wd_options self) st) arrived_world)
      (walk_into_iter pf fs dflt self True (ps_sent (r m), 0)) =
    collect (read_dir_iter_next (serial_closure cfg fs read (wd_options self) st) arrived_world)
      (walk_into_iter pf fs dflt (set_parallelism Serial self) True ([], 0))"
proof -
  let ?par = "streaming_closure cfg fs read (wd_options self) st"
  obtain t' where t': "read_tree n (full_result ?par) spec = Some t'" and len: "length (preorder t') = length (preorder t)"
    using closures_same_listings [OF assms(1,2), unfolded same_listings_comp] assms(9) by (rule forget_streamed_tree)
  have size: "length (preorder t') \<le> cap" "length (preorder t') + 2 * k < 2 ^ 64" using assms(10,11) len by simp_all
  obtain m where m: "ps_done (r m)" "ps_pcs (r m) = replicate k Exited"
    using fair_walk [of r k spec ?par cap n t', OF assms(3-6) streaming_closure_ok [OF assms(1,2)] t' size] by blast
  have "par_reachable ?par cap (par_init k spec) (r m)" "\<not> ps_stop (r m)"
    using execution_reachable [OF assms(5), of m] assms(3,5) by (simp_all add: par_execution_def)
  with m whole_walk [OF assms(1,2) _ m(1) _ assms(7-9,11,12)] show ?thesis by blast
qed

end

end
