(* ===== verification/Client_State.thy ===== *)
theory Client_State
  imports Whole_Walk
begin

text \<open>
  What the client's \<open>process_read_dir\<close> callback sees and what becomes of it: every entry it is given carries the
  default client state, and every entry a walk yields has passed through it. The locale \<open>client_reader\<close> states
  this of a reader; it is interpreted on both readers of the crate.
\<close>

definition all_entries :: "('d dir_entry \<Rightarrow> bool) \<Rightarrow> 'd entry_result list \<Rightarrow> bool" where
  "all_entries P rs \<longleftrightarrow> (\<forall>e. Inr e \<in> set rs \<longrightarrow> P e)"

abbreviation fresh_entries :: "'d \<Rightarrow> 'd entry_result list \<Rightarrow> bool" where
  "fresh_entries dflt \<equiv> all_entries (\<lambda>e. de_client_state e = dflt)"

lemma all_entries_simps [simp]:
  "all_entries P []" "all_entries P (Inl err # rs) = all_entries P rs"
  "all_entries P (Inr e # rs) \<longleftrightarrow> P e \<and> all_entries P rs"
  "all_entries P (rs @ rs') \<longleftrightarrow> all_entries P rs \<and> all_entries P rs'"
  by (auto simp: all_entries_def)

lemma all_entries_map:
  "(\<And>e. Inr e \<in> set rs \<Longrightarrow> P (f e)) \<Longrightarrow> all_entries P (map (map_sum id f) rs)"
proof (induction rs)
  case (Cons r rs)
  then show ?case by (cases r) simp_all
qed simp

section \<open>Entries of a walk\<close>

text \<open>A property of entries that does not look at the attached error holds of all a walk yields.\<close>

lemma emit_all_entries:
  assumes "\<And>e err. P e \<Longrightarrow> P (e\<lparr>de_read_children_error := err\<rparr>)"
    and "all_entries P rs"
    and "\<And>t rd. t \<in> set ts \<Longrightarrow> Inr rd \<in> set (preorder t) \<Longrightarrow> all_entries P (results_list rd)"
  shows "all_entries P (emit m rs ts)"
  using assms(2,3)
proof (induction m rs ts rule: emit.induct)
  case (3 m x rs ts)
  have keep: "all_entries P (keep_deep m y)" if "P y" for y using that by (simp add: keep_deep_def)
  show ?case
  proof (cases "de_read_children_path x = None")
    case True
    with 3 keep show ?thesis by simp
  next
    case False
    show ?thesis
    proof (cases ts)
      case Nil
      with False 3 keep assms(1) show ?thesis by simp
    next
      case (Cons t us)
      obtain r kids where t: "t = ONode r kids" by (cases t)
      have us: "all_entries P (emit m rs us)"
        using "3.IH"(3,5) [OF False Cons] "3.prems" Cons t by (cases r) auto
      show ?thesis
      proof (cases r)
        case (Inl err)
        then show ?thesis using False Cons t us keep assms(1) "3.prems"(1) by auto
      next
        case (Inr rd)
        then have "all_entries P (results_list rd)" using "3.prems"(2) [of t rd] Cons t by simp
        moreover have "all_entries P (results_list rd')" if "u \<in> set kids" "Inr rd' \<in> set (preorder u)" for u rd'
          using "3.prems"(2) [of t rd'] that Cons t by auto
        ultimately have "all_entries P (emit m (results_list rd) kids)"
          using "3.IH"(4) [OF False Cons, of rd] Inr t by simp
        then show ?thesis using False Cons t us keep "3.prems"(1) Inr by auto
      qed
    qed
  qed
qed simp_all

section \<open>The contract of a reader with a client\<close>

locale client_reader = dir_reader cfg fs read stable
  for cfg :: target and fs :: fs_ops and read :: "('d, 'r, 's, 'r recorded) reader" and stable :: "'s \<Rightarrow> bool" +
  fixes dflt :: 'd
  assumes read_processed: "read args ctx s q = Some (Inr rd, s', q') \<Longrightarrow> ra_process_read_dir args = Some f \<Longrightarrow>
      \<exists>results st. fresh_entries dflt results \<and>
        f (Some (ra_read_dir_depth args)) (ra_path args) (ra_client_read_state args) results = (st, results_list rd)"
begin

text \<open>What the callback makes of entries in the default state.\<close>

definition callback_gives :: "('d, 'r) process_read_dir_function \<Rightarrow> ('d dir_entry \<Rightarrow> bool) \<Rightarrow> bool" where
  "callback_gives f P \<longleftrightarrow>
     (\<forall>depth p st results. fresh_entries dflt results \<longrightarrow> all_entries P (snd (f depth p st results)))"

lemma closure_processed:
  assumes "opt_process_read_dir opts = Some f" and "callback_gives f P"
    and "serial_closure cfg fs read opts s spec = Inr rd"
  shows "all_entries P (results_list rd)"
proof -
  obtain s' q' where "core_read_dir_callback cfg fs read opts spec None s [] = Some (Inr rd, s', q')"
    using assms(3) by (auto simp: serial_closure_def split: option.splits)
  then show ?thesis
  proof (cases rule: core_read_dir_callback_cases)
    case Beyond
    then show ?thesis by (simp add: read_dir_new_def)
  next
    case (Read ctx1 s1 q1)
    from read_processed [OF Read(2)] assms(1) obtain results st where "fresh_entries dflt results"
      "f (Some (ra_read_dir_depth (callback_args cfg fs opts spec))) (spec_path spec)
         (ra_client_read_state (callback_args cfg fs opts spec)) results = (st, results_list rd)" by auto
    with assms(2) show ?thesis unfolding callback_gives_def by (metis snd_conv)
  qed
qed

lemma walk_processed:
  assumes "opt_process_read_dir opts = Some f" and "callback_gives f P"
    and "\<And>e err. P e \<Longrightarrow> P (e\<lparr>de_read_children_error := err\<rparr>)"
    and "all_entries P roots" and "has_tree (serial_closure cfg fs read opts s) spec t"
  shows "all_entries P (emit m roots [t])"
proof (rule emit_all_entries [OF assms(3,4)])
  fix u rd assume "u \<in> set [t]" "Inr rd \<in> set (preorder u)"
  then obtain spec' where "serial_closure cfg fs read opts s spec' = Inr rd"
    using has_tree_values [OF assms(5), of "Inr rd"] by auto
  with assms(1,2) show "all_entries P (results_list rd)" by (rule closure_processed)
qed

end

section \<open>Both readers keep it\<close>

lemma from_path_client: "from_path_on pf fs dflt d p rm rx fl as = Inr e \<Longrightarrow> de_client_state e = dflt"
  by (auto simp: from_path_on_def split: sum.splits)

lemma follow_symlink_client: "follow_symlink_on pf fs dflt e = Inr x \<Longrightarrow> de_client_state x = dflt"
  unfolding follow_symlink_on_def Let_def
  by (auto split: sum.splits if_split_asm option.splits dest: from_path_client)

lemma process_keeps_client:
  assumes "process_dir_entry_result_on pf fs dflt (Inr e) fl = Inr e'" and "de_client_state e = dflt"
  shows "de_client_state e' = dflt"
  using assms unfolding process_dir_entry_result_on_def
  by (simp split: sum.splits if_split_asm) (auto dest: follow_symlink_client)

lemma root_entry_fresh: "fresh_entries dflt [process_dir_entry_result_on pf fs dflt (root_entry pf fs dflt self) fl]"
proof (cases "root_entry pf fs dflt self")
  case (Inr e)
  then have "de_client_state e = dflt" by (auto simp: root_entry_def Let_def dest: from_path_client)
  then show ?thesis using process_keeps_client [of pf fs dflt e fl] Inr by (auto simp: all_entries_def)
qed (simp add: process_dir_entry_result_on_def)

lemma root_results_processed:
  assumes "opt_process_read_dir (wd_options self) = Some f"
    and "\<And>depth p st results. fresh_entries dflt results \<Longrightarrow> all_entries P (snd (f depth p st results))"
    and "root_results pf fs dflt self = (rst, roots)"
  shows "all_entries P roots"
  using assms(2) [OF root_entry_fresh] assms(1,3) unfolding root_results_def Let_def by (metis option.simps(5) snd_conv)

lemma linux_entry_results_fresh: "fresh_entries dflt (linux_entry_results ops dflt args fd es)"
  unfolding all_entries_def
proof (intro allI impI)
  fix e assume "Inr e \<in> set (linux_entry_results ops dflt args fd es)"
  then obtain info where "(case make_dir_entry_linux ops dflt info (ra_contents_depth args)
        (ra_path args) (ra_read_metadata args) (ra_read_metadata_ext args) fd (ra_ancestors args) of
          Inr e \<Rightarrow> Some (process_dir_entry_result (lo_fs ops) dflt (Inr e) (ra_follow_links args))
        | Inl err \<Rightarrow> Some (Inl err)) = Some (Inr e)"
    by (auto simp: linux_entry_results_def List.map_filter_def split: if_splits)
  then show "de_client_state e = dflt"
    by (auto simp: make_dir_entry_linux_def from_raw_on_def Let_def intro: process_keeps_client)
qed

lemma legacy_entry_fresh: "legacy_entry fs dflt args r = Some (Inr e) \<Longrightarrow> de_client_state e = dflt"
proof -
  have "de_client_state x = dflt" if "from_entry dflt d p md mx i as = Inr x" for d p md mx i as x
    using that by (auto simp: from_entry_def split: sum.splits)
  then show "legacy_entry fs dflt args r = Some (Inr e) \<Longrightarrow> ?thesis"
    by (auto simp: legacy_entry_def Let_def split: sum.splits if_splits option.splits dest!: process_keeps_client)
qed

lemma sorted_fresh: "fresh_entries dflt rs \<Longrightarrow> fresh_entries dflt (sort_dir_entries_by_name rs)"
  by (simp add: all_entries_def sort_dir_entries_by_name_def)

lemma finish_processed:
  assumes "fresh_entries dflt results" and "ra_process_read_dir args = Some f"
  shows "\<exists>results' st. fresh_entries dflt results' \<and>
    f (Some (ra_read_dir_depth args)) (ra_path args) (ra_client_read_state args) results' = (st, snd (finish_results args results))"
  using assms sorted_fresh [OF assms(1)]
  by (intro exI [of _ "if ra_sort args then sort_dir_entries_by_name results else results"]
      exI [of _ "fst (finish_results args results)"]) (simp add: finish_results_def)

lemma read_dir_unix_processed:
  assumes "read_dir_unix ops dflt args ctx s q = Some (Inr rd, s', q')" and "ra_process_read_dir args = Some f"
  shows "\<exists>results st. fresh_entries dflt results \<and>
    f (Some (ra_read_dir_depth args)) (ra_path args) (ra_client_read_state args) results = (st, results_list rd)"
proof -
  have "\<exists>rs. fresh_entries dflt rs \<and> results_list rd = snd (finish_results args rs)"
  proof (cases "lo_legacy ops")
    case True
    with assms(1) obtain listing where
      rd: "results_list rd = snd (finish_results args (List.map_filter (legacy_entry (lo_fs ops) dflt args) listing))"
      by (auto simp: read_dir_unix_def read_dir_unix_fs_legacy_def read_dir_new_def Let_def case_prod_unfold
          split: sum.splits)
    have "fresh_entries dflt (List.map_filter (legacy_entry (lo_fs ops) dflt args) listing)"
      by (auto simp: all_entries_def List.map_filter_def dest!: legacy_entry_fresh)
    with rd show ?thesis by blast
  next
    case False
    with assms obtain fd es n s1 where "linux_read_dir ops dflt args fd es n s1 = (rd, s')"
      unfolding read_dir_unix_def read_dir_linux_via_getdents_def Let_def
      by (auto split: option.splits prod.splits sum.splits if_splits)
    then have "results_list rd = snd (finish_results args
        (linux_entry_results ops dflt args fd (fst (prefetch_statx ops args fd es s1))))"
      by (auto simp: linux_read_dir_def read_dir_new_def Let_def case_prod_unfold)
    then show ?thesis
      using linux_entry_results_fresh [of dflt ops args fd "fst (prefetch_statx ops args fd es s1)"] by blast
  qed
  then show ?thesis using finish_processed [OF _ assms(2)] by metis
qed

interpretation linux_client: client_reader Unix "lo_fs ops" "read_dir_unix ops dflt" "stable_fs ops" dflt
  for ops dflt
  by unfold_locales (rule read_dir_unix_processed)

lemma windows_entry_results_fresh: "fresh_entries dflt (windows_entry_results ops dflt args es)"
  unfolding all_entries_def
proof (intro allI impI)
  fix e assume "Inr e \<in> set (windows_entry_results ops dflt args es)"
  then obtain info where "(case make_dir_entry ops dflt info (ra_contents_depth args) (ra_path args)
        (ra_read_metadata args) (ra_read_metadata_ext args) (ra_read_hardlink_info args) (ra_ancestors args) of
          Inr e \<Rightarrow> Some (process_dir_entry_result_on (wo_platform ops) (wo_fs ops) dflt (Inr e) (ra_follow_links args))
        | Inl err \<Rightarrow> Some (Inl err)) = Some (Inr e)"
    by (auto simp: windows_entry_results_def List.map_filter_def split: if_splits)
  then show "de_client_state e = dflt"
    by (auto simp: make_dir_entry_def from_raw_on_def Let_def intro: process_keeps_client)
qed

lemma read_dir_windows_processed:
  assumes "read_dir_windows ops dflt args ctx s q = Some (Inr rd, s', q')" and "ra_process_read_dir args = Some f"
  shows "\<exists>results st. fresh_entries dflt results \<and>
    f (Some (ra_read_dir_depth args)) (ra_path args) (ra_client_read_state args) results = (st, results_list rd)"
proof -
  obtain h es n where "rd = windows_read_dir ops dflt args h es n"
    using assms unfolding read_dir_windows_def Let_def
    by (auto split: option.splits prod.splits sum.splits if_splits)
  then have "results_list rd =
      snd (finish_results args (windows_entry_results ops dflt args (fill_hardlink_info ops args h es)))"
    by (simp add: windows_read_dir_def read_dir_new_def Let_def case_prod_unfold)
  then show ?thesis using finish_processed [OF windows_entry_results_fresh assms(2)] by metis
qed

interpretation windows_client: client_reader Windows "wo_fs ops" "read_dir_windows ops dflt" "stable_nt ops" dflt
  for ops dflt
  by unfold_locales (rule read_dir_windows_processed)

end
