(* ===== verification/Examples.thy ===== *)
theory Examples
  imports Client_State
begin

text \<open>
  The programs under \<open>examples/\<close> that walk a tree with the crate: \<open>du.rs\<close>, \<open>scan_bench.rs\<close>, \<open>scan_bench_ext.rs\<close>,
  \<open>scan_unix.rs\<close>, \<open>smb_enum_bench.rs\<close>, \<open>debug_hang.rs\<close>, and the file types of \<open>test_ft.rs\<close>. A loop over a walk takes the list
  of the results that the walk yields; the readings of the clock are an argument, in microseconds. The type of
  existing pools, which no example uses, is \<open>unit\<close>.
\<close>

section \<open>\<open>du.rs\<close>\<close>

text \<open>The length of a file, zero if its metadata cannot be read.\<close>

definition du_len :: "platform \<Rightarrow> fs_ops \<Rightarrow> 'd dir_entry \<Rightarrow> u64" where
  "du_len pf fs e = (case de_fs_metadata_on pf fs e of Inr m \<Rightarrow> fm_len m | Inl _ \<Rightarrow> 0)"

definition du_mark :: "platform \<Rightarrow> fs_ops \<Rightarrow> u64 option dir_entry \<Rightarrow> u64 option dir_entry" where
  "du_mark pf fs e =
     (if \<not> ft_is_dir (de_file_type e) then e\<lparr>de_client_state := Some (du_len pf fs e)\<rparr> else e)"

definition du_process :: "platform \<Rightarrow> fs_ops \<Rightarrow> (u64 option, unit) process_read_dir_function" where
  "du_process pf fs depth p st dir_entry_results =
     (st, map (map_sum id (du_mark pf fs)) dir_entry_results)"

definition du_walk :: "platform \<Rightarrow> fs_ops \<Rightarrow> path option \<Rightarrow> (unit, u64 option, unit) walk_dir" where
  "du_walk pf fs arg =
     (let p = (case arg of Some p \<Rightarrow> p | None \<Rightarrow> [46, 47]) in
      set_process_read_dir (du_process pf fs)
        (set_parallelism (RayonNewPool 4) (set_skip_hidden False (walk_dir_new () p))))"

text \<open>The total is a \<open>u64\<close>; it wraps in a release build.\<close>

fun du_count :: "u64 option entry_result \<Rightarrow> u64 \<Rightarrow> u64" where
  "du_count (Inr dir_entry) n =
     (case de_client_state dir_entry of Some len \<Rightarrow> n + len | None \<Rightarrow> n)"
| "du_count (Inl error) n = n"

definition du_total :: "u64 option entry_result list \<Rightarrow> u64" where
  "du_total results = fold du_count results 0"

section \<open>Counting scans\<close>

record scan_counts =
  total_entries :: usize
  total_dirs :: usize
  total_files :: usize
  total_errors :: usize

definition scan_counts_zero :: scan_counts where
  "scan_counts_zero = \<lparr>total_entries = 0, total_dirs = 0, total_files = 0, total_errors = 0\<rparr>"

fun scan_count :: "'d entry_result \<Rightarrow> scan_counts \<Rightarrow> scan_counts" where
  "scan_count (Inr e) c =
     (if ft_is_dir (de_file_type e)
      then c\<lparr>total_entries := total_entries c + 1, total_dirs := total_dirs c + 1\<rparr>
      else c\<lparr>total_entries := total_entries c + 1, total_files := total_files c + 1\<rparr>)"
| "scan_count (Inl err) c = c\<lparr>total_errors := total_errors c + 1\<rparr>"

text \<open>
  The loop of \<open>scan_bench.rs\<close> and \<open>scan_unix.rs\<close>: the first ten errors are printed, and a line of progress whenever a second
  has passed since the last one. Each iteration reads the clock once, after counting.
\<close>

datatype scan_line = ErrorLine error | ProgressLine nat scan_counts

record scan_state =
  ss_counts :: scan_counts
  ss_last_log :: nat
  ss_lines :: "scan_line list"

definition LOG_INTERVAL :: nat where "LOG_INTERVAL = 1000000"

definition scan_step :: "nat \<Rightarrow> nat \<Rightarrow> 'd entry_result \<Rightarrow> scan_state \<Rightarrow> scan_state" where
  "scan_step start now entry s =
     (let c = scan_count entry (ss_counts s);
          shown = (case entry of Inl ee \<Rightarrow> if total_errors c \<le> 10 then [ErrorLine ee] else [] | Inr _ \<Rightarrow> [])
      in if LOG_INTERVAL \<le> now - ss_last_log s
         then \<lparr>ss_counts = c, ss_last_log = now, ss_lines = ss_lines s @ shown @ [ProgressLine (now - start) c]\<rparr>
         else \<lparr>ss_counts = c, ss_last_log = ss_last_log s, ss_lines = ss_lines s @ shown\<rparr>)"

fun scan_loop :: "nat \<Rightarrow> (nat \<times> 'd entry_result) list \<Rightarrow> scan_state \<Rightarrow> scan_state" where
  "scan_loop start [] s = s"
| "scan_loop start ((now, entry) # rest) s = scan_loop start rest (scan_step start now entry s)"

definition scan_start :: "nat \<Rightarrow> scan_state" where
  "scan_start now = \<lparr>ss_counts = scan_counts_zero, ss_last_log = now, ss_lines = []\<rparr>"

text \<open>\<open>scan_unix.rs\<close>: its arguments, the first being the program, and the walk.\<close>

definition scan_unix_args :: "u8 list list \<Rightarrow> bool \<times> path" where
  "scan_unix_args args =
     (list_ex (\<lambda>a. a = map of_nat (ascii ''--metadata'') \<or> a = map of_nat (ascii ''-m'')) args,
      case List.find (\<lambda>a. take 1 a \<noteq> [45]) (drop 1 args) of Some p \<Rightarrow> p | None \<Rightarrow> [46])"

definition scan_unix_walk :: "path \<Rightarrow> bool \<Rightarrow> (unit, unit, unit) walk_dir" where
  "scan_unix_walk p metadata =
     (let walker = walk_dir_new () p in if metadata then set_read_metadata True walker else walker)"

text \<open>
  \<open>run_scan\<close>: \<open>walk\<close> drives a walk to its end and reads the clock after each result; the clock is also read for \<open>start\<close> and \<open>last_log\<close>.
\<close>

definition run_scan :: "((unit, unit, unit) walk_dir \<Rightarrow> (nat \<times> unit entry_result) list) \<Rightarrow> nat \<Rightarrow> nat \<Rightarrow>
    path \<Rightarrow> bool \<Rightarrow> scan_state" where
  "run_scan walk start last_log p metadata =
     scan_loop start (walk (scan_unix_walk p metadata)) (scan_start last_log)"

text \<open>
  The sequential comparison of \<open>scan_bench.rs\<close> over \<open>std::fs\<close>: \<open>ls\<close> is \<open>read_dir\<close>, \<open>isd\<close> is \<open>Path::is_dir\<close>, which follows links;
  the recursion takes fuel.
\<close>

fun walk_std :: "nat \<Rightarrow> (path \<Rightarrow> (io_error + path) list option) \<Rightarrow> (path \<Rightarrow> bool) \<Rightarrow> path \<Rightarrow>
    usize \<times> usize \<Rightarrow> (usize \<times> usize) option" where
  "walk_std 0 ls isd p counts = None"
| "walk_std (Suc n) ls isd p counts =
     (case ls p of
        None \<Rightarrow> Some counts
      | Some read_dir \<Rightarrow>
          fold (\<lambda>entry acc. case acc of
              None \<Rightarrow> None
            | Some (entries, errors) \<Rightarrow>
                (case entry of
                   Inr q \<Rightarrow> if isd q then walk_std n ls isd q (entries + 1, errors) else Some (entries + 1, errors)
                 | Inl _ \<Rightarrow> Some (entries, errors + 1))) read_dir (Some counts))"

text \<open>
  \<open>main\<close> of \<open>scan_bench.rs\<close>: the scan, a second one that only counts results, and the sequential comparison unless the first
  scan took thirty seconds. \<open>finish\<close> is the reading of the clock after the first scan.
\<close>

definition scan_bench_main :: "((unit, unit, unit) walk_dir \<Rightarrow> (nat \<times> unit entry_result) list) \<Rightarrow>
    ((unit, unit, unit) walk_dir \<Rightarrow> unit entry_result list) \<Rightarrow>
    nat \<Rightarrow> (path \<Rightarrow> (io_error + path) list option) \<Rightarrow> (path \<Rightarrow> bool) \<Rightarrow> nat \<Rightarrow> nat \<Rightarrow> nat \<Rightarrow> path \<Rightarrow>
    scan_state \<times> usize \<times> (usize \<times> usize) option option" where
  "scan_bench_main cold warm fuel ls isd start last_log finish p =
     (scan_loop start (cold (walk_dir_new () p)) (scan_start last_log),
      length (warm (walk_dir_new () p)),
      if (finish - start) div 1000000 < 30 then Some (walk_std fuel ls isd p (0, 0)) else None)"

text \<open>\<open>scan_bench_ext.rs\<close>: three walks and their counts.\<close>

fun count_results :: "'d entry_result list \<Rightarrow> usize \<times> usize" where
  "count_results [] = (0, 0)"
| "count_results (r # rs) =
     (case count_results rs of (entries, errors) \<Rightarrow>
      case r of Inr _ \<Rightarrow> (entries + 1, errors) | Inl _ \<Rightarrow> (entries, errors + 1))"

definition scan_base_walk :: "path \<Rightarrow> (unit, unit, unit) walk_dir" where
  "scan_base_walk p = walk_dir_new () p"

definition scan_ext_walk :: "path \<Rightarrow> (unit, unit, unit) walk_dir" where
  "scan_ext_walk p = set_read_metadata_ext True (walk_dir_new () p)"

definition scan_ext_hardlink_walk :: "path \<Rightarrow> (unit, unit, unit) walk_dir" where
  "scan_ext_hardlink_walk p = set_read_hardlink_info True (set_read_metadata_ext True (walk_dir_new () p))"

fun has_nlink :: "meta_data_ext \<Rightarrow> bool" where
  "has_nlink (WinExt ext) \<longleftrightarrow> ext_number_of_links ext \<noteq> None"
| "has_nlink (UnixExt ext) \<longleftrightarrow> 0 < ext_st_nlink ext"

definition count_with_nlink :: "'d entry_result list \<Rightarrow> usize" where
  "count_with_nlink rs =
     length (filter (\<lambda>r. case r of
        Inr e \<Rightarrow> (case de_metadata_ext e of Some ext \<Rightarrow> has_nlink ext | None \<Rightarrow> False) | Inl _ \<Rightarrow> False) rs)"

text \<open>The three scans, over a function that drives a walk to its end.\<close>

definition scan_base :: "((unit, unit, unit) walk_dir \<Rightarrow> unit entry_result list) \<Rightarrow> path \<Rightarrow> usize \<times> usize" where
  "scan_base walk p = count_results (walk (scan_base_walk p))"

definition scan_ext :: "((unit, unit, unit) walk_dir \<Rightarrow> unit entry_result list) \<Rightarrow> path \<Rightarrow> usize \<times> usize" where
  "scan_ext walk p = count_results (walk (scan_ext_walk p))"

definition scan_ext_hardlink :: "((unit, unit, unit) walk_dir \<Rightarrow> unit entry_result list) \<Rightarrow> path \<Rightarrow>
    (usize \<times> usize) \<times> usize" where
  "scan_ext_hardlink walk p =
     (let rs = walk (scan_ext_hardlink_walk p) in (count_results rs, count_with_nlink rs))"

text \<open>\<open>smb_enum_bench.rs\<close>: one directory.\<close>

definition smb_enum_walk :: "path \<Rightarrow> (unit, unit, unit) walk_dir" where
  "smb_enum_walk p = set_max_depth 1 (walk_dir_new () p)"

definition smb_enum_counts :: "'d entry_result list \<Rightarrow> scan_counts" where
  "smb_enum_counts rs = fold scan_count rs scan_counts_zero"

text \<open>
  \<open>debug_hang.rs\<close>: the loop stops at the end of the walk or at the first reading of the clock above 300 seconds;
  the number of results it has counted, the numbers of the results it prints, and whether it stopped because of the time.
\<close>

fun debug_loop :: "nat \<Rightarrow> (nat \<times> 'd entry_result) list \<Rightarrow> usize \<Rightarrow> usize \<times> usize list \<times> bool" where
  "debug_loop start [] counter = (counter, [], False)"
| "debug_loop start ((now, r) # rest) counter =
     (let c = counter + 1;
          shown = (case r of
             Inr _ \<Rightarrow> if c \<le> 5 \<or> c mod 1000 = 0 then [c] else []
           | Inl _ \<Rightarrow> if c \<le> 10 then [c] else [])
      in if 300 < (now - start) div 1000000 then (c, shown, True)
         else case debug_loop start rest c of (n, shown', timeout) \<Rightarrow> (n, shown @ shown', timeout))"

text \<open>\<open>test_ft.rs\<close>: the two bytes of a \<open>FileType\<close> on Windows, and what \<open>transmute\<close> makes of them.\<close>

definition file_type_bits :: "u32 \<Rightarrow> u16" where
  "file_type_bits attrs =
     (let is_dir = (attrs AND 0x10 \<noteq> 0); is_sym = (attrs AND 0x400 \<noteq> 0)
      in of_bool is_dir OR push_bit 8 (of_bool is_sym))"

definition transmute_file_type :: "u16 \<Rightarrow> file_type" where
  "transmute_file_type bits = WinFileType (bits AND 0xFF \<noteq> 0) (drop_bit 8 bits \<noteq> 0)"

section \<open>The total of \<open>du\<close>\<close>

text \<open>What every entry of the walk carries after the callback.\<close>

definition du_marked :: "platform \<Rightarrow> fs_ops \<Rightarrow> u64 option dir_entry \<Rightarrow> bool" where
  "du_marked pf fs e \<longleftrightarrow>
     de_client_state e = (if ft_is_dir (de_file_type e) then None else Some (du_len pf fs e))"

definition walk_files :: "'d entry_result list \<Rightarrow> 'd dir_entry list" where
  "walk_files rs = filter (\<lambda>e. \<not> ft_is_dir (de_file_type e)) (List.map_filter result_ok rs)"

lemma du_len_update [simp]:
  "du_len pf fs (e\<lparr>de_client_state := x\<rparr>) = du_len pf fs e"
  "du_len pf fs (e\<lparr>de_read_children_error := err\<rparr>) = du_len pf fs e"
proof -
  have "error_from_entry_on pf (e\<lparr>de_client_state := x\<rparr>) = error_from_entry_on pf e"
    "error_from_entry_on pf (e\<lparr>de_read_children_error := err\<rparr>) = error_from_entry_on pf e"
    by (simp_all add: fun_eq_iff error_from_entry_on_def de_path_on_def)
  then show "du_len pf fs (e\<lparr>de_client_state := x\<rparr>) = du_len pf fs e"
    "du_len pf fs (e\<lparr>de_read_children_error := err\<rparr>) = du_len pf fs e"
    by (simp_all add: du_len_def de_fs_metadata_on_def de_path_on_def)
qed

lemma du_process_marks:
  "fresh_entries None results \<Longrightarrow> all_entries (du_marked pf fs) (snd (du_process pf fs depth p st results))"
  unfolding du_process_def snd_conv
  by (rule all_entries_map) (auto simp: all_entries_def du_mark_def du_marked_def)

lemma du_marked_error: "du_marked pf fs e \<Longrightarrow> du_marked pf fs (e\<lparr>de_read_children_error := err\<rparr>)"
  by (simp add: du_marked_def)

lemma fold_du_count:
  "all_entries (du_marked pf fs) rs \<Longrightarrow> fold du_count rs n = n + sum_list (map (du_len pf fs) (walk_files rs))"
proof (induction rs arbitrary: n)
  case (Cons r rs)
  then show ?case
    by (cases r) (simp_all add: walk_files_def List.map_filter_simps du_marked_def add.assoc)
qed (simp add: walk_files_def List.map_filter_simps)

lemma unat_sum_list_u64:
  "sum_list (map unat ws) < 2 ^ 64 \<Longrightarrow> unat (sum_list (ws :: u64 list)) = sum_list (map unat ws)"
proof (induction ws)
  case (Cons w ws)
  then have "unat (sum_list ws) = sum_list (map unat ws)" by simp
  with Cons.prems show ?case by (simp add: unat_word_ariths)
qed simp

lemma du_walk_options:
  "opt_process_read_dir (wd_options (du_walk pf fs arg)) = Some (du_process pf fs)"
  "opt_parallelism (wd_options (du_walk pf fs arg)) = RayonNewPool 4"
  "opt_min_depth (wd_options (du_walk pf fs arg)) = 0" "streaming_safe (wd_options (du_walk pf fs arg))"
  "\<not> opt_follow_links (wd_options (du_walk pf fs arg))"
  by (simp_all add: du_walk_def setter_defs walk_dir_new_def streaming_safe_def Let_def)

section \<open>Counts, progress and time\<close>

lemma fold_scan_count:
  "total_entries (fold scan_count rs c) = total_entries c + length (List.map_filter result_ok rs)"
  "total_files (fold scan_count rs c) = total_files c + length (walk_files rs)"
  "total_errors (fold scan_count rs c) + length (List.map_filter result_ok rs) = total_errors c + length rs"
  "total_dirs c + total_files c = total_entries c \<Longrightarrow>
     total_dirs (fold scan_count rs c) + total_files (fold scan_count rs c) = total_entries (fold scan_count rs c)"
proof (induction rs arbitrary: c)
  case (Cons r rs)
  {
    case 1
    show ?case using Cons.IH(1) [of "scan_count r c"] by (cases r) (simp_all add: List.map_filter_simps)
  next
    case 2
    show ?case using Cons.IH(2) [of "scan_count r c"] by (cases r) (simp_all add: List.map_filter_simps walk_files_def)
  next
    case 3
    show ?case using Cons.IH(3) [of "scan_count r c"] by (cases r) (simp_all add: List.map_filter_simps)
  next
    case 4
    then show ?case using Cons.IH(4) [of "scan_count r c"] by (cases r) simp_all
  }
qed (simp_all add: List.map_filter_simps walk_files_def)

lemma scan_loop_counts: "ss_counts (scan_loop start xs s) = fold scan_count (map snd xs) (ss_counts s)"
proof (induction start xs s rule: scan_loop.induct)
  case (2 start now entry rest s)
  then show ?case by (simp add: scan_step_def Let_def)
qed simp

fun is_progress :: "scan_line \<Rightarrow> bool" where
  "is_progress (ProgressLine t c) = True"
| "is_progress (ErrorLine e) = False"

text \<open>Progress lines are at least a second apart, and as many errors are shown as there are, up to ten.\<close>

definition scan_lines_ok :: "nat \<Rightarrow> scan_state \<Rightarrow> bool" where
  "scan_lines_ok start s \<longleftrightarrow>
     length (filter is_progress (ss_lines s)) * LOG_INTERVAL \<le> ss_last_log s - start \<and> start \<le> ss_last_log s \<and>
     length (filter (\<lambda>l. \<not> is_progress l) (ss_lines s)) = min 10 (total_errors (ss_counts s))"

lemma scan_step_lines: "scan_lines_ok start s \<Longrightarrow> scan_lines_ok start (scan_step start now entry s)"
  by (cases entry) (auto simp: scan_lines_ok_def scan_step_def Let_def LOG_INTERVAL_def)

lemma scan_loop_lines: "scan_lines_ok start s \<Longrightarrow> scan_lines_ok start (scan_loop start xs s)"
  by (induction start xs s rule: scan_loop.induct) (simp_all add: scan_step_lines)

lemma scan_loop_last_log:
  "ss_last_log s \<le> b \<Longrightarrow> \<forall>(now, r) \<in> set xs. now \<le> b \<Longrightarrow> ss_last_log (scan_loop start xs s) \<le> b"
  by (induction start xs s rule: scan_loop.induct) (auto simp: scan_step_def Let_def)

lemma count_results_lengths:
  "count_results rs = (length (List.map_filter result_ok rs), length rs - length (List.map_filter result_ok rs))"
proof (induction rs)
  case (Cons r rs)
  have "length (List.map_filter result_ok rs) \<le> length rs" by (simp add: List.map_filter_def)
  with Cons show ?case by (cases r) (simp_all add: List.map_filter_simps Suc_diff_le)
qed (simp add: List.map_filter_simps)

text \<open>No more entries have a link count than there are entries.\<close>

lemma with_nlink_le_entries: "scan_ext_hardlink walk p = ((entries, errors), with_nlink) \<Longrightarrow> with_nlink \<le> entries"
proof -
  have "count_with_nlink rs \<le> length (List.map_filter result_ok rs)" for rs :: "unit entry_result list"
    by (induction rs) (auto simp: count_with_nlink_def List.map_filter_simps split: sum.splits)
  then show "scan_ext_hardlink walk p = ((entries, errors), with_nlink) \<Longrightarrow> with_nlink \<le> entries"
    by (auto simp: scan_ext_hardlink_def count_results_lengths Let_def)
qed

text \<open>The walk of a single directory is serial and does not descend.\<close>

lemma smb_enum_walk_options:
  "opt_max_depth (wd_options (smb_enum_walk p)) = 1" "opt_parallelism (wd_options (smb_enum_walk p)) = Serial"
  by (simp_all add: smb_enum_walk_def set_depths walk_dir_new_def)

text \<open>The sequential comparison returns when the directories below a path are bounded in depth.\<close>

lemma walk_std_returns:
  assumes "\<And>p es q. ls p = Some es \<Longrightarrow> Inr q \<in> set es \<Longrightarrow> isd q \<Longrightarrow> rank q < (rank p :: nat)"
  shows "rank p < n \<Longrightarrow> \<exists>r. walk_std n ls isd p counts = Some r"
proof (induction n arbitrary: p counts)
  case (Suc n)
  show ?case
  proof (cases "ls p")
    case (Some es)
    let ?f = "\<lambda>entry acc. case acc of
        None \<Rightarrow> None
      | Some (entries, errors) \<Rightarrow>
          (case entry of
             Inr q \<Rightarrow> if isd q then walk_std n ls isd q (entries + 1, errors) else Some (entries + 1, errors)
           | Inl _ \<Rightarrow> Some (entries, errors + 1))"
    have "\<exists>r. fold ?f xs (Some c) = Some r" if "set xs \<subseteq> set es" for xs c
      using that
    proof (induction xs arbitrary: c)
      case (Cons x xs)
      have "\<exists>c'. ?f x (Some c) = Some c'"
        using Suc.IH [of "projr x" "(fst c + 1, snd c)"] assms [OF Some, of "projr x"] Suc.prems Cons.prems
        by (cases c; cases x) auto
      then show ?case using Cons.IH Cons.prems by auto
    qed simp
    then show ?thesis using Some by simp
  qed simp
qed simp

text \<open>The bytes that \<open>test_ft.rs\<close> puts together are those of the crate's \<open>file_type_from_attrs\<close>.\<close>

lemma transmute_file_type_bits: "transmute_file_type (file_type_bits attrs) = file_type_from_attrs attrs"
  by (cases "attrs AND 0x10 = 0"; cases "attrs AND 0x400 = 0")
    (simp_all add: transmute_file_type_def file_type_bits_def file_type_from_attrs_def FILE_ATTRIBUTE_DIRECTORY_def
      FILE_ATTRIBUTE_REPARSE_POINT_def)

section \<open>Properties\<close>

text \<open>
  The counting loop of \<open>scan_bench.rs\<close> and \<open>scan_unix.rs\<close>: the totals are those of the walk, directories and files make up the
  entries, exactly the first ten errors are printed, and the lines of progress are at least a second apart, so that there are no
  more of them than seconds between the start and the last reading of the clock.
\<close>

theorem scan_loop_reports:
  assumes "start \<le> last_log" and "last_log \<le> b" and "\<forall>(now, r) \<in> set xs. now \<le> b"
  defines "s \<equiv> scan_loop start xs (scan_start last_log)"
  shows "total_entries (ss_counts s) = length (List.map_filter result_ok (map snd xs)) \<and>
    total_files (ss_counts s) = length (walk_files (map snd xs)) \<and>
    total_dirs (ss_counts s) + total_files (ss_counts s) = total_entries (ss_counts s) \<and>
    total_errors (ss_counts s) + total_entries (ss_counts s) = length xs \<and>
    length (filter (\<lambda>l. \<not> is_progress l) (ss_lines s)) = min 10 (total_errors (ss_counts s)) \<and>
    length (filter is_progress (ss_lines s)) * LOG_INTERVAL \<le> b - start"
proof -
  have c: "ss_counts s = fold scan_count (map snd xs) scan_counts_zero"
    by (simp add: s_def scan_loop_counts scan_start_def)
  have "scan_lines_ok start s" unfolding s_def
    by (rule scan_loop_lines) (simp add: scan_lines_ok_def scan_start_def scan_counts_zero_def assms(1))
  moreover have "ss_last_log s \<le> b" unfolding s_def
    by (rule scan_loop_last_log) (use assms in \<open>simp_all add: scan_start_def\<close>)
  ultimately show ?thesis
    using fold_scan_count [where rs = "map snd xs" and c = scan_counts_zero] unfolding c scan_lines_ok_def
    by (auto simp: scan_counts_zero_def)
qed

text \<open>Two errors, the second one after a second and a half.\<close>

theorem scan_loop_reports_witness:
  "length (filter is_progress (ss_lines (scan_loop 0
     [(10, Inl error_busy), (1500000, Inl error_busy :: unit entry_result)] (scan_start 0)))) * LOG_INTERVAL \<le> 1500000"
  using scan_loop_reports [of 0 0 1500000 "[(10, Inl error_busy), (1500000, Inl error_busy :: unit entry_result)]"]
  by simp

end
