(* ===== verification/Class77_Parse.thy ===== *)
theory Class77_Parse
  imports Nt_Dir_Enum "HOL-Library.Sublist"
begin

text \<open>
  The analysis of directory buffers in \<open>examples/class77_poc.rs\<close>: the parser of class 37 records, the
  search for names, the chain of \<open>NextEntryOffset\<close>, the anchors, the guessed header size and the
  candidate of the link count. The system calls of the example and its \<open>main\<close> are in \<open>Class77_Poc\<close>.
\<close>

section \<open>Class 37 records\<close>

text \<open>
  \<open>read_info\<close> copies the structure; its declaration in the example has the same layout
  (\<open>file_id_layouts_agree\<close>). Each name comes with \<open>NextEntryOffset\<close> and the offset of its record.
\<close>

function class37_from :: "u8 list \<Rightarrow> nat \<Rightarrow> (rust_text \<times> u32 \<times> u32) list \<Rightarrow>
    (rust_text \<times> u32 \<times> u32) list option" where
  "class37_from buffer offset out =
     (let header_size = size_of class77_poc_info; name_off = offset_of class77_poc_info ''FileName'' in
      if offset + header_size \<le> length buffer
      then case read_info buffer offset of
             None \<Rightarrow> None
           | Some entry \<Rightarrow>
               let name_len = unat (fi_file_name_length entry);
                   name_chars = name_len div 2 in
               if length buffer < offset + name_off + name_len then Some out
               else case read_wide buffer (offset + name_off) name_chars of
                      None \<Rightarrow> None
                    | Some name_slice \<Rightarrow>
                        let name = wtf8_lossy (from_wide name_slice);
                            out = (if name \<noteq> ascii ''.'' \<and> name \<noteq> ascii ''..''
                                   then out @ [(name, fi_next_entry_offset entry, of_nat offset)] else out)
                        in if fi_next_entry_offset entry = 0 then Some out
                           else class37_from buffer (offset + unat (fi_next_entry_offset entry)) out
      else Some out)"
  by pat_completeness auto
termination
  by (relation "measure (\<lambda>(buffer, offset, out). length buffer - offset)")
    (auto simp: size_of_structs unat_gt_0 intro!: diff_less_mono2)

declare class37_from.simps [simp del]

definition parse_class37 :: "u8 list \<Rightarrow> (rust_text \<times> u32 \<times> u32) list option" where
  "parse_class37 buffer = class37_from buffer 0 []"

section \<open>Names in a buffer\<close>

definition find_utf16_occurrences :: "u8 list \<Rightarrow> rust_text \<Rightarrow> nat list" where
  "find_utf16_occurrences buffer needle =
     (let encoded = text_utf16 needle in
      if encoded = [] then []
      else let needle_bytes = wide_bytes encoded in
           if length buffer < length needle_bytes then []
           else filter (\<lambda>i. take (length needle_bytes) (drop i buffer) = needle_bytes)
                  [0..<length buffer - length needle_bytes + 1])"

text \<open>The loop runs at most 1024 times.\<close>

fun chain_steps :: "nat \<Rightarrow> u8 list \<Rightarrow> nat \<Rightarrow> nat list \<Rightarrow> nat list" where
  "chain_steps 0 buffer cur offsets = offsets"
| "chain_steps (Suc n) buffer cur offsets =
     (if length buffer < cur + 4 then offsets
      else let next_off = unat (u32_at buffer cur) in
           if next_off = 0 then offsets
           else let cur = cur + next_off in
                if length buffer \<le> cur then offsets
                else chain_steps n buffer cur (offsets @ [cur]))"

definition walk_next_offset_chain :: "u8 list \<Rightarrow> nat list" where
  "walk_next_offset_chain buffer = chain_steps 1024 buffer 0 [0]"

section \<open>Anchors and the header\<close>

text \<open>Name, position, start of the entry, header size.\<close>

type_synonym anchor = "rust_text \<times> nat \<times> nat \<times> nat"

definition anchor_of :: "u8 list \<Rightarrow> nat list \<Rightarrow> rust_text \<Rightarrow> anchor option" where
  "anchor_of buf77 chain name =
     (case find_utf16_occurrences buf77 name of
        [] \<Rightarrow> None
      | pos # _ \<Rightarrow>
          let entry_start = (case filter (\<lambda>c. c \<le> pos) chain of [] \<Rightarrow> 0 | cs \<Rightarrow> last cs)
          in Some (name, pos, entry_start, pos - entry_start))"

definition find_anchors :: "u8 list \<Rightarrow> nat list \<Rightarrow> (rust_text \<times> u32 \<times> u32) list \<Rightarrow> anchor list" where
  "find_anchors buf77 chain class37_entries = List.map_filter (\<lambda>(name, _, _). anchor_of buf77 chain name) class37_entries"

text \<open>
  The table of header sizes with their counts; a \<open>HashMap\<close> is iterated in an order \<open>iter\<close> that the
  program does not know. \<open>max_by_key\<close> returns the last of several maxima.
\<close>

definition anchor_header_size :: "anchor \<Rightarrow> nat" where
  "anchor_header_size a = snd (snd (snd a))"

definition size_count :: "anchor list \<Rightarrow> (nat \<times> nat) list" where
  "size_count anchors =
     (let sizes = map anchor_header_size anchors in map (\<lambda>hs. (hs, count_list sizes hs)) (remdups sizes))"

definition max_by_count :: "(nat \<times> nat) list \<Rightarrow> (nat \<times> nat) option" where
  "max_by_count xs =
     (case xs of [] \<Rightarrow> None
      | x # xs \<Rightarrow> Some (fold (\<lambda>y best. if snd best \<le> snd y then y else best) xs x))"

definition common_header :: "((nat \<times> nat) list \<Rightarrow> (nat \<times> nat) list) \<Rightarrow> anchor list \<Rightarrow> nat" where
  "common_header iter anchors = (case max_by_count (iter (size_count anchors)) of None \<Rightarrow> 0 | Some (s, _) \<Rightarrow> s)"

text \<open>\<open>slice::windows(8).position\<close>.\<close>

definition window_position :: "u8 list \<Rightarrow> u8 list \<Rightarrow> nat option" where
  "window_position bytes ts_bytes =
     (case filter (\<lambda>i. take 8 (drop i bytes) = ts_bytes) [0..<length bytes + 1 - 8] of
        [] \<Rightarrow> None
      | i # _ \<Rightarrow> Some i)"

text \<open>Slicing \<open>buf[a..b]\<close>; out of range is a panic.\<close>

definition slice_range :: "'a list \<Rightarrow> nat \<Rightarrow> nat \<Rightarrow> 'a list option" where
  "slice_range buf a b = (if a \<le> b \<and> b \<le> length buf then Some (take (b - a) (drop a buf)) else None)"

text \<open>
  The candidate of \<open>NumberOfLinks\<close>: \<open>None\<close> is a panic; then the position of the time stamp in the header,
  if it is there, with the candidate, if it is inside the buffer.
\<close>

definition links_candidate :: "u8 list \<Rightarrow> nat \<Rightarrow> nat \<Rightarrow> u64 \<Rightarrow> (nat \<times> u32 option) option option" where
  "links_candidate buf77 entry_start common last_write_time =
     (case slice_range buf77 entry_start (entry_start + common) of
        None \<Rightarrow> None
      | Some header_slice \<Rightarrow>
          (case window_position header_slice (le_bytes 8 (unat last_write_time)) of
             None \<Rightarrow> Some None
           | Some idx_in_header \<Rightarrow>
               let nlinks_off = idx_in_header + 40 in
               Some (Some (idx_in_header,
                 if entry_start + nlinks_off + 4 \<le> length buf77
                 then Some (u32_at buf77 (entry_start + nlinks_off)) else None))))"

section \<open>Dumps\<close>

definition hex_byte :: "u8 \<Rightarrow> rust_text" where
  "hex_byte b = hex_digits 2 (unat b)"

fun join_space :: "rust_text list \<Rightarrow> rust_text" where
  "join_space [] = []"
| "join_space [t] = t"
| "join_space (t # ts) = t @ [32] @ join_space ts"

definition pad_left_aligned :: "nat \<Rightarrow> rust_text \<Rightarrow> rust_text" where
  "pad_left_aligned n t = t @ replicate (n - length t) 32"

definition ascii_column :: "u8 list \<Rightarrow> rust_text" where
  "ascii_column = map (\<lambda>b. if 32 \<le> unat b \<and> unat b \<le> 126 then unat b else 46)"

text \<open>The rows of \<open>dump_hex\<close>: sixteen bytes each, of the first \<open>max_bytes\<close>.\<close>

definition dump_row :: "u8 list \<Rightarrow> nat \<Rightarrow> nat \<Rightarrow> rust_text" where
  "dump_row buffer n chunk_start =
     (let chunk = take (min (chunk_start + 16) n - chunk_start) (drop chunk_start buffer) in
      hex_digits 8 chunk_start @ ascii '': '' @ pad_left_aligned 48 (join_space (map hex_byte chunk)) @
      ascii '' '' @ ascii_column chunk)"

definition dump_hex :: "u8 list \<Rightarrow> nat \<Rightarrow> rust_text list" where
  "dump_hex buffer max_bytes =
     (let n = min (length buffer) max_bytes in
      map (\<lambda>k. dump_row buffer n (16 * k)) [0..<(n + 15) div 16])"

section \<open>The parser of the example and the parser of the crate\<close>

lemma lossy_from_wide: "wtf8_lossy (from_wide ws) = map scalar_or_replacement (decode_utf16 ws)"
  by (simp add: wtf8_lossy_def from_wide_def decode_wtf8_concat decode_utf16_bound)

lemma lossy_ascii_iff:
  assumes "\<forall>c \<in> set t. c < 0x80"
  shows "wtf8_lossy (from_wide ws) = t \<longleftrightarrow> ws = map of_nat t"
proof
  assume "wtf8_lossy (from_wide ws) = t"
  then have t: "map scalar_or_replacement (decode_utf16 ws) = t" by (simp add: lossy_from_wide)
  have "decode_utf16 ws = t"
  proof (rule nth_equalityI)
    show "length (decode_utf16 ws) = length t" using t by auto
    fix i assume i: "i < length (decode_utf16 ws)"
    then have "scalar_or_replacement (decode_utf16 ws ! i) = t ! i" "t ! i < 0x80" using t assms by auto
    then show "decode_utf16 ws ! i = t ! i"
      by (auto simp: scalar_or_replacement_def REPLACEMENT_CHARACTER_def split: if_splits)
  qed
  moreover have "concat (map encode_utf16 t) = map of_nat t" using assms
    by (induction t) (simp_all add: encode_utf16_def)
  ultimately show "ws = map of_nat t" using encode_decode_utf16 [of ws] by simp
next
  have "decode_utf16 (map of_nat t) = t" if "\<forall>c \<in> set t. c < 0x80" for t
    using that
  proof (induction t rule: induct_list012)
    case (3 c d t)
    then show ?case by (simp add: is_high_surrogate_def unat_u16)
  qed (simp_all add: unat_u16)
  moreover assume "ws = map of_nat t"
  ultimately show "wtf8_lossy (from_wide ws) = t"
    using assms by (auto simp: lossy_from_wide scalar_or_replacement_def intro!: map_idI)
qed

lemma lossy_dots_iff:
  "wtf8_lossy (from_wide ws) = ascii ''.'' \<or> wtf8_lossy (from_wide ws) = ascii ''..'' \<longleftrightarrow> is_dot_wide ws"
  using lossy_ascii_iff [of "ascii ''.''" ws] lossy_ascii_iff [of "ascii ''..''" ws]
  by (simp add: is_dot_wide_def ascii_def)

abbreviation name_and_next :: "rust_text \<times> u32 \<times> u32 \<Rightarrow> rust_text \<times> u32" where
  "name_and_next \<equiv> \<lambda>(name, nxt, off). (name, nxt)"

abbreviation collect_lossy :: "file_id_both_dir_info \<Rightarrow> os_string \<Rightarrow> (rust_text \<times> u32) list \<Rightarrow> (rust_text \<times> u32) list" where
  "collect_lossy \<equiv> \<lambda>e n acc. acc @ [(wtf8_lossy n, fi_next_entry_offset e)]"

lemma poc_info_sizes:
  "size_of class77_poc_info = INFO_SIZE" "offset_of class77_poc_info ''FileName'' = FILE_NAME_OFFSET"
  by (simp_all add: size_of_structs offset_of_structs INFO_SIZE_eq FILE_NAME_OFFSET_eq)

text \<open>Where both loops stop, and one round of both over a record whose name is inside the buffer.\<close>

lemma class37_stops:
  assumes "\<not> offset + INFO_SIZE \<le> length buffer \<or>
    (\<exists>e. read_info buffer offset = Some e \<and>
       length buffer < offset + FILE_NAME_OFFSET + unat (fi_file_name_length e))"
  shows "class37_from buffer offset out = Some out" "parse_entries_from buffer offset f s = Some s"
  using assms
  by (auto simp: class37_from.simps [of buffer offset] parse_entries_from.simps [of buffer offset] poc_info_sizes)

lemma class37_rounds:
  fixes out :: "(rust_text \<times> u32 \<times> u32) list"
  assumes room: "offset + INFO_SIZE \<le> length buffer" and e: "read_info buffer offset = Some e"
    and inside: "\<not> length buffer < offset + FILE_NAME_OFFSET + unat (fi_file_name_length e)"
  defines "name \<equiv> u16s_at buffer (offset + FILE_NAME_OFFSET) (unat (fi_file_name_length e) div 2)"
  defines "out1 \<equiv> (if is_dot_wide name then out
    else out @ [(wtf8_lossy (from_wide name), fi_next_entry_offset e, of_nat offset)])"
  shows "class37_from buffer offset out =
      (if fi_next_entry_offset e = 0 then Some out1
       else class37_from buffer (offset + unat (fi_next_entry_offset e)) out1)"
    and "parse_entries_from buffer offset collect_lossy (map name_and_next out) =
      (if fi_next_entry_offset e = 0 then Some (map name_and_next out1)
       else parse_entries_from buffer (offset + unat (fi_next_entry_offset e)) collect_lossy
         (map name_and_next out1))"
proof -
  let ?len = "unat (fi_file_name_length e)"
  have wide: "read_wide buffer (offset + FILE_NAME_OFFSET) (?len div 2) = Some name"
    using inside by (simp add: read_wide_def name_def)
  have tail: "fi_file_name e = u16s_at buffer (offset + FILE_NAME_OFFSET) 4"
    using e room by (auto simp: read_info_def)
  have "length name = ?len div 2" by (simp add: u16s_at_def name_def)
  then have dots: "(?len div 2 = 1 \<and> fi_file_name e ! 0 = 46) \<or>
      (?len div 2 = 2 \<and> fi_file_name e ! 0 = 46 \<and> fi_file_name e ! 1 = 46) \<longleftrightarrow> is_dot_wide name"
    unfolding tail by (intro dot_tests) (simp_all add: name_def)
  show "class37_from buffer offset out =
      (if fi_next_entry_offset e = 0 then Some out1
       else class37_from buffer (offset + unat (fi_next_entry_offset e)) out1)"
    using room inside lossy_dots_iff [of name]
    by (subst class37_from.simps) (auto simp: poc_info_sizes e wide out1_def Let_def)
  show "parse_entries_from buffer offset collect_lossy (map name_and_next out) =
      (if fi_next_entry_offset e = 0 then Some (map name_and_next out1)
       else parse_entries_from buffer (offset + unat (fi_next_entry_offset e)) collect_lossy
         (map name_and_next out1))"
    using room inside dots by (subst parse_entries_from.simps) (auto simp: e wide out1_def Let_def)
qed

lemma class37_from_eq:
  "\<exists>out'. class37_from buffer offset out = Some out' \<and>
     parse_entries_from buffer offset collect_lossy (map name_and_next out) = Some (map name_and_next out')"
proof (induction "length buffer - offset" arbitrary: offset out rule: less_induct)
  case less
  show ?case
  proof (cases "offset + INFO_SIZE \<le> length buffer")
    case False
    then show ?thesis by (simp add: class37_stops)
  next
    case room: True
    then obtain e where e: "read_info buffer offset = Some e" by (simp add: read_info_def)
    show ?thesis
    proof (cases "length buffer < offset + FILE_NAME_OFFSET + unat (fi_file_name_length e)")
      case True
      with e have "class37_from buffer offset out = Some out"
        "parse_entries_from buffer offset collect_lossy (map name_and_next out) = Some (map name_and_next out)"
        by (blast intro: class37_stops)+
      then show ?thesis by simp
    next
      case False
      have "length buffer - (offset + unat (fi_next_entry_offset e)) < length buffer - offset"
        if "fi_next_entry_offset e \<noteq> 0"
        using that room by (intro diff_less_mono2) (auto simp: unat_gt_0 INFO_SIZE_eq)
      then show ?thesis
        using class37_rounds [OF room e False, of out] less by (cases "fi_next_entry_offset e = 0") simp_all
    qed
  qed
qed

section \<open>Buffers that end with the last name\<close>

text \<open>
  The system writes no padding behind the last record, and the example cuts the buffer off at the
  number of bytes written. The records before the last one carry their length in \<open>NextEntryOffset\<close>.
\<close>

definition written_chunk :: "nt_record list \<Rightarrow> nt_record \<Rightarrow> u8 list" where
  "written_chunk rs r = take (length (encode_chunk (rs @ [r])) - length (nr_padding r)) (encode_chunk (rs @ [r]))"

definition encode_front :: "nt_record list \<Rightarrow> u8 list" where
  "encode_front rs = concat (map (\<lambda>r. encode_nt (of_nat (nt_length r)) r) rs)"

definition listed37 :: "nat \<Rightarrow> u32 \<Rightarrow> nt_record \<Rightarrow> (rust_text \<times> u32 \<times> u32) list" where
  "listed37 offset nxt r =
     (if is_dot_wide (nr_name r) then [] else [(wtf8_lossy (from_wide (nr_name r)), nxt, of_nat offset)])"

fun front37 :: "nat \<Rightarrow> nt_record list \<Rightarrow> (rust_text \<times> u32 \<times> u32) list" where
  "front37 offset [] = []"
| "front37 offset (r # rs) = listed37 offset (of_nat (nt_length r)) r @ front37 (offset + nt_length r) rs"

lemma encode_chunk_snoc: "encode_chunk (rs @ [r]) = encode_front rs @ encode_nt 0 r"
proof (induction rs)
  case (Cons a rs)
  then show ?case by (cases rs) (simp_all add: encode_front_def)
qed (simp add: encode_front_def)

lemma written_chunk_eq: "written_chunk rs r = encode_front rs @ encode_nt 0 (r\<lparr>nr_padding := []\<rparr>)"
  by (simp add: written_chunk_def encode_chunk_snoc encode_nt_def nt_header_def)

lemma class37_record:
  assumes "nt_fits r" and buf: "buf = pre @ encode_nt nxt r @ rest"
  shows "class37_from buf (length pre) out =
    (if nxt = 0 then Some (out @ listed37 (length pre) nxt r)
     else class37_from buf (length pre + unat nxt) (out @ listed37 (length pre) nxt r))"
proof -
  obtain e where e: "read_info buf (length pre) = Some e" and nxt: "fi_next_entry_offset e = nxt"
    and len: "unat (fi_file_name_length e) = 2 * length (nr_name r)"
    using read_info_encoded [OF assms(1), of pre nxt rest] unfolding buf by blast
  have name: "u16s_at buf (length pre + FILE_NAME_OFFSET) (length (nr_name r)) = nr_name r"
    unfolding buf by (rule name_at_encoded [OF assms(1)])
  have "length buf = length pre + nt_length r + length rest"
    by (simp add: buf length_encode_fits [OF assms(1)])
  then have "length pre + INFO_SIZE \<le> length buf"
    "\<not> length buf < length pre + FILE_NAME_OFFSET + unat (fi_file_name_length e)"
    using assms(1) by (simp_all add: nt_length_def nt_fits_def len)
  from class37_rounds(1) [OF this(1) e this(2), of out] show ?thesis
    by (auto simp: nxt len name listed37_def)
qed

lemma class37_front:
  assumes "list_all nt_ok rs" and "buf = pre @ encode_front rs @ rest"
  shows "class37_from buf (length pre) out =
    class37_from buf (length pre + length (encode_front rs)) (out @ front37 (length pre) rs)"
  using assms
proof (induction rs arbitrary: pre out)
  case (Cons r rs)
  let ?next = "of_nat (nt_length r) :: u32"
  have ok: "nt_ok r" using Cons.prems by simp
  have len: "unat ?next = nt_length r" using nt_length_bounds(2) [OF ok] by (rule unat_u32)
  moreover have "nt_length r \<noteq> 0" using nt_length_bounds(1) [OF ok] by (simp add: INFO_SIZE_eq)
  ultimately have "?next \<noteq> 0" by (metis unat_0)
  moreover have buf: "buf = pre @ encode_nt ?next r @ encode_front rs @ rest"
    using Cons.prems by (simp add: encode_front_def)
  ultimately have "class37_from buf (length pre) out =
      class37_from buf (length (pre @ encode_nt ?next r)) (out @ listed37 (length pre) ?next r)"
    using class37_record [OF nt_ok_fits [OF ok] buf, of out] by (simp add: len length_encode_nt [OF ok])
  also have "\<dots> = class37_from buf (length (pre @ encode_nt ?next r) + length (encode_front rs))
      ((out @ listed37 (length pre) ?next r) @ front37 (length (pre @ encode_nt ?next r)) rs)"
    using Cons.prems buf by (intro Cons.IH) simp_all
  finally show ?case by (simp add: length_encode_nt [OF ok] encode_front_def add.assoc)
qed (simp add: encode_front_def)

lemma parse_class37_written:
  assumes "list_all nt_ok rs" and "nt_ok r"
  shows "parse_class37 (written_chunk rs r) =
    Some (front37 0 rs @ (if length (nr_name r) < 4 then [] else listed37 (length (encode_front rs)) 0 r))"
proof -
  let ?r = "r\<lparr>nr_padding := []\<rparr>" and ?buf = "written_chunk rs r" and ?n = "length (encode_front rs)"
  have buf: "?buf = encode_front rs @ encode_nt 0 ?r @ []" by (simp add: written_chunk_eq)
  have "parse_class37 ?buf = class37_from ?buf ?n (front37 0 rs)"
    using class37_front [OF assms(1), of ?buf "[]" "encode_nt 0 ?r" "[]"] by (simp add: buf parse_class37_def)
  also have "\<dots> = Some (front37 0 rs @ (if length (nr_name r) < 4 then [] else listed37 ?n 0 r))"
  proof (cases "length (nr_name r) < 4")
    case True
    have "length (encode_nt 0 ?r) = FILE_NAME_OFFSET + 2 * length (nr_name r)"
      using assms(2) by (simp add: encode_nt_def length_nt_header nt_ok_def)
    then have "\<not> ?n + INFO_SIZE \<le> length ?buf"
      using True by (simp add: buf FILE_NAME_OFFSET_eq INFO_SIZE_eq)
    then show ?thesis using True by (simp add: class37_stops)
  next
    case False
    then have "nt_fits ?r"
      using assms(2) by (simp add: nt_fits_def nt_ok_def nt_length_def INFO_SIZE_eq FILE_NAME_OFFSET_eq)
    from class37_record [OF this buf, of "front37 0 rs"] False show ?thesis by (simp add: listed37_def)
  qed
  finally show ?thesis .
qed

lemma parse_class37_chunk:
  assumes "list_all nt_ok rs" and "nt_ok r"
  shows "parse_class37 (encode_chunk (rs @ [r])) = Some (front37 0 rs @ listed37 (length (encode_front rs)) 0 r)"
proof -
  have "parse_class37 (encode_chunk (rs @ [r])) =
      class37_from (encode_chunk (rs @ [r])) (length (encode_front rs)) (front37 0 rs)"
    using class37_front [OF assms(1), of _ "[]" "encode_nt 0 r" "[]"]
    by (simp add: encode_chunk_snoc parse_class37_def)
  then show ?thesis
    using class37_record [OF nt_ok_fits [OF assms(2)], of "encode_chunk (rs @ [r])" "encode_front rs" 0 "[]"]
    by (simp add: encode_chunk_snoc)
qed

section \<open>Search, chain and anchors\<close>

text \<open>A word occurs in a buffer at a position.\<close>

definition occurs_at :: "'a list \<Rightarrow> 'a list \<Rightarrow> nat \<Rightarrow> bool" where
  "occurs_at word buffer i \<longleftrightarrow> (\<exists>pre post. buffer = pre @ word @ post \<and> length pre = i)"

lemma occurs_at_iff: "occurs_at word buffer i \<longleftrightarrow> i + length word \<le> length buffer \<and> take (length word) (drop i buffer) = word"
proof
  assume "i + length word \<le> length buffer \<and> take (length word) (drop i buffer) = word"
  then have "buffer = take i buffer @ word @ drop (i + length word) buffer" "length (take i buffer) = i"
    by (simp_all, metis append_take_drop_id drop_drop add.commute)
  then show "occurs_at word buffer i" unfolding occurs_at_def by blast
qed (auto simp: occurs_at_def)

lemma find_utf16_occurrences_iff:
  assumes "needle \<noteq> []"
  shows "sorted (find_utf16_occurrences buffer needle)" "distinct (find_utf16_occurrences buffer needle)"
    "set (find_utf16_occurrences buffer needle) = {i. occurs_at (wide_bytes (text_utf16 needle)) buffer i}"
proof -
  have "text_utf16 needle \<noteq> []" using assms by (cases needle) (simp_all add: text_utf16_def encode_utf16_def)
  then show "sorted (find_utf16_occurrences buffer needle)" "distinct (find_utf16_occurrences buffer needle)"
    "set (find_utf16_occurrences buffer needle) = {i. occurs_at (wide_bytes (text_utf16 needle)) buffer i}"
    by (auto simp: find_utf16_occurrences_def occurs_at_iff Let_def intro: sorted_wrt_filter simp del: upt_Suc)
qed

text \<open>On any buffer the chain is increasing and stays inside the buffer.\<close>

lemma chain_steps_increasing:
  assumes "sorted_wrt (<) (offsets @ [cur])" and "\<forall>c \<in> set offsets. c < length buffer" and "cur < length buffer"
  shows "sorted_wrt (<) (chain_steps n buffer cur (offsets @ [cur])) \<and>
    (\<forall>c \<in> set (chain_steps n buffer cur (offsets @ [cur])). c < length buffer)"
  using assms
proof (induction n arbitrary: cur offsets)
  case (Suc n)
  let ?cur = "cur + unat (u32_at buffer cur)"
  show ?case
  proof (cases "length buffer < cur + 4 \<or> unat (u32_at buffer cur) = 0 \<or> length buffer \<le> ?cur")
    case True
    then show ?thesis using Suc.prems by (auto simp: Let_def)
  next
    case False
    have "sorted_wrt (<) ((offsets @ [cur]) @ [?cur])"
      using Suc.prems(1) False by (auto simp: sorted_wrt_append)
    then show ?thesis using Suc.IH [of "offsets @ [cur]" ?cur] Suc.prems False by (auto simp: Let_def)
  qed
qed auto

text \<open>Entries of any format that begin with the distance to the next one, zero in the last.\<close>

fun linked_entries :: "u8 list list \<Rightarrow> u8 list" where
  "linked_entries [] = []"
| "linked_entries [p] = le_bytes 4 0 @ p"
| "linked_entries (p # q # ps) = le_bytes 4 (4 + length p) @ p @ linked_entries (q # ps)"

fun entry_starts :: "nat \<Rightarrow> u8 list list \<Rightarrow> nat list" where
  "entry_starts n [] = []"
| "entry_starts n (p # ps) = n # entry_starts (n + 4 + length p) ps"

lemma u32_at_le_bytes: "n < 2 ^ 32 \<Longrightarrow> length pre = i \<Longrightarrow> unat (u32_at (pre @ le_bytes 4 n @ rest) i) = n"
  by (simp add: u32_at_def le_nat_le_bytes unat_of_nat take_bit_eq_mod del: le_bytes.simps)

lemma chain_steps_linked:
  assumes "\<forall>p \<in> set ps. 4 + length p < 2 ^ 32" and "buf = pre @ linked_entries (p # ps) @ rest"
    and "4 + length p < 2 ^ 32"
  shows "chain_steps n buf (length pre) offsets =
    offsets @ take n (entry_starts (length pre + 4 + length p) ps)"
  using assms
proof (induction ps arbitrary: n p pre offsets)
  case Nil
  then show ?case
    using u32_at_le_bytes [of 0 pre "length pre" "p @ rest"]
    by (cases n) (simp_all add: Let_def del: le_bytes.simps)
next
  case (Cons q ps)
  show ?case
  proof (cases n)
    case (Suc k)
    let ?pre = "pre @ le_bytes 4 (4 + length p) @ p"
    have nxt: "unat (u32_at buf (length pre)) = 4 + length p"
      using u32_at_le_bytes [of "4 + length p" pre "length pre"] Cons.prems by (simp del: le_bytes.simps)
    have "buf = ?pre @ linked_entries (q # ps) @ rest" using Cons.prems(2) by simp
    then have "chain_steps k buf (length ?pre) (offsets @ [length ?pre]) =
        (offsets @ [length ?pre]) @ take k (entry_starts (length ?pre + 4 + length q) ps)"
      using Cons.prems by (intro Cons.IH) simp_all
    moreover have "length ?pre < length buf"
      using Cons.prems(2) by (cases ps) (simp_all del: le_bytes.simps)
    ultimately show ?thesis using nxt by (simp add: Suc Let_def add.assoc del: le_bytes.simps)
  qed simp
qed

lemma walk_next_offset_chain_linked:
  assumes "ps \<noteq> []" and "\<forall>p \<in> set ps. 4 + length p < 2 ^ 32"
  shows "walk_next_offset_chain (linked_entries ps @ rest) = take 1025 (entry_starts 0 ps)"
proof -
  obtain p ps' where "ps = p # ps'" using assms(1) by (cases ps) auto
  then show ?thesis
    using chain_steps_linked [of ps' "linked_entries ps @ rest" "[]" p rest 1024 "[0]"] assms(2)
    by (simp add: walk_next_offset_chain_def eval_nat_numeral(3) [of "num.One"])
qed

lemma chain_steps_extends: "\<exists>cs. chain_steps n buffer cur offsets = offsets @ cs"
proof (induction n arbitrary: cur offsets)
  case (Suc n)
  let ?cur = "cur + unat (u32_at buffer cur)"
  obtain cs where "chain_steps n buffer ?cur (offsets @ [?cur]) = (offsets @ [?cur]) @ cs" using Suc by blast
  then show ?case by (auto simp: Let_def)
qed simp

lemma walk_next_offset_chain_sound:
  "sorted_wrt (<) (walk_next_offset_chain buffer)" "0 \<in> set (walk_next_offset_chain buffer)"
  "buffer \<noteq> [] \<Longrightarrow> \<forall>c \<in> set (walk_next_offset_chain buffer). c < length buffer"
proof -
  have "chain_steps 1024 [] 0 [0] = [0]" by (simp add: eval_nat_numeral)
  then show "sorted_wrt (<) (walk_next_offset_chain buffer)"
    using chain_steps_increasing [of "[]" 0 buffer 1024]
    by (cases "buffer = []") (simp_all add: walk_next_offset_chain_def)
  show "0 \<in> set (walk_next_offset_chain buffer)"
    using chain_steps_extends [of 1024 buffer 0 "[0]"] by (auto simp: walk_next_offset_chain_def)
  show "buffer \<noteq> [] \<Longrightarrow> \<forall>c \<in> set (walk_next_offset_chain buffer). c < length buffer"
    using chain_steps_increasing [of "[]" 0 buffer 1024] by (simp add: walk_next_offset_chain_def)
qed

lemma last_le_greatest:
  assumes "sorted_wrt (<) cs" and "c \<in> set cs" and "c \<le> (pos :: nat)"
  shows "last (filter (\<lambda>c. c \<le> pos) cs) \<in> set cs" "last (filter (\<lambda>c. c \<le> pos) cs) \<le> pos"
    "c \<le> last (filter (\<lambda>c. c \<le> pos) cs)"
proof -
  let ?ds = "filter (\<lambda>c. c \<le> pos) cs"
  have c: "c \<in> set ?ds" using assms by simp
  then have ne: "?ds \<noteq> []" by (metis empty_iff list.set(1))
  then have "last ?ds \<in> set ?ds" by (rule last_in_set)
  then show "last ?ds \<in> set cs" "last ?ds \<le> pos" by auto
  have "sorted (butlast ?ds @ [last ?ds])" using assms(1) ne by (simp add: sorted_wrt_filter strict_sorted_iff)
  moreover have "c \<in> set (butlast ?ds @ [last ?ds])" using c ne by simp
  ultimately show "c \<le> last ?ds" unfolding sorted_append by auto
qed

text \<open>
  An anchor is the first occurrence of its name, in the last entry of the chain that begins before it.
  Its header is a range of the buffer.
\<close>

lemma anchor_sound:
  assumes "anchor_of buf (walk_next_offset_chain buf) name = Some (n, pos, start, hs)" and "name \<noteq> []"
  shows "n = name" "occurs_at (wide_bytes (text_utf16 name)) buf pos"
    "\<forall>i < pos. \<not> occurs_at (wide_bytes (text_utf16 name)) buf i"
    "start \<in> set (walk_next_offset_chain buf)" "start \<le> pos" "hs = pos - start"
    "\<forall>c \<in> set (walk_next_offset_chain buf). c \<le> pos \<longrightarrow> c \<le> start"
    "\<exists>header. slice_range buf start pos = Some header"
proof -
  let ?chain = "walk_next_offset_chain buf" and ?word = "wide_bytes (text_utf16 name)"
  obtain p hits where p: "find_utf16_occurrences buf name = p # hits"
    using assms(1) by (cases "find_utf16_occurrences buf name") (simp_all add: anchor_of_def)
  then have r: "n = name" "pos = p" "hs = pos - start"
    "start = (case filter (\<lambda>c. c \<le> pos) ?chain of [] \<Rightarrow> 0 | cs \<Rightarrow> last cs)"
    using assms(1) unfolding anchor_of_def p list.case Let_def option.inject prod.inject by blast+
  have hits: "find_utf16_occurrences buf name = pos # hits" using p r(2) by (simp only:)
  show "n = name" "hs = pos - start" by (fact r)+
  have set: "set (pos # hits) = {i. occurs_at ?word buf i}"
    using find_utf16_occurrences_iff(3) [OF assms(2), of buf] by (simp add: hits)
  then show occ: "occurs_at ?word buf pos" by auto
  have "\<forall>i \<in> set (pos # hits). pos \<le> i"
    using find_utf16_occurrences_iff(1) [OF assms(2), of buf] by (simp add: hits)
  then show "\<forall>i < pos. \<not> occurs_at ?word buf i" unfolding set by auto
  have "filter (\<lambda>c. c \<le> pos) ?chain \<noteq> []"
    using walk_next_offset_chain_sound(2) [of buf] by (auto simp: filter_empty_conv)
  then have start: "start = last (filter (\<lambda>c. c \<le> pos) ?chain)" using r(4) by (simp split: list.splits)
  note greatest = last_le_greatest [OF walk_next_offset_chain_sound(1) [of buf]]
  show "start \<in> set ?chain" and le: "start \<le> pos"
    using greatest(1,2) [OF walk_next_offset_chain_sound(2)] by (simp_all add: start)
  show "\<forall>c \<in> set ?chain. c \<le> pos \<longrightarrow> c \<le> start" using greatest(3) by (simp add: start)
  show "\<exists>header. slice_range buf start pos = Some header"
    using le occ by (simp add: slice_range_def occurs_at_iff)
qed

text \<open>The guessed header size is one of the most frequent sizes, whatever the order of the table.\<close>

lemma fold_max_by_count:
  "fold (\<lambda>y best. if snd best \<le> snd y then y else best) xs x \<in> set (x # xs) \<and>
   (\<forall>y \<in> set (x # xs). snd y \<le> snd (fold (\<lambda>y best. if snd best \<le> snd y then y else best) xs x))"
  for x :: "nat \<times> nat"
proof (induction xs arbitrary: x)
  case (Cons y xs)
  show ?case
  proof (cases "snd x \<le> snd y")
    case True
    then show ?thesis using Cons.IH [of y] by simp
  next
    case False
    then show ?thesis using Cons.IH [of x] by auto
  qed
qed simp

lemma max_by_count_greatest:
  assumes "xs \<noteq> []"
  shows "\<exists>m \<in> set xs. max_by_count xs = Some m \<and> (\<forall>y \<in> set xs. snd y \<le> snd m)"
  using assms fold_max_by_count by (cases xs) (auto simp: max_by_count_def)

lemma common_header_most_frequent:
  assumes "mset (iter (size_count anchors)) = mset (size_count anchors)" and "anchors \<noteq> []"
  shows "common_header iter anchors \<in> anchor_header_size ` set anchors"
    "\<forall>hs. count_list (map anchor_header_size anchors) hs \<le> count_list (map anchor_header_size anchors) (common_header iter anchors)"
proof -
  let ?sizes = "map anchor_header_size anchors"
  have set: "set (iter (size_count anchors)) = (\<lambda>hs. (hs, count_list ?sizes hs)) ` anchor_header_size ` set anchors"
    using mset_eq_setD [OF assms(1)] by (simp add: size_count_def Let_def)
  moreover have "iter (size_count anchors) \<noteq> []" using calculation assms(2) by auto
  ultimately obtain m where m: "m \<in> set (iter (size_count anchors))" "max_by_count (iter (size_count anchors)) = Some m"
    "\<forall>y \<in> set (iter (size_count anchors)). snd y \<le> snd m" using max_by_count_greatest by blast
  then have m_eq: "m = (common_header iter anchors, count_list ?sizes (common_header iter anchors))"
    using set by (auto simp: common_header_def)
  then show "common_header iter anchors \<in> anchor_header_size ` set anchors" using m(1) set by auto
  show "\<forall>hs. count_list ?sizes hs \<le> count_list ?sizes (common_header iter anchors)"
  proof
    fix hs
    show "count_list ?sizes hs \<le> count_list ?sizes (common_header iter anchors)"
    proof (cases "hs \<in> set ?sizes")
      case True
      then have "(hs, count_list ?sizes hs) \<in> set (iter (size_count anchors))" using set by auto
      with m(3) m_eq show ?thesis by fastforce
    next
      case False
      then show ?thesis by (simp add: count_list_0_iff)
    qed
  qed
qed

text \<open>The link count stands forty bytes behind the time of the last write, as the structure has it.\<close>

lemma links_distance:
  "offset_of FILE_STAT_BASIC_INFORMATION ''NumberOfLinks'' =
   offset_of FILE_STAT_BASIC_INFORMATION ''LastWriteTime'' + 40"
  by code_simp

lemma links_candidate_panics_iff: "links_candidate buf start common t = None \<longleftrightarrow> length buf < start + common"
  by (auto simp: links_candidate_def slice_range_def Let_def split: option.splits)

section \<open>Properties\<close>

text \<open>
  C28. The parser of the example agrees with the parser of the crate on every buffer, whatever its bytes: both end, read
  only inside the buffer, and list the same names with the same \<open>NextEntryOffset\<close>, although the example tests the
  decoded text for \<open>.\<close> and \<open>..\<close> where the crate tests the raw units.
\<close>

theorem class37_parser_agrees:
  "\<exists>out. parse_class37 buffer = Some out \<and>
     parse_buffer_entries buffer (\<lambda>e n acc. acc @ [(wtf8_lossy n, fi_next_entry_offset e)]) [] =
       Some (map (\<lambda>(name, nxt, off). (name, nxt)) out)"
  using class37_from_eq [of buffer 0 "[]"] by (simp add: parse_class37_def parse_buffer_entries_def)

text \<open>
  The example loses a short last name: since it cuts the buffer off behind the last name and then asks for room for
  the whole structure, a last record whose name has fewer than four units is not listed. All other records but \<open>.\<close> and \<open>..\<close>
  are, with their offsets.
\<close>

theorem class37_misses_short_last_name:
  assumes "list_all nt_ok rs" and "nt_ok r"
  shows "parse_class37 (written_chunk rs r) =
    Some (front37 0 rs @ (if length (nr_name r) < 4 then [] else listed37 (length (encode_front rs)) 0 r))"
  using assms by (rule parse_class37_written)

theorem class37_misses_short_last_name_witness:
  "parse_class37 (written_chunk [example_record 0x20 [97]] (example_record 0x20 [98])) = Some [([97], 112, 0)]"
proof -
  have "list_all nt_ok [example_record 0x20 [97]]" "nt_ok (example_record 0x20 [98])" by code_simp+
  moreover have "front37 0 [example_record 0x20 [97]] @
      (if length (nr_name (example_record 0x20 [98])) < 4 then []
       else listed37 (length (encode_front [example_record 0x20 [97]])) 0 (example_record 0x20 [98])) =
      [([97], 112, 0)]" by code_simp
  ultimately show ?thesis using class37_misses_short_last_name by metis
qed

text \<open>
  Anchors locate entries. For any entries that begin with the distance to the next one, the chain is the list of
  their starts (at most 1025 of them), and an anchor of a name is its first occurrence in the buffer together with the start
  of the last entry at or before it; the header between the two is inside the buffer.
\<close>

theorem anchors_locate_entries:
  assumes "ps \<noteq> []" and "\<forall>p \<in> set ps. 4 + length p < 2 ^ 32" and "length ps \<le> 1025"
    and "buf = linked_entries ps @ rest" and "name \<noteq> []"
    and "anchor_of buf (walk_next_offset_chain buf) name = Some (n, pos, start, hs)"
  shows "walk_next_offset_chain buf = entry_starts 0 ps \<and>
    occurs_at (wide_bytes (text_utf16 name)) buf pos \<and>
    (\<forall>i < pos. \<not> occurs_at (wide_bytes (text_utf16 name)) buf i) \<and>
    start \<in> set (entry_starts 0 ps) \<and> start \<le> pos \<and> hs = pos - start \<and>
    (\<forall>c \<in> set (entry_starts 0 ps). c \<le> pos \<longrightarrow> c \<le> start)"
proof -
  have "length (entry_starts k ps) = length ps" for k by (induction ps arbitrary: k) simp_all
  then have "walk_next_offset_chain buf = entry_starts 0 ps"
    using walk_next_offset_chain_linked [OF assms(1,2), of rest] assms(3,4) by simp
  then show ?thesis using anchor_sound [OF assms(6,5)] by simp
qed

theorem anchors_locate_entries_witness:
  "walk_next_offset_chain (linked_entries [[0, 98, 0], [255, 97, 0]]) = [0, 7] \<and>
   occurs_at (wide_bytes (text_utf16 [97])) (linked_entries [[0, 98, 0], [255, 97, 0]]) 12"
proof -
  let ?ps = "[[0, 98, 0], [255, 97, 0]] :: u8 list list"
  have "anchor_of (linked_entries ?ps) (walk_next_offset_chain (linked_entries ?ps)) [97] = Some ([97], 12, 7, 5)"
    by code_simp
  moreover have "\<forall>p \<in> set ?ps. 4 + length p < 2 ^ 32" "entry_starts 0 ?ps = [0, 7]" by simp_all
  ultimately show ?thesis
    using anchors_locate_entries [of ?ps "linked_entries ?ps" "[]" "[97]" "[97]" 12 7 5] by simp
qed

end
