(* ===== verification/Class77_Poc.thy ===== *)
theory Class77_Poc
  imports Class77_Parse
begin

text \<open>
  \<open>examples/class77_poc.rs\<close>: the program that tries information class 77 for directory enumeration. Its
  system calls are the record \<open>poc_world\<close>; what it prints is a list of events that carry the printed values.
\<close>

section \<open>System calls\<close>

text \<open>
  \<open>CreateFileW\<close>, \<open>GetLastError\<close>, \<open>NtQueryDirectoryFileEx\<close> (handle, class, single entry, name, restart, buffer; status
  and \<open>Information\<close>), \<open>NtQueryDirectoryFile\<close>, \<open>NtQueryInformationByName\<close>, the kind of an error code, \<open>CloseHandle\<close>
  and \<open>create_dir_all\<close>.
\<close>

record 'w poc_world =
  pw_create_file :: "u16 list \<Rightarrow> 'w \<Rightarrow> int \<times> 'w"
  pw_last_os_error :: "'w \<Rightarrow> io_error"
  pw_query_dir :: "int \<Rightarrow> u32 \<Rightarrow> int \<Rightarrow> u16 list option \<Rightarrow> int \<Rightarrow> u8 list \<Rightarrow> 'w \<Rightarrow> (int \<times> nat) \<times> u8 list \<times> 'w"
  pw_query_dir_no_ex :: "int \<Rightarrow> u32 \<Rightarrow> int \<Rightarrow> u16 \<times> u16 list \<Rightarrow> int \<Rightarrow> u8 list \<Rightarrow> 'w \<Rightarrow> (int \<times> nat) \<times> u8 list \<times> 'w"
  pw_query_by_name :: "int \<Rightarrow> u16 \<times> u16 list \<Rightarrow> u8 list \<Rightarrow> u32 \<Rightarrow> 'w \<Rightarrow> int \<times> u8 list \<times> 'w"
  pw_error_kind :: "int \<Rightarrow> error_kind"
  pw_close_handle :: "int \<Rightarrow> 'w \<Rightarrow> 'w"
  pw_create_dir_all :: "'w \<Rightarrow> 'w"

definition FILE_ID_BOTH_DIR_INFO_CLASS :: u32 where "FILE_ID_BOTH_DIR_INFO_CLASS = 37"
definition FILE_STAT_BASIC_INFORMATION_CLASS :: u32 where "FILE_STAT_BASIC_INFORMATION_CLASS = 77"

text \<open>What is printed.\<close>

datatype poc_event =
    TestDirectory path | LoadFailed | OpenFailed io_error | Class37Failed io_error | SecondOpenFailed io_error
  | Class37Count nat | Class37Row nat u32 u32 rust_text | FewEntries nat
  | DumpHeader nat nat | DumpRow rust_text | DumpOmitted nat
  | Attempt nat "io_error + nat"
  | NoExAvailable "int + nat" | NoExUnavailable
  | ByNameUnavailable | DeclaredSize nat | Probe nat int | NoSizeAccepted | SecondCallFailed int
  | LinksFound rust_text u32 u32 nat | SizeTooSmall nat
  | EnumerationFailed bool | Class77Written nat | Chain "nat list"
  | NameNotFound rust_text | AnchorFound anchor | HeaderGuess nat
  | FirstEntry rust_text nat nat | HeaderRow nat rust_text u32 u32 u64
  | Baseline rust_text u64 u64 u32 | TimeFound nat nat | Candidate nat u32 | TimeNotFound | NoAnchors

text \<open>Loading a function of \<open>ntdll.dll\<close>; in \<open>load_ntdll_query_dir\<close> a failure exits the process.\<close>

definition load_query_dir_no_ex :: "('m, 'p) dll_loader \<Rightarrow> 'p option" where
  "load_query_dir_no_ex ld =
     (case load_library ld (to_wide_null (ascii ''ntdll.dll'' @ [0])) of
        None \<Rightarrow> None
      | Some module \<Rightarrow> get_proc_address ld module (ascii ''NtQueryDirectoryFile''))"

definition load_query_by_name :: "('m, 'p) dll_loader \<Rightarrow> 'p option" where
  "load_query_by_name ld =
     (case load_library ld (to_wide_null (ascii ''ntdll.dll'' @ [0])) of
        None \<Rightarrow> None
      | Some module \<Rightarrow> get_proc_address ld module (ascii ''NtQueryInformationByName''))"

definition load_ntdll_query_dir :: "('m, 'p) dll_loader \<Rightarrow> 'p option" where
  "load_ntdll_query_dir ld =
     (case load_library ld (to_wide_null (ascii ''ntdll.dll'' @ [0])) of
        None \<Rightarrow> None
      | Some module \<Rightarrow> get_proc_address ld module (ascii ''NtQueryDirectoryFileEx''))"

definition open_dir :: "'w poc_world \<Rightarrow> path \<Rightarrow> 'w \<Rightarrow> (io_error + int) \<times> 'w" where
  "open_dir ops p w =
     (case pw_create_file ops (path_to_widestring p) w of (h, w) \<Rightarrow>
      if h = INVALID_HANDLE_VALUE then (Inl (pw_last_os_error ops w), w) else (Inr h, w))"

definition query_dir_once_full :: "'w poc_world \<Rightarrow> int \<Rightarrow> u32 \<Rightarrow> int \<Rightarrow> u16 list option \<Rightarrow> int \<Rightarrow> 'w \<Rightarrow>
    (io_error + u8 list \<times> nat) \<times> 'w" where
  "query_dir_once_full ops handle info_class return_single file_name restart w =
     (case pw_query_dir ops handle info_class return_single file_name restart (replicate (64 * 1024) 0) w of
        ((status, written), buffer, w) \<Rightarrow>
          if status < 0 \<and> status \<noteq> STATUS_NO_MORE_FILES
          then (Inl (OsError status (pw_error_kind ops status)), w)
          else (Inr (take written buffer, written), w))"

definition query_dir_once :: "'w poc_world \<Rightarrow> int \<Rightarrow> u32 \<Rightarrow> int \<Rightarrow> 'w \<Rightarrow> (io_error + u8 list \<times> nat) \<times> 'w" where
  "query_dir_once ops handle info_class restart w = query_dir_once_full ops handle info_class 0 None restart w"

section \<open>The check on a single file\<close>

text \<open>The sizes \<open>(64..=128).step_by(4)\<close>, each tried with a buffer of that size until one is accepted.\<close>

definition probe_sizes :: "nat list" where
  "probe_sizes = map (\<lambda>k. 64 + 4 * k) [0..<17]"

fun probe_loop :: "'w poc_world \<Rightarrow> int \<Rightarrow> u16 \<times> u16 list \<Rightarrow> nat list \<Rightarrow> 'w \<Rightarrow> nat option \<times> poc_event list \<times> 'w" where
  "probe_loop ops dir_handle name [] w = (None, [], w)"
| "probe_loop ops dir_handle name (probe_size # sizes) w =
     (case pw_query_by_name ops dir_handle name (replicate probe_size 0) FILE_STAT_BASIC_INFORMATION_CLASS w of
        (status_probe, buf, w) \<Rightarrow>
          if status_probe = 0 then (Some probe_size, [Probe probe_size 0], w)
          else case probe_loop ops dir_handle name sizes w of
                 (found, evs, w) \<Rightarrow> (found, Probe probe_size status_probe # evs, w))"

definition test_single_file_class77 :: "('m, 'p) dll_loader \<Rightarrow> 'w poc_world \<Rightarrow> int \<Rightarrow>
    (rust_text \<times> u32 \<times> u32) list \<Rightarrow> 'w \<Rightarrow> u32 option \<times> poc_event list \<times> 'w" where
  "test_single_file_class77 ld ops dir_handle entries w =
     (case load_query_by_name ld of
        None \<Rightarrow> (None, [ByNameUnavailable], w)
      | Some _ \<Rightarrow>
          (case entries of
             [] \<Rightarrow> (None, [], w)
           | (name, _, _) # _ \<Rightarrow>
               let wide = text_utf16 name in
               if wide = [] then (None, [], w)
               else
                 let byte_len = of_nat (length wide * 2) :: u16;
                     declared = DeclaredSize (size_of FILE_STAT_BASIC_INFORMATION) in
                 case probe_loop ops dir_handle (byte_len, wide) probe_sizes w of
                   (None, evs, w) \<Rightarrow> (None, declared # evs @ [NoSizeAccepted], w)
                 | (Some valid_size, evs, w) \<Rightarrow>
                     (case pw_query_by_name ops dir_handle (byte_len, wide) (replicate valid_size 0)
                             FILE_STAT_BASIC_INFORMATION_CLASS w of
                        (status, stat_buf, w) \<Rightarrow>
                          if status \<noteq> 0 then (None, declared # evs @ [SecondCallFailed status], w)
                          else if 68 \<le> valid_size
                          then let nlinks = u32_at stat_buf 64; attrs = u32_at stat_buf 56 in
                               (Some nlinks, declared # evs @ [LinksFound name nlinks attrs valid_size], w)
                          else (None, declared # evs @ [SizeTooSmall valid_size], w))))"

section \<open>\<open>main\<close>\<close>

definition dump_events :: "u8 list \<Rightarrow> nat \<Rightarrow> poc_event list" where
  "dump_events buffer max_bytes =
     DumpHeader (min (length buffer) max_bytes) (length buffer) # map DumpRow (dump_hex buffer max_bytes) @
     (if max_bytes < length buffer then [DumpOmitted (length buffer - max_bytes)] else [])"

text \<open>The three combinations of parameters: label, single entry, name, restart. The first success is kept.\<close>

definition class77_attempts :: "(nat \<times> int \<times> u16 list option \<times> int) list" where
  "class77_attempts =
     [(0, 0, None, 1), (1, 0, Some (to_wide_null (ascii ''*'')), 1), (2, 1, None, 1)]"

fun try_class77 :: "'w poc_world \<Rightarrow> int \<Rightarrow> (nat \<times> int \<times> u16 list option \<times> int) list \<Rightarrow> (u8 list \<times> nat) option \<Rightarrow>
    'w \<Rightarrow> (u8 list \<times> nat) option \<times> poc_event list \<times> 'w" where
  "try_class77 ops handle [] buf77 w = (buf77, [], w)"
| "try_class77 ops handle ((label, ret_single, fname, restart) # attempts) buf77 w =
     (case query_dir_once_full ops handle FILE_STAT_BASIC_INFORMATION_CLASS ret_single fname restart w of
        (Inr (b, n), w) \<Rightarrow>
          (case try_class77 ops handle attempts (if buf77 = None then Some (b, n) else buf77) w of
             (buf77, evs, w) \<Rightarrow> (buf77, Attempt label (Inr n) # evs, w))
      | (Inl e, w) \<Rightarrow>
          (case try_class77 ops handle attempts buf77 w of
             (buf77, evs, w) \<Rightarrow> (buf77, Attempt label (Inl e) # evs, w)))"

definition try_no_ex :: "('m, 'p) dll_loader \<Rightarrow> 'w poc_world \<Rightarrow> int \<Rightarrow> 'w \<Rightarrow> poc_event list \<times> 'w" where
  "try_no_ex ld ops handle w =
     (case load_query_dir_no_ex ld of
        None \<Rightarrow> ([NoExUnavailable], w)
      | Some _ \<Rightarrow>
          let star_name = to_wide_null (ascii ''*''); len = (of_nat (length star_name - 1) :: u16) * 2 in
          (case pw_query_dir_no_ex ops handle FILE_STAT_BASIC_INFORMATION_CLASS 0 (len, star_name) 1
                  (replicate (64 * 1024) 0) w of
             ((status, information), buf, w) \<Rightarrow>
               ([NoExAvailable (if status = 0 then Inr information else Inl status)], w)))"

definition anchor_events :: "u8 list \<Rightarrow> nat list \<Rightarrow> (rust_text \<times> u32 \<times> u32) list \<Rightarrow> poc_event list" where
  "anchor_events buf77 chain class37_entries =
     map (\<lambda>(name, _, _). case anchor_of buf77 chain name of
            None \<Rightarrow> NameNotFound name | Some a \<Rightarrow> AnchorFound a) class37_entries"

fun chunks8 :: "u8 list \<Rightarrow> u8 list list" where
  "chunks8 bs = (if bs = [] then [] else take 8 bs # chunks8 (drop 8 bs))"

declare chunks8.simps [simp del]

definition header_rows :: "u8 list \<Rightarrow> poc_event list" where
  "header_rows header =
     map (\<lambda>(i, chunk).
       HeaderRow (i * 8) (join_space (map hex_byte chunk))
         (if 4 \<le> length chunk then u32_at chunk 0 else 0)
         (if 8 \<le> length chunk then u32_at chunk 4 else 0)
         (if 8 \<le> length chunk then u64_at chunk 0 else 0))
       (take 16 (List.enumerate 0 (chunks8 header)))"

text \<open>
  How the program ends: exit code, return, a panic of an index, or a raw read outside of a buffer, which is
  undefined behaviour.
\<close>

datatype poc_exit = Exited nat | Returned | Panicked | OutOfBounds

text \<open>Step 5: the header of the first anchor and the search for the link count.\<close>

definition search_links :: "u8 list \<Rightarrow> u8 list \<Rightarrow> (rust_text \<times> u32 \<times> u32) list \<Rightarrow> rust_text \<Rightarrow> nat \<Rightarrow> nat \<Rightarrow>
    poc_exit \<times> poc_event list" where
  "search_links buf37 buf77 class37_entries baseline_name entry_start common =
     (case List.find (\<lambda>(n, _, _). n = baseline_name) class37_entries of
        None \<Rightarrow> (Returned, [])
      | Some (_, _, c37_off) \<Rightarrow>
          (case read_info buf37 (unat c37_off) of
             None \<Rightarrow> (OutOfBounds, [])
           | Some c37_entry \<Rightarrow>
               let base = Baseline baseline_name (fi_last_write_time c37_entry) (fi_end_of_file c37_entry)
                            (fi_file_attributes c37_entry) in
               (case links_candidate buf77 entry_start common (fi_last_write_time c37_entry) of
                  None \<Rightarrow> (Panicked, [base])
                | Some None \<Rightarrow> (Returned, [base, TimeNotFound])
                | Some (Some (idx_in_header, candidate)) \<Rightarrow>
                    (Returned, [base, TimeFound idx_in_header (entry_start + idx_in_header)] @
                       (case candidate of None \<Rightarrow> [] | Some nlinks \<Rightarrow> [Candidate (idx_in_header + 40) nlinks])))))"

definition analyse_header :: "((nat \<times> nat) list \<Rightarrow> (nat \<times> nat) list) \<Rightarrow> u8 list \<Rightarrow> u8 list \<Rightarrow>
    (rust_text \<times> u32 \<times> u32) list \<Rightarrow> anchor list \<Rightarrow> poc_exit \<times> poc_event list" where
  "analyse_header iter buf37 buf77 class37_entries anchors =
     (case anchors of
        [] \<Rightarrow> (Returned, [NoAnchors])
      | (name, pos, entry_start, _) # _ \<Rightarrow>
          let common = common_header iter anchors;
              evs = [HeaderGuess common, FirstEntry name entry_start pos] in
          (case slice_range buf77 entry_start pos of
             None \<Rightarrow> (Panicked, evs)
           | Some header \<Rightarrow>
               (case search_links buf37 buf77 class37_entries name entry_start common of
                  (r, evs') \<Rightarrow> (r, evs @ header_rows header @ evs'))))"

text \<open>Steps 2 to 6, on the second handle, which is closed at the end.\<close>

definition class77_phase :: "('m, 'p) dll_loader \<Rightarrow> ((nat \<times> nat) list \<Rightarrow> (nat \<times> nat) list) \<Rightarrow> 'w poc_world \<Rightarrow>
    int \<Rightarrow> u8 list \<Rightarrow> (rust_text \<times> u32 \<times> u32) list \<Rightarrow> 'w \<Rightarrow> poc_exit \<times> poc_event list \<times> 'w" where
  "class77_phase ld iter ops handle buf37 class37_entries w =
     (case try_class77 ops handle class77_attempts None w of (buf77, evs1, w) \<Rightarrow>
      case try_no_ex ld ops handle w of (evs2, w) \<Rightarrow>
      case test_single_file_class77 ld ops handle class37_entries w of (single_file_class77_ok, evs3, w) \<Rightarrow>
      case buf77 of
        None \<Rightarrow> (Returned, evs1 @ evs2 @ evs3 @ [EnumerationFailed (single_file_class77_ok \<noteq> None)],
                 pw_close_handle ops handle w)
      | Some (buf77, written77) \<Rightarrow>
          let chain = walk_next_offset_chain buf77;
              evs4 = Class77Written written77 # dump_events buf77 2048 @ [Chain chain] @
                       anchor_events buf77 chain class37_entries in
          (case analyse_header iter buf37 buf77 class37_entries (find_anchors buf77 chain class37_entries) of
             (r, evs5) \<Rightarrow>
               (r, evs1 @ evs2 @ evs3 @ evs4 @ evs5,
                pw_close_handle ops handle (if r = Returned then pw_create_dir_all ops w else w))))"

definition class37_events :: "(rust_text \<times> u32 \<times> u32) list \<Rightarrow> u8 list \<Rightarrow> poc_event list" where
  "class37_events class37_entries buf37 =
     Class37Count (length class37_entries) #
     map (\<lambda>(i, name, nxt, off). Class37Row i off nxt name) (List.enumerate 0 (take 10 class37_entries)) @
     (if length class37_entries < 3 then [FewEntries (length class37_entries)] else []) @ dump_events buf37 1024"

definition class77_main :: "('m, 'p) dll_loader \<Rightarrow> ((nat \<times> nat) list \<Rightarrow> (nat \<times> nat) list) \<Rightarrow> 'w poc_world \<Rightarrow>
    path option \<Rightarrow> 'w \<Rightarrow> poc_exit \<times> poc_event list \<times> 'w" where
  "class77_main ld iter ops arg w =
     (let dir = (case arg of Some p \<Rightarrow> p | None \<Rightarrow> [46]); evs = [TestDirectory dir] in
      case load_ntdll_query_dir ld of
        None \<Rightarrow> (Exited 1, evs @ [LoadFailed], w)
      | Some _ \<Rightarrow>
          (case open_dir ops dir w of
             (Inl e, w) \<Rightarrow> (Exited 1, evs @ [OpenFailed e], w)
           | (Inr guard, w) \<Rightarrow>
               (case query_dir_once ops guard FILE_ID_BOTH_DIR_INFO_CLASS 1 w of
                  (Inl e, w) \<Rightarrow> (Exited 1, evs @ [Class37Failed e], w)
                | (Inr (buf37, _), w) \<Rightarrow>
                    (case parse_class37 buf37 of
                       None \<Rightarrow> (OutOfBounds, evs, w)
                     | Some class37_entries \<Rightarrow>
                         let evs = evs @ class37_events class37_entries buf37;
                             w = pw_close_handle ops guard w in
                         (case open_dir ops dir w of
                            (Inl e, w) \<Rightarrow> (Exited 1, evs @ [SecondOpenFailed e], w)
                          | (Inr guard2, w) \<Rightarrow>
                              (case class77_phase ld iter ops guard2 buf37 class37_entries w of
                                 (r, evs', w) \<Rightarrow> (r, evs @ evs', w)))))))"

section \<open>No read outside a buffer\<close>

definition offsets_readable :: "u8 list \<Rightarrow> (rust_text \<times> u32 \<times> u32) list \<Rightarrow> bool" where
  "offsets_readable buffer entries \<longleftrightarrow> (\<forall>(name, nxt, off) \<in> set entries. unat off + INFO_SIZE \<le> length buffer)"

lemma offsets_readable_snoc:
  assumes "offsets_readable buffer out" and "offset + INFO_SIZE \<le> length buffer" and "length buffer < 2 ^ 32"
  shows "offsets_readable buffer (out @ [(name, nxt, of_nat offset)])"
  using assms by (simp add: offsets_readable_def unat_of_nat take_bit_eq_mod)

lemma class37_offsets_readable:
  assumes "class37_from buffer offset out = Some out'" and "offsets_readable buffer out" and "length buffer < 2 ^ 32"
  shows "offsets_readable buffer out'"
  using assms(1,2)
proof (induction "length buffer - offset" arbitrary: offset out rule: less_induct)
  case less
  show ?case
  proof (cases "offset + INFO_SIZE \<le> length buffer")
    case room: True
    then obtain e where e: "read_info buffer offset = Some e" by (simp add: read_info_def)
    let ?name = "u16s_at buffer (offset + FILE_NAME_OFFSET) (unat (fi_file_name_length e) div 2)"
    let ?out = "if is_dot_wide ?name then out
      else out @ [(wtf8_lossy (from_wide ?name), fi_next_entry_offset e, of_nat offset)]"
    have out: "offsets_readable buffer ?out" using less(3) room assms(3) by (simp add: offsets_readable_snoc)
    show ?thesis
    proof (cases "length buffer < offset + FILE_NAME_OFFSET + unat (fi_file_name_length e)")
      case True
      with e less show ?thesis using class37_stops(1) [of offset buffer out] by simp
    next
      case False
      note round = class37_rounds(1) [OF room e False, of out]
      have "length buffer - (offset + unat (fi_next_entry_offset e)) < length buffer - offset"
        if "fi_next_entry_offset e \<noteq> 0"
        using that room by (intro diff_less_mono2) (auto simp: unat_gt_0 INFO_SIZE_eq)
      then show ?thesis
        using round less(2) out less(1) [of "offset + unat (fi_next_entry_offset e)" ?out]
        by (cases "fi_next_entry_offset e = 0") simp_all
    qed
  next
    case False
    with less show ?thesis by (simp add: class37_stops)
  qed
qed

text \<open>The system writes into the buffer it is given, it does not change its length.\<close>

definition keeps_buffer :: "'w poc_world \<Rightarrow> bool" where
  "keeps_buffer ops \<longleftrightarrow>
     (\<forall>h c single name restart buf w. length (fst (snd (pw_query_dir ops h c single name restart buf w))) = length buf)"

lemma query_dir_once_length:
  assumes "keeps_buffer ops" and "query_dir_once ops h c restart w = (Inr (buf, n), w')"
  shows "length buf \<le> 64 * 1024"
proof -
  obtain status k buf' w'' where q: "pw_query_dir ops h c 0 None restart (replicate (64 * 1024) 0) w = ((status, k), buf', w'')"
    by (metis surj_pair)
  then have "length buf' = 64 * 1024"
    using assms(1) unfolding keeps_buffer_def by (metis fst_conv length_replicate snd_conv)
  moreover have "buf = take k buf'"
    using assms(2) unfolding query_dir_once_def query_dir_once_full_def q by (auto split: if_splits)
  ultimately show ?thesis by simp
qed

lemma search_links_in_bounds:
  assumes "offsets_readable buf37 entries"
  shows "fst (search_links buf37 buf77 entries name start common) \<noteq> OutOfBounds"
proof (cases "List.find (\<lambda>(n, _, _). n = name) entries")
  case (Some x)
  obtain n nxt off where x: "x = (n, nxt, off)" by (cases x)
  have "x \<in> set entries" using Some by (metis (no_types, lifting) find_Some_iff nth_mem)
  then have "unat off + INFO_SIZE \<le> length buf37" using assms by (auto simp: offsets_readable_def x)
  then show ?thesis by (auto simp: search_links_def Some x read_info_def Let_def split: option.splits)
qed (simp add: search_links_def)

lemma analyse_header_in_bounds:
  assumes "offsets_readable buf37 entries"
  shows "fst (analyse_header iter buf37 buf77 entries anchors) \<noteq> OutOfBounds"
  using search_links_in_bounds [OF assms]
  by (cases anchors) (auto simp: analyse_header_def Let_def split: option.splits prod.splits, metis fst_conv)

lemma class77_phase_in_bounds:
  assumes "offsets_readable buf37 entries"
  shows "fst (class77_phase ld iter ops h buf37 entries w) \<noteq> OutOfBounds"
proof -
  obtain buf77 evs1 w1 where 1: "try_class77 ops h class77_attempts None w = (buf77, evs1, w1)" by (metis surj_pair)
  obtain evs2 w2 where 2: "try_no_ex ld ops h w1 = (evs2, w2)" by (metis surj_pair)
  obtain ok evs3 w3 where 3: "test_single_file_class77 ld ops h entries w2 = (ok, evs3, w3)" by (metis surj_pair)
  show ?thesis
  proof (cases buf77)
    case None
    then show ?thesis by (simp add: class77_phase_def 1 2 3)
  next
    case (Some b)
    obtain buf n where b: "b = (buf, n)" by (cases b)
    let ?chain = "walk_next_offset_chain buf"
    show ?thesis
      using analyse_header_in_bounds [OF assms, of iter buf "find_anchors buf ?chain entries"]
      by (auto simp: class77_phase_def 1 2 3 Some b Let_def split: prod.splits)
  qed
qed

text \<open>
  C27. The example reads only inside its buffers: on a system that fills the buffers it is given, whatever
  bytes it fills them with, \<open>main\<close> never ends in a read outside of a buffer. The offsets it keeps of the class 37
  records can be dereferenced later.
\<close>

theorem class77_main_memory_safe:
  assumes "keeps_buffer ops"
  shows "fst (class77_main ld iter ops arg w) \<noteq> OutOfBounds"
proof (cases "load_ntdll_query_dir ld")
  case (Some _)
  let ?dir = "case arg of Some p \<Rightarrow> p | None \<Rightarrow> [46]"
  obtain r w1 where 1: "open_dir ops ?dir w = (r, w1)" by (metis surj_pair)
  show ?thesis
  proof (cases r)
    case (Inr h)
    obtain q w2 where 2: "query_dir_once ops h FILE_ID_BOTH_DIR_INFO_CLASS 1 w1 = (q, w2)" by (metis surj_pair)
    show ?thesis
    proof (cases q)
      case q: (Inr b)
      obtain buf37 n where b: "b = (buf37, n)" by (cases b)
      have len: "length buf37 < 2 ^ 32" using query_dir_once_length [OF assms 2 [unfolded q b]] by simp
      obtain entries where entries: "class37_from buf37 0 [] = Some entries"
        using class37_from_eq [of buf37 0 "[]"] by blast
      then have "offsets_readable buf37 entries"
        using class37_offsets_readable [OF entries _ len] by (simp add: offsets_readable_def)
      note safe = class77_phase_in_bounds [OF this]
      obtain r2 w3 where "open_dir ops ?dir (pw_close_handle ops h w2) = (r2, w3)" by (metis surj_pair)
      then show ?thesis using safe [of ld iter ops "projr r2" w3]
        by (cases r2) (auto simp: class77_main_def Some 1 Inr 2 q b parse_class37_def entries Let_def split: prod.splits)
    qed (simp add: class77_main_def Some 1 Inr 2 Let_def)
  qed (simp add: class77_main_def Some 1 Let_def)
qed (simp add: class77_main_def Let_def)

section \<open>A system for the witnesses\<close>

text \<open>
  A system that fills every class 37 query with \<open>b37\<close> and every class 77 query with \<open>b77\<close>, and knows the single file
  query for buffers of at least eighty bytes.
\<close>

definition demo_loader :: "(unit, unit) dll_loader" where
  "demo_loader = \<lparr>load_library = (\<lambda>_. Some ()), get_proc_address = (\<lambda>_ _. Some ())\<rparr>"

definition fill :: "u8 list \<Rightarrow> u8 list \<Rightarrow> u8 list" where
  "fill bs buf = take (length buf) (bs @ drop (length bs) buf)"

definition demo_poc :: "u8 list \<Rightarrow> u8 list \<Rightarrow> unit poc_world" where
  "demo_poc b37 b77 =
     \<lparr>pw_create_file = (\<lambda>_ w. (3, w)), pw_last_os_error = (\<lambda>_. OsError 2 OtherKind),
      pw_query_dir = (\<lambda>h c single name restart buf w.
         let bs = (if c = FILE_ID_BOTH_DIR_INFO_CLASS then b37 else b77) in ((0, length bs), fill bs buf, w)),
      pw_query_dir_no_ex = (\<lambda>h c single name restart buf w. ((-1073741821, 0), buf, w)),
      pw_query_by_name = (\<lambda>h name buf c w.
         if 80 \<le> length buf then (0, replicate 64 0 @ le_bytes 4 7 @ replicate 12 0 @ drop 80 buf, w)
         else (-1073741820, buf, w)),
      pw_error_kind = (\<lambda>_. OtherKind), pw_close_handle = (\<lambda>_ w. w), pw_create_dir_all = (\<lambda>w. w)\<rparr>"

text \<open>
  Three names; in the class 77 buffer the headers of \<open>b\<close> and \<open>c\<close> have twenty bytes, that of \<open>a\<close>, which is the last
  entry of that buffer and the first one of the listing, has four.
\<close>

definition demo_b37 :: "u8 list" where
  "demo_b37 = encode_chunk [example_record 0x20 [97], example_record 0x20 [98], example_record 0x20 [99]]"

definition demo_b77 :: "u8 list" where
  "demo_b77 = linked_entries [replicate 16 255 @ [98, 0], replicate 16 255 @ [99, 0], [97, 0]]"

definition demo_entries :: "(rust_text \<times> u32 \<times> u32) list" where
  "demo_entries = [([97], 112, 0), ([98], 112, 112), ([99], 0, 224)]"

definition demo_anchors :: "anchor list" where
  "demo_anchors = [([97], 48, 44, 4), ([98], 20, 0, 20), ([99], 42, 22, 20)]"

lemma demo_keeps_buffer: "keeps_buffer (demo_poc b37 b77)"
  by (simp add: keeps_buffer_def demo_poc_def Let_def fill_def min_def)

lemma fill_take: "length bs \<le> length buf \<Longrightarrow> take (length bs) (fill bs buf) = bs"
  by (simp add: fill_def min_def)

lemma demo_lengths: "length demo_b37 = 336" "length demo_b77 = 50"
  by code_simp+

lemma demo_parse: "parse_class37 demo_b37 = Some demo_entries"
proof -
  let ?rs = "[example_record 0x20 [97], example_record 0x20 [98]]" and ?r = "example_record 0x20 [99]"
  have "list_all nt_ok ?rs" "nt_ok ?r" by code_simp+
  then have "parse_class37 demo_b37 = Some (front37 0 ?rs @ listed37 (length (encode_front ?rs)) 0 ?r)"
    unfolding demo_b37_def using parse_class37_chunk [of ?rs ?r] by simp
  also have "front37 0 ?rs @ listed37 (length (encode_front ?rs)) 0 ?r = demo_entries" by code_simp
  finally show ?thesis .
qed

lemma demo_find_anchors:
  "find_anchors demo_b77 (walk_next_offset_chain demo_b77) demo_entries = demo_anchors"
  by code_simp

lemma demo_query:
  "query_dir_once_full (demo_poc demo_b37 demo_b77) h c single name restart () =
     (let bs = (if c = FILE_ID_BOTH_DIR_INFO_CLASS then demo_b37 else demo_b77) in (Inr (bs, length bs), ()))"
  by (simp add: query_dir_once_full_def demo_poc_def Let_def fill_take demo_lengths del: replicate.simps)

lemma demo_common_header:
  assumes "mset (iter (size_count demo_anchors)) = mset (size_count demo_anchors)"
  shows "common_header iter demo_anchors = 20"
proof -
  have "common_header iter demo_anchors \<in> {4, 20}"
    using common_header_most_frequent(1) [of iter demo_anchors] assms by (auto simp: demo_anchors_def anchor_header_size_def)
  moreover have "count_list (map anchor_header_size demo_anchors) 20 \<le>
      count_list (map anchor_header_size demo_anchors) (common_header iter demo_anchors)"
    using common_header_most_frequent(2) [of iter demo_anchors] assms by (simp add: demo_anchors_def)
  ultimately show ?thesis by (auto simp: demo_anchors_def anchor_header_size_def)
qed

lemma demo_analysis_panics:
  assumes "mset (iter (size_count demo_anchors)) = mset (size_count demo_anchors)"
  shows "fst (analyse_header iter demo_b37 demo_b77 demo_entries demo_anchors) = Panicked"
proof -
  have "links_candidate demo_b77 44 20 t = None" for t
    by (simp add: links_candidate_panics_iff demo_lengths)
  then have "fst (search_links demo_b37 demo_b77 demo_entries [97] 44 20) = Panicked"
    by (simp add: search_links_def demo_entries_def read_info_def INFO_SIZE_eq demo_lengths Let_def)
  moreover have "slice_range demo_b77 44 48 = Some (take 4 (drop 44 demo_b77))"
    by (simp add: slice_range_def demo_lengths)
  moreover have "common_header iter demo_anchors = 20" using assms by (rule demo_common_header)
  ultimately show ?thesis
    unfolding analyse_header_def by (auto simp: demo_anchors_def Let_def split: prod.splits)
qed

lemma demo_main:
  "fst (class77_main demo_loader iter (demo_poc demo_b37 demo_b77) None ()) =
     fst (analyse_header iter demo_b37 demo_b77 demo_entries demo_anchors)"
proof -
  let ?ops = "demo_poc demo_b37 demo_b77"
  obtain r evs5 where r: "analyse_header iter demo_b37 demo_b77 demo_entries demo_anchors = (r, evs5)"
    by (metis surj_pair)
  obtain evs1 where 1: "try_class77 ?ops 3 class77_attempts None () = (Some (demo_b77, 50), evs1, ())"
    by (simp add: class77_attempts_def demo_query Let_def FILE_ID_BOTH_DIR_INFO_CLASS_def
        FILE_STAT_BASIC_INFORMATION_CLASS_def demo_lengths)
  obtain evs2 where 2: "try_no_ex demo_loader ?ops 3 () = (evs2, ())" by (metis surj_pair unit.exhaust)
  obtain ok evs3 where 3: "test_single_file_class77 demo_loader ?ops 3 demo_entries () = (ok, evs3, ())"
    by (metis surj_pair unit.exhaust)
  have open3: "open_dir ?ops p () = (Inr 3, ())" for p
    by (simp add: open_dir_def demo_poc_def INVALID_HANDLE_VALUE_def)
  have "fst (class77_phase demo_loader iter ?ops 3 demo_b37 demo_entries ()) = r"
    by (simp add: class77_phase_def 1 2 3 demo_find_anchors r Let_def)
  then obtain evs' where "class77_phase demo_loader iter ?ops 3 demo_b37 demo_entries () = (r, evs', ())"
    by (metis fst_conv surj_pair unit.exhaust)
  moreover have "load_ntdll_query_dir demo_loader = Some ()"
    by (simp add: load_ntdll_query_dir_def demo_loader_def)
  moreover have "query_dir_once ?ops 3 FILE_ID_BOTH_DIR_INFO_CLASS 1 () = (Inr (demo_b37, length demo_b37), ())"
    by (simp add: query_dir_once_def demo_query)
  moreover have "pw_close_handle ?ops 3 () = ()" by simp
  ultimately show ?thesis by (simp add: class77_main_def open3 demo_parse Let_def r)
qed

theorem class77_main_memory_safe_witness:
  "keeps_buffer (demo_poc demo_b37 demo_b77) \<and>
   fst (class77_main demo_loader id (demo_poc demo_b37 demo_b77) None ()) \<noteq> OutOfBounds"
  by (intro conjI class77_main_memory_safe demo_keeps_buffer)

text \<open>
  The guess of the header size can stop the program: the most frequent size is taken from all anchors, but it is
  cut out of the buffer at the first one, which may be the last and shortest entry. There is a listing for which
  \<open>main\<close> panics, whatever the order of the table of sizes.
\<close>

theorem class77_header_guess_panics:
  assumes "mset (iter (size_count demo_anchors)) = mset (size_count demo_anchors)"
  shows "fst (class77_main demo_loader iter (demo_poc demo_b37 demo_b77) None ()) = Panicked"
  using demo_main demo_analysis_panics [of iter] assms by metis

theorem class77_header_guess_panics_witness:
  "fst (class77_main demo_loader rev (demo_poc demo_b37 demo_b77) None ()) = Panicked"
  by (rule class77_header_guess_panics) simp

section \<open>The check on a single file finds the link count\<close>

text \<open>
  A system that knows class 77 for single files: it accepts buffers that have room for the structure, whose bytes
  are \<open>stat\<close>, and refuses smaller ones.
\<close>

definition serves_class77 :: "'w poc_world \<Rightarrow> int \<Rightarrow> u16 \<times> u16 list \<Rightarrow> u8 list \<Rightarrow> bool" where
  "serves_class77 ops h name stat \<longleftrightarrow>
     (\<forall>buf w. \<exists>status w'. pw_query_by_name ops h name buf FILE_STAT_BASIC_INFORMATION_CLASS w =
        (if length stat \<le> length buf then (0, stat @ drop (length stat) buf, w') else (status, buf, w')) \<and>
        (length buf < length stat \<longrightarrow> status \<noteq> 0))"

lemma serves_class77_ok:
  assumes "serves_class77 ops h name stat" and "length stat \<le> n"
  shows "\<exists>w'. pw_query_by_name ops h name (replicate n 0) FILE_STAT_BASIC_INFORMATION_CLASS w =
    (0, stat @ drop (length stat) (replicate n 0), w')"
proof -
  obtain status w' where "pw_query_by_name ops h name (replicate n 0) FILE_STAT_BASIC_INFORMATION_CLASS w =
      (if length stat \<le> length (replicate n (0 :: u8))
       then (0, stat @ drop (length stat) (replicate n 0), w') else (status, replicate n 0, w'))"
    using assms(1) unfolding serves_class77_def by blast
  then show ?thesis using assms(2) by (simp del: drop_replicate)
qed

lemma serves_class77_refused:
  assumes "serves_class77 ops h name stat" and "n < length stat"
  shows "\<exists>status w'. status \<noteq> 0 \<and>
    pw_query_by_name ops h name (replicate n 0) FILE_STAT_BASIC_INFORMATION_CLASS w = (status, replicate n 0, w')"
proof -
  obtain status w' where q: "pw_query_by_name ops h name (replicate n 0) FILE_STAT_BASIC_INFORMATION_CLASS w =
      (if length stat \<le> length (replicate n (0 :: u8))
       then (0, stat @ drop (length stat) (replicate n 0), w') else (status, replicate n 0, w'))"
    and "length (replicate n (0 :: u8)) < length stat \<longrightarrow> status \<noteq> 0"
    using assms(1) unfolding serves_class77_def by blast
  then have "status \<noteq> 0" using assms(2) by simp
  moreover have "pw_query_by_name ops h name (replicate n 0) FILE_STAT_BASIC_INFORMATION_CLASS w =
      (status, replicate n 0, w')" using q assms(2) by simp
  ultimately show ?thesis by blast
qed

lemma probe_loop_finds:
  assumes "serves_class77 ops h name stat" and "\<exists>n \<in> set sizes. length stat \<le> n"
  shows "\<exists>n evs w'. probe_loop ops h name sizes w = (Some n, evs, w') \<and> length stat \<le> n"
  using assms(2)
proof (induction sizes arbitrary: w)
  case (Cons n sizes)
  show ?case
  proof (cases "length stat \<le> n")
    case True
    then show ?thesis using serves_class77_ok [OF assms(1) True, of w] by (auto simp del: drop_replicate)
  next
    case False
    then obtain status w' where "status \<noteq> 0"
      "pw_query_by_name ops h name (replicate n 0) FILE_STAT_BASIC_INFORMATION_CLASS w = (status, replicate n 0, w')"
      using serves_class77_refused [OF assms(1), of n w] by force
    moreover obtain m evs w'' where "probe_loop ops h name sizes w' = (Some m, evs, w'')" "length stat \<le> m"
      using Cons False by force
    ultimately show ?thesis by simp
  qed
qed simp

text \<open>
  The check on a single file finds the size the system asks for and reads the link count from the place where
  the structure has it, for every structure of 68 to 128 bytes.
\<close>

theorem single_file_check_reads_links:
  assumes "load_query_by_name ld = Some f" and "name \<noteq> []"
    and "serves_class77 ops h (of_nat (length (text_utf16 name) * 2), text_utf16 name) stat"
    and "68 \<le> length stat" and "length stat \<le> 128"
  shows "\<exists>evs w'. test_single_file_class77 ld ops h ((name, nxt, off) # entries) w =
    (Some (u32_at stat (offset_of FILE_STAT_BASIC_INFORMATION ''NumberOfLinks'')), evs, w')"
proof -
  let ?name = "(of_nat (length (text_utf16 name) * 2) :: u16, text_utf16 name)"
  have wide: "text_utf16 name \<noteq> []" using assms(2) by (cases name) (simp_all add: text_utf16_def encode_utf16_def)
  have "128 \<in> set probe_sizes" by code_simp
  then obtain n evs w1 where probe: "probe_loop ops h ?name probe_sizes w = (Some n, evs, w1)" and n: "length stat \<le> n"
    using probe_loop_finds [OF assms(3), of probe_sizes w] assms(5) by blast
  obtain w2 where second: "pw_query_by_name ops h ?name (replicate n 0) FILE_STAT_BASIC_INFORMATION_CLASS w1 =
      (0, stat @ drop (length stat) (replicate n 0), w2)"
    using serves_class77_ok [OF assms(3) n] by blast
  have "offset_of FILE_STAT_BASIC_INFORMATION ''NumberOfLinks'' = 64" by code_simp
  then have "u32_at (stat @ drop (length stat) (replicate n 0)) 64 =
      u32_at stat (offset_of FILE_STAT_BASIC_INFORMATION ''NumberOfLinks'')"
    using assms(4) by (simp add: u32_at_def del: drop_replicate)
  moreover have "68 \<le> n" using n assms(4) by simp
  ultimately show ?thesis
    unfolding test_single_file_class77_def assms(1)
    by (simp add: wide probe second Let_def del: drop_replicate of_nat_mult)
qed

lemma demo_serves_class77:
  "serves_class77 (demo_poc b37 b77) h name (replicate 64 0 @ le_bytes 4 7 @ replicate 12 0)"
  by (auto simp: serves_class77_def demo_poc_def simp del: le_bytes.simps)

theorem single_file_check_reads_links_witness:
  "\<exists>evs w'. test_single_file_class77 demo_loader (demo_poc demo_b37 demo_b77) 3 demo_entries () = (Some 7, evs, w')"
proof -
  let ?stat = "replicate 64 0 @ le_bytes 4 7 @ replicate 12 0 :: u8 list"
  have "load_query_by_name demo_loader = Some ()" by (simp add: load_query_by_name_def demo_loader_def)
  moreover have "68 \<le> length ?stat" "length ?stat \<le> 128" by (simp_all del: le_bytes.simps)
  moreover have "u32_at ?stat (offset_of FILE_STAT_BASIC_INFORMATION ''NumberOfLinks'') = 7" by code_simp
  ultimately show ?thesis
    using single_file_check_reads_links [of demo_loader "()" "[97]" "demo_poc demo_b37 demo_b77" 3 ?stat 112 0
        "[([98], 112, 112), ([99], 0, 224)]" "()"] demo_serves_class77
    by (simp add: demo_entries_def del: le_bytes.simps)
qed

end
