(* ===== verification/Error_Text.thy ===== *)
theory Error_Text
  imports Errors Rust_Text "HOL-Library.Sublist"
begin

text \<open>
  \<open>Display for Error\<close> of \<open>core/error.rs\<close>, with what \<open>std\<close> does to display an \<open>io::Error\<close> and a path. The
  description of an operating system code is a parameter.
\<close>

text \<open>\<open>Path::display\<close> of the target.\<close>

fun path_display :: "target \<Rightarrow> path \<Rightarrow> rust_text" where
  "path_display Unix p = from_utf8_lossy p"
| "path_display Windows p = wtf8_lossy p"

primrec error_text :: "target \<Rightarrow> (int \<Rightarrow> rust_text) \<Rightarrow> error \<Rightarrow> rust_text"
  and error_inner_text :: "target \<Rightarrow> (int \<Rightarrow> rust_text) \<Rightarrow> error_inner \<Rightarrow> rust_text"
  and io_error_text :: "target \<Rightarrow> (int \<Rightarrow> rust_text) \<Rightarrow> io_error \<Rightarrow> rust_text" where
  "error_text cfg os_string (Error depth inner) = error_inner_text cfg os_string inner"
| "error_inner_text cfg os_string ThreadpoolBusy =
     ascii ''rayon thread-pool too busy or dependency loop detected - aborting before possibility of deadlock''"
| "error_inner_text cfg os_string (Io p err) =
     (case p of
        None \<Rightarrow> io_error_text cfg os_string err
      | Some p \<Rightarrow> ascii ''IO error for operation on '' @ path_display cfg p @ ascii '': '' @
                    io_error_text cfg os_string err)"
| "error_inner_text cfg os_string (Loop ancestor child) =
     ascii ''File system loop found: '' @ path_display cfg child @ ascii '' points to an ancestor '' @
       path_display cfg ancestor"
| "io_error_text cfg os_string (OsError code k) =
     os_string code @ ascii '' (os error '' @ dec_int code @ ascii '')''"
| "io_error_text cfg os_string (MsgError k m) = ascii m"
| "io_error_text cfg os_string (WrapError k e) = error_text cfg os_string e"

text \<open>A path whose bytes are text is displayed as it is, on both targets.\<close>

lemma path_display_text:
  "\<forall>c \<in> set cs. is_scalar c \<Longrightarrow> path_display cfg (concat (map encode_wtf8 cs)) = cs"
  by (cases cfg) (simp_all add: from_utf8_lossy_text wtf8_lossy_text)

lemma error_text_io_error_from: "io_error_text cfg os_string (io_error_from e) = error_text cfg os_string e"
  by (simp add: io_error_from_def Let_def)

lemma error_text_source:
  "error_source e = Some err \<Longrightarrow> suffix (io_error_text cfg os_string err) (error_text cfg os_string e)"
  by (cases e) (auto simp: error_source_def suffix_def split: error_inner.splits option.splits)

lemma error_text_path:
  "error_path e = Some p \<Longrightarrow> sublist (path_display cfg p) (error_text cfg os_string e)"
  by (cases e) (auto simp: error_path_def split: error_inner.splits option.splits)

lemma error_text_ancestor:
  "loop_ancestor e = Some p \<Longrightarrow> suffix (path_display cfg p) (error_text cfg os_string e)"
  by (cases e) (auto simp: loop_ancestor_def suffix_def split: error_inner.splits)

section \<open>Properties\<close>

text \<open>
  C29. The text of an error keeps its context: the conversion to \<open>io::Error\<close> displays the same text,
  the text ends with that of the underlying I/O error, it shows the path of the error, character by
  character where the path is valid text, and the text of a loop ends with the ancestor that closes it.
\<close>

theorem error_text_keeps_context:
  "io_error_text cfg os_string (io_error_from e) = error_text cfg os_string e \<and>
   (\<forall>err. error_source e = Some err \<longrightarrow> suffix (io_error_text cfg os_string err) (error_text cfg os_string e)) \<and>
   (\<forall>p. error_path e = Some p \<longrightarrow> sublist (path_display cfg p) (error_text cfg os_string e)) \<and>
   (\<forall>cs. (\<forall>c \<in> set cs. is_scalar c) \<and> error_path e = Some (concat (map encode_wtf8 cs)) \<longrightarrow>
      sublist cs (error_text cfg os_string e)) \<and>
   (\<forall>p. loop_ancestor e = Some p \<longrightarrow> suffix (path_display cfg p) (error_text cfg os_string e))"
  using error_text_path [of e _ cfg os_string]
  by (auto simp: error_text_io_error_from error_text_source error_text_ancestor path_display_text
      dest: error_text_path [of e _ cfg os_string])

text \<open>The text of a missing directory \<open>d\<close>.\<close>

theorem error_text_keeps_context_witness:
  "sublist (ascii ''d'') (error_text Unix (\<lambda>_. ascii ''gone'') (error_from_path 0 [100] (OsError 2 OtherKind))) \<and>
   error_text Unix (\<lambda>_. ascii ''gone'') (error_from_path 0 [100] (OsError 2 OtherKind)) =
     ascii ''IO error for operation on d: gone (os error 2)''"
proof
  have "error_path (error_from_path 0 [100] (OsError 2 OtherKind)) = Some (concat (map encode_wtf8 (ascii ''d'')))"
    and "\<forall>c \<in> set (ascii ''d''). is_scalar c" by code_simp+
  then show "sublist (ascii ''d'')
      (error_text Unix (\<lambda>_. ascii ''gone'') (error_from_path 0 [100] (OsError 2 OtherKind)))"
    using error_text_keeps_context [of Unix "\<lambda>_. ascii ''gone''" "error_from_path 0 [100] (OsError 2 OtherKind)"]
    by blast
  show "error_text Unix (\<lambda>_. ascii ''gone'') (error_from_path 0 [100] (OsError 2 OtherKind)) =
     ascii ''IO error for operation on d: gone (os error 2)''" by code_simp
qed

end
