(* ===== verification/Spec2Isabelle.thy ===== *)
theory Spec2Isabelle
  imports Examples Class77_Poc Error_Text Par_Stop
begin

text \<open>
  This development models jwalk-meta, a library that walks a directory tree in parallel and hands
  out its entries in the order of a depth first traversal.

  \<^bold>\<open>The program.\<close> \<open>WalkDirGeneric\<close> (\<open>src/src/lib.rs\<close>) is a builder of options. \<open>into_iter\<close> makes the root
  entry and a closure that reads one directory, and hands both to \<open>DirEntryIter\<close>
  (\<open>core/dir_entry_iter.rs\<close>), which keeps a stack of listings and asks \<open>ReadDirIter\<close>
  (\<open>core/read_dir_iter.rs\<close>) for the listing of each directory it descends into. A serial
  \<open>ReadDirIter\<close> calls the closure itself, from a stack. A parallel one starts workers on a rayon pool:
  they take specifications of directories from a scheduling queue (\<open>core/priority_queue.rs\<close>), call the
  closure, send the result with its position in the tree to a result queue
  (\<open>core/ordered_queue.rs\<close>) and schedule the subdirectories; with streaming, subdirectories are
  scheduled already while the directory is enumerated. The consumer takes the results out of the result
  queue strictly in depth first order. Below the closure are the readers of one directory: on Linux
  \<open>getdents64\<close> with \<open>fstatat\<close>, \<open>statx\<close> or batches of \<open>statx\<close> through io_uring, elsewhere on Unix
  \<open>std::fs::read_dir\<close>, and on Windows \<open>NtQueryDirectoryFile\<close>.

  \<^bold>\<open>The theories\<close>, each with the source it translates.

  \<^item> \<open>Prelude\<close>: machine integers, the contract \<open>rust_ord\<close> of Rust's \<open>Ord\<close>, \<open>BinaryHeap\<close> as a list with
    maximum selection, and shared lemmas.
  \<^item> \<open>Index_Path\<close>: \<open>core/index_path.rs\<close>, \<open>core/ordered.rs\<close>, \<open>core/weighted.rs\<close>. The comparisons are
    lawful (\<open>heap_keys_lawful\<close>).
  \<^item> \<open>Ordered_Matcher\<close>, \<open>Ordered_Queue\<close>: \<open>core/ordered_queue.rs\<close>. The matcher refines the preorder of a
    tree of results; the strict iterator returns and delivers in order for every order of arrival.
  \<^item> \<open>Paths\<close>: the operations of \<open>std::path\<close> on byte strings that the crate uses.
  \<^item> \<open>Errors\<close>: \<open>core/error.rs\<close> and the retry loop of \<open>lib.rs\<close>.
  \<^item> \<open>Metadata\<close>: \<open>core/metadata.rs\<close>, the file types of \<open>core/unix_dir_enum.rs\<close>, and the conversions of
    \<open>stat\<close> and \<open>statx\<close> in \<open>lib.rs\<close>.
  \<^item> \<open>Dir_Entry\<close>: \<open>core/dir_entry.rs\<close>, \<open>core/read_dir_spec.rs\<close>; constructors and followed links, over the
    platform of the build.
  \<^item> \<open>Read_Dir\<close>: \<open>core/read_dir.rs\<close>; specifications and positions of the subdirectories.
  \<^item> \<open>Read_Dir_Iter\<close>, \<open>Dir_Entry_Iter\<close>: \<open>core/read_dir_iter.rs\<close>, \<open>core/dir_entry_iter.rs\<close>. The locale
    \<open>read_dir_source\<close> is what the entry iterator needs of a source of listings; it is interpreted on
    \<open>read_dir_iter_next\<close>, serial and parallel, and \<open>entry_source\<close> extends it by the walk.
  \<^item> \<open>Priority_Queue\<close>: \<open>core/priority_queue.rs\<close>; the scheduling iterator returns and loses nothing.
  \<^item> \<open>Par_Walk\<close>: the worker loop of \<open>core/read_dir_iter.rs\<close> over the shared objects of
    \<open>core/run_context.rs\<close>, as a step relation on any number of threads whose steps are the single
    accesses to shared objects. \<open>Par_Stop\<close>: what happens after the stop flag is set, by \<open>Drop\<close> of \<open>DirEntryIter\<close> or by
    the busy timeout. \<open>Par_Finish\<close>: fair executions, the work that is left in a state, and that a fair walk finishes.
  \<^item> \<open>Walk_Options\<close>: the builder of \<open>lib.rs\<close>. \<open>Reader\<close>: what the readers of \<open>lib.rs\<close> share.
  \<^item> \<open>Getdents\<close>: \<open>core/unix_dir_enum.rs\<close>, over the bytes of the kernel's buffer. \<open>Fs_Detect\<close>:
    \<open>core/fs_detect.rs\<close>. \<open>Io_Uring\<close>: \<open>core/linux_io_uring.rs\<close>. \<open>Read_Dir_Linux\<close>: the Unix readers of \<open>lib.rs\<close>.
  \<^item> \<open>Wide\<close>: UTF-16, WTF-8 and little-endian integers. \<open>Rust_Text\<close>: text, lossy decoding and number formats.
    \<open>Error_Text\<close>: \<open>Display\<close> of \<open>core/error.rs\<close>. \<open>Layout\<close>: sizes and offsets of \<open>repr(C)\<close> structures, with those of
    \<open>core/nt_dir_enum.rs\<close> and of the examples, and \<open>examples/check_layout.rs\<close>.
  \<^item> \<open>Nt_Dir_Enum\<close>: \<open>core/nt_dir_enum.rs\<close>, over the bytes of the buffer, with the loading of \<open>ntdll\<close>.
    \<open>Read_Dir_Windows\<close>: the Windows reader of \<open>lib.rs\<close>.
  \<^item> \<open>Core_Callback\<close>: \<open>into_iter\<close>, \<open>try_into_iter\<close> and the closure with its retries, over any reader; the
    locale \<open>dir_reader\<close> is the contract of a reader. \<open>Walk_Linux\<close> and \<open>Walk_Windows\<close> interpret it on
    \<open>read_dir_unix\<close> and \<open>read_dir_windows\<close>. \<open>Whole_Walk\<close> joins workers, queues and consumer for every such reader.
    \<open>Client_State\<close>: the locale \<open>client_reader\<close> extends \<open>dir_reader\<close> by what a client's callback may rely on, with both
    readers as its instances.
  \<^item> \<open>Examples\<close>: \<open>examples/du.rs\<close>, the scan benchmarks, \<open>debug_hang.rs\<close> and \<open>test_ft.rs\<close>. \<open>Class77_Parse\<close> and \<open>Class77_Poc\<close>:
    \<open>examples/class77_poc.rs\<close>, its analysis of buffers and its \<open>main\<close> over a record of system calls.
  \<^item> This theory: the walk as a whole.

  \<^bold>\<open>What is shown.\<close> The main results are that a serial walk yields the depth first sequence \<open>emit\<close> of
  the tree of listings; that the consumer yields the same for every order in which results arrive; that
  every interleaving of the workers sends every result exactly once, so the finished parallel walk equals
  the serial one, down to the raw bytes of \<open>getdents64\<close> on Linux and of \<open>NtQueryDirectoryFileEx\<close> on Windows, for
  every builder that follows no links unless it sorts or has a client callback (\<open>streaming_safe\<close>) and, on Windows, without
  directories that are reparse points;
  that every fair execution of the workers finishes when the channels have room for the tree, so that the equality with the
  serial walk is total and not only one of finished walks; that a walk with a depth limit
  and without a client callback ends, and that a dropped walk ends after a bounded number of steps; that the total of \<open>du\<close>, a client of the whole crate, is
  the sum over the files of the tree; that an error keeps its context in its text; that the parser and the \<open>main\<close> of the
  class 77 example stay inside their buffers and agree with the parser of the crate. Several theorems state behaviour that differs from the comments of the source: the scheduling
  order of weights, streaming beside followed links and junctions, circles of links entered through a
  link, the single worker on a wide directory, a worker that a stop does not wake, several roots, the descriptor of the
  latency probe, the last record of a buffer in the class 77 example. Those about followed links, junctions and circles are
  stated for every system and listing with the shape in question.

  \<^bold>\<open>Modelling choices.\<close> \<open>usize\<close> is \<open>nat\<close> with the saturating operations written out where the source uses
  them; counters that can wrap and all fields of system structures are words. Operating system calls,
  channels, the clock and the client's callback are parameters: records of functions over an abstract
  state, with what the crate relies on stated as named predicates (\<open>serves\<close> for \<open>getdents64\<close>, \<open>nt_serves\<close> for
  \<open>NtQueryDirectoryFileEx\<close>, \<open>stable_fs\<close> and \<open>stable_nt\<close>, \<open>streams_ok\<close>, the worlds of the two queues). Reads outside
  a buffer are the value \<open>None\<close>. The path syntax of Windows is a parameter, that of Unix is modelled. Loops that wait for another thread or for the
  kernel are \<open>partial_function (option)\<close>, where \<open>None\<close> is not returning, and each has a theorem that it
  returns. \<open>read_tree n\<close> takes fuel for the depth of the tree of listings; \<open>depth_limited_walk_ends\<close>
  shows that the depth limit bounds it. In \<open>Par_Walk\<close> the result channel always accepts a result, that is
  the consumer keeps draining it, or there is room for all of them (\<open>sent_bounded\<close>), and the parallel reads of a walk see one
  file system. Fairness is weak fairness of each thread; a wait may time out early any number of times in between.

  \<^bold>\<open>Not modelled.\<close> rayon, crossbeam, the io_uring library and \<open>std\<close>'s system calls beyond the behaviour the crate relies on;
  the lifetime of the buffers of an io_uring batch that fails or is interrupted while submissions are in flight
  (\<open>batch_statx_chunk\<close>); that two latency probes of one path may differ (\<open>probe_latency\<close>);
  \<open>Debug\<close> output; \<open>core/mod.rs\<close>, which only re-exports; the fixed texts, elapsed times and rates that the examples print (what
  they print with content is an event or a line of the model); benchmarks and tests, which only drive the crate.
\<close>

section \<open>A small walk for the witnesses\<close>

text \<open>A root directory \<open>r\<close> with the subdirectory \<open>a\<close>, the file \<open>b\<close> and the unreadable subdirectory \<open>c\<close>.\<close>

definition demo_entry :: "usize \<Rightarrow> path \<Rightarrow> os_string \<Rightarrow> u32 \<Rightarrow> error + unit dir_entry" where
  "demo_entry depth parent name mode = from_raw () depth parent None None name (UnixFileType mode) None"

definition demo_callback :: "(unit, unit) read_dir_callback" where
  "demo_callback spec =
     (if spec_path spec = [114]
      then Inr (read_dir_new () [demo_entry 1 [114] [97] S_IFDIR, demo_entry 1 [114] [98] S_IFREG,
                                 demo_entry 1 [114] [99] S_IFDIR])
      else if spec_path spec = [114, 47, 97] then Inr (read_dir_new () [])
      else Inl (error_from_io 1 (OsError 13 OtherKind)))"

definition demo_root :: "unit entry_result list" where
  "demo_root = [demo_entry 0 [] [114] S_IFDIR]"

definition demo_spec :: "unit read_dir_spec" where
  "demo_spec = \<lparr>spec_depth = 0, spec_path = [114], spec_client_read_state = (),
                spec_follow_link_ancestors = None\<rparr>"

definition demo_tree :: "(unit, unit) read_result otree" where
  "demo_tree = ONode (demo_callback demo_spec)
     [ONode (Inr (read_dir_new () [])) [], ONode (Inl (error_from_io 1 (OsError 13 OtherKind))) []]"

lemmas demo_defs = demo_entry_def demo_callback_def demo_root_def demo_spec_def demo_tree_def

lemma demo_root_specs: "root_specs demo_root () = [demo_spec]"
  by code_simp

lemma demo_has_tree: "has_tree demo_callback demo_spec demo_tree"
  unfolding has_tree_def by (rule exI [of _ 2]) code_simp

section \<open>A whole walk\<close>

text \<open>
  C5. A serial walk: with a single directory to descend into at the root, whose tree of read
  directories is finite, driving the iterator to its end returns, and what it yields is the
  root entries and everything below them in depth first order, as \<open>emit\<close> specifies.
\<close>

theorem serial_walk_yields_emit:
  assumes "root_specs roots st = [spec]" and "has_tree callback spec t"
  shows "collect (read_dir_iter_next callback ops)
           (dir_entry_iter_new roots Serial started m st n w) = Some (emit m roots [t])"
  using assms by (rule serial_run)

theorem serial_walk_yields_emit_witness:
  "collect (read_dir_iter_next demo_callback arrived_world)
     (dir_entry_iter_new demo_root Serial True 1 () 256 ([], 0)) = Some (emit 1 demo_root [demo_tree])
   \<and> length (emit 1 demo_root [demo_tree]) = 3"
proof -
  have "length (emit 1 demo_root [demo_tree]) = 3" by code_simp
  with serial_walk_yields_emit [OF demo_root_specs demo_has_tree] show ?thesis by simp
qed

text \<open>
  C6. The parallel walk yields the same entries in the same order as the serial walk, whatever
  the order in which the workers' results arrive: the shared objects keep their contract, the
  results sent are those of the tree with their positions, and the walk is not stopped.
\<close>

theorem parallel_walk_yields_serial_order:
  assumes "root_specs roots st = [spec]" and "has_tree callback spec t"
    and "oq_world_ok ops unreceived" and "oq_clock_ok ops clock"
    and "oq_sent_by ops unreceived clock T" and "never_stopped ops"
    and "unreceived w = mset (label (index_path_new [0]) t)"
    and "p \<noteq> Serial" and "started"
  shows "collect (read_dir_iter_next callback ops) (dir_entry_iter_new roots p started m st n w) =
         collect (read_dir_iter_next callback ops) (dir_entry_iter_new roots Serial started m st n w)"
  unfolding parallel_run [OF assms] serial_run [OF assms(1,2)] ..

theorem parallel_walk_yields_serial_order_witness:
  "collect (read_dir_iter_next demo_callback arrived_world)
     (dir_entry_iter_new demo_root (RayonNewPool 4) True 0 () 256
        (rev (label (index_path_new [0]) demo_tree), 0)) =
   collect (read_dir_iter_next demo_callback arrived_world)
     (dir_entry_iter_new demo_root Serial True 0 () 256
        (rev (label (index_path_new [0]) demo_tree), 0))"
  by (rule parallel_walk_yields_serial_order [OF demo_root_specs demo_has_tree arrived_world_ok])
    simp_all

section \<open>Workers and consumer together\<close>

text \<open>
  C4. A whole parallel walk, workers and consumer: for every interleaving of the workers that
  ends without a stop, the consumer that receives their results in the order in which they were
  sent yields exactly the entries of a serial walk, in the same order.
\<close>

theorem parallel_execution_equals_serial:
  assumes "par_reachable par_cb cap (par_init k spec) s" and "ps_done s" and "\<not> ps_stop s"
    and "streams_ok par_cb" and "same_listings cb par_cb"
    and "root_specs roots st = [spec]" and "read_tree n cb spec = Some t"
    and "length (preorder t) + 2 * k < 2 ^ 64" and "p \<noteq> Serial"
  shows "collect (read_dir_iter_next cb arrived_world)
           (dir_entry_iter_new roots p True m st max_size (ps_sent s, 0)) =
         collect (read_dir_iter_next cb arrived_world)
           (dir_entry_iter_new roots Serial True m st max_size ([], 0))"
proof -
  have "has_tree cb spec t" using assms(7) by (auto simp: has_tree_def)
  show ?thesis unfolding parallel_execution [OF assms] serial_run [OF assms(6) \<open>has_tree cb spec t\<close>] by simp
qed

text \<open>The streaming run of two threads, whose results arrive out of order.\<close>

definition listing_callback :: "(unit, unit) read_dir_callback" where
  "listing_callback spec = Inr (read_dir_new () (if spec_path spec = [114] then wide_listing else []))"

theorem parallel_execution_equals_serial_witness:
  "collect (read_dir_iter_next listing_callback arrived_world)
     (dir_entry_iter_new demo_root (RayonNewPool 2) True 0 () 256 (ps_sent finished_run, 0)) =
   collect (read_dir_iter_next listing_callback arrived_world)
     (dir_entry_iter_new demo_root Serial True 0 () 256 ([], 0))"
proof -
  have flags: "ps_done finished_run" "\<not> ps_stop finished_run" by code_simp+
  have same: "same_listings listing_callback streaming_callback"
    by (simp add: same_listings_def listing_callback_def streaming_callback_def full_result_def
        forget_streamed_def read_dir_new_def)
  have spec: "root_specs demo_root () = [example_spec [114]]" by code_simp
  have "\<not> Option.is_none (read_tree 2 listing_callback (example_spec [114]))" by code_simp
  then obtain t where t: "read_tree 2 listing_callback (example_spec [114]) = Some t"
    by (auto simp: Option.is_none_def)
  have "length (preorder (the (read_tree 2 listing_callback (example_spec [114])))) = 3" by code_simp
  then have "length (preorder t) + 2 * 2 < 2 ^ 64" using t by simp
  then show ?thesis
    by (intro parallel_execution_equals_serial
        [OF finished_run_reachable flags example_streams_ok(2) same spec t]) simp_all
qed

section \<open>A whole walk on Linux\<close>

text \<open>
  C2. The whole crate on Linux, from the builder to the entries: on a file system that does not
  change (\<open>stable_fs\<close>), for a builder that does not follow links unless it also sorts or has a client
  callback (\<open>streaming_safe\<close>), with workers that stream subdirectories out of the raw \<open>getdents64\<close> records,
  every finished parallel walk that was not stopped yields the entries of the serial walk of the same
  builder, in the same order, for a root that is a directory with a finite tree. For an unsorted walk that follows links without a callback it fails
  (\<open>Walk_Linux\<close>).
\<close>

theorem linux_parallel_walk_equals_serial:
  assumes "stable_fs ops st" and "streaming_safe (wd_options self)"
    and "par_reachable (linux_streaming ops dflt (wd_options self) st) cap (par_init k spec) s"
    and "ps_done s" and "\<not> ps_stop s"
    and "root_results unix_platform (lo_fs ops) dflt self = (rst, roots)" and "root_specs roots rst = [spec]"
    and "read_tree n (linux_serial ops dflt (wd_options self) st) spec = Some t"
    and "length (preorder t) + 2 * k < 2 ^ 64" and "opt_parallelism (wd_options self) \<noteq> Serial"
  shows "collect (read_dir_iter_next (linux_serial ops dflt (wd_options self) st) arrived_world)
           (walk_into_iter unix_platform (lo_fs ops) dflt self True (ps_sent s, 0)) =
         collect (read_dir_iter_next (linux_serial ops dflt (wd_options self) st) arrived_world)
           (walk_into_iter unix_platform (lo_fs ops) dflt (set_parallelism Serial self) True ([], 0))"
  using assms by (rule linux.whole_walk)

definition linux_dirs :: "path \<Rightarrow> dirent list list option" where
  "linux_dirs p =
     (if p = [114] then Some [[example_dirent DT_DIR [46], example_dirent DT_DIR [97]], [example_dirent DT_REG [98]]]
      else if p = [114, 47, 97] then Some [[example_dirent DT_DIR [46], example_dirent DT_REG [99]]]
      else None)"

definition linux_walk :: "(unit, unit, unit) walk_dir" where
  "linux_walk = set_parallelism (RayonNewPool 1) (walk_dir_new () [114])"

definition linux_run :: "(unit, unit) par_state" where
  "linux_run = the (par_run (listed_closure linux_dirs () (wd_options linux_walk)) 8 (replicate 24 0)
     (par_init 1 (example_spec [114])))"

lemma linux_closure:
  "linux_streaming (example_linux linux_dirs) () (wd_options linux_walk) example_state =
   listed_closure linux_dirs () (wd_options linux_walk)"
  "stable_fs (example_linux linux_dirs) example_state" "streaming_safe (wd_options linux_walk)"
proof -
  have "well_formed_dir (the (linux_dirs [114]))" "well_formed_dir (the (linux_dirs [114, 47, 97]))"
    by code_simp+
  then have wf: "well_formed_dir chunks" if "linux_dirs p = Some chunks" for p chunks
    using that by (auto simp: linux_dirs_def split: if_splits)
  have opts: "\<not> opt_follow_links (wd_options linux_walk)" "\<not> opt_sort (wd_options linux_walk)"
    "opt_process_read_dir (wd_options linux_walk) = None"
    by (simp_all add: linux_walk_def setter_defs walk_dir_new_def)
  show "linux_streaming (example_linux linux_dirs) () (wd_options linux_walk) example_state =
      listed_closure linux_dirs () (wd_options linux_walk)"
    using wf opts(1) by (rule streaming_closure_listed)
  show "stable_fs (example_linux linux_dirs) example_state" using wf by (rule example_linux_stable)
  show "streaming_safe (wd_options linux_walk)" using opts by (simp add: streaming_safe_def)
qed

lemma linux_serial_tree:
  obtains t where "read_tree 3 (linux_serial (example_linux linux_dirs) () (wd_options linux_walk) example_state)
      (example_spec [114]) = Some t"
    and "length (preorder t) = 2"
proof -
  let ?par = "full_result (listed_closure linux_dirs () (wd_options linux_walk))"
  have "\<not> Option.is_none (read_tree 3 ?par (example_spec [114]))" by code_simp
  then obtain t where t: "read_tree 3 ?par (example_spec [114]) = Some t" by (auto simp: Option.is_none_def)
  have "length (preorder (the (read_tree 3 ?par (example_spec [114])))) = 2" by code_simp
  with t have len: "length (preorder t) = 2" by simp
  note same = linux.closures_same_listings [OF linux_closure(2,3), of "()", unfolded same_listings_comp linux_closure(1)]
  show thesis using forget_streamed_tree [OF same [symmetric] t] len that by metis
qed

theorem linux_parallel_walk_equals_serial_witness:
  "collect (read_dir_iter_next
       (linux_serial (example_linux linux_dirs) () (wd_options linux_walk) example_state) arrived_world)
     (walk_into_iter unix_platform example_fs () linux_walk True (ps_sent linux_run, 0)) =
   collect (read_dir_iter_next
       (linux_serial (example_linux linux_dirs) () (wd_options linux_walk) example_state) arrived_world)
     (walk_into_iter unix_platform example_fs () (set_parallelism Serial linux_walk) True ([], 0))"
proof -
  have run: "par_reachable (linux_streaming (example_linux linux_dirs) () (wd_options linux_walk) example_state) 8
      (par_init 1 (example_spec [114])) linux_run"
    unfolding linux_closure(1) linux_run_def by (rule par_run_reachable_the) code_simp
  have flags: "ps_done linux_run" "\<not> ps_stop linux_run" by code_simp+
  have fs: "lo_fs (example_linux linux_dirs) = example_fs" by (simp add: example_linux_def)
  have roots: "root_results unix_platform (lo_fs (example_linux linux_dirs)) () linux_walk =
      ((), snd (root_results unix_platform example_fs () linux_walk))"
    unfolding fs by (cases "root_results unix_platform example_fs () linux_walk") simp
  have spec: "root_specs (snd (root_results unix_platform example_fs () linux_walk)) () = [example_spec [114]]" by code_simp
  obtain t where t: "read_tree 3 (linux_serial (example_linux linux_dirs) () (wd_options linux_walk) example_state)
      (example_spec [114]) = Some t" and "length (preorder t) = 2"
    by (rule linux_serial_tree)
  then have size: "length (preorder t) + 2 * 1 < 2 ^ 64" by simp
  have par: "opt_parallelism (wd_options linux_walk) \<noteq> Serial"
    by (simp add: linux_walk_def setter_defs)
  from linux_parallel_walk_equals_serial [OF linux_closure(2,3) run flags roots spec t size par]
  show ?thesis unfolding fs .
qed

text \<open>
  C1. The whole crate on Linux runs to its end: on a file system that does not change (\<open>stable_fs\<close>), for a builder that does not
  follow links unless it also sorts or has a client callback (\<open>streaming_safe\<close>), and with channels that have room for the results
  of the tree, every fair execution of the workers finishes, all of them leave, and the consumer then yields the entries of the
  serial walk of the same builder, in the same order, for a root that is a directory with a finite tree. That the walk finishes is part of the conclusion, not a hypothesis.
\<close>

theorem linux_fair_walk_yields_serial_order:
  assumes "stable_fs ops st" and "streaming_safe (wd_options self)"
    and "r 0 = par_init k spec" and "0 < k"
    and "par_execution (linux_streaming ops dflt (wd_options self) st) (opt_channel_capacity (wd_options self)) r"
    and "\<And>i. i < k \<Longrightarrow>
      fair_thread (linux_streaming ops dflt (wd_options self) st) (opt_channel_capacity (wd_options self)) r i"
    and "root_results unix_platform (lo_fs ops) dflt self = (rst, roots)" and "root_specs roots rst = [spec]"
    and "read_tree n (linux_serial ops dflt (wd_options self) st) spec = Some t"
    and "length (preorder t) \<le> opt_channel_capacity (wd_options self)"
    and "length (preorder t) + 2 * k < 2 ^ 64" and "opt_parallelism (wd_options self) \<noteq> Serial"
  shows "\<exists>m. ps_done (r m) \<and> ps_pcs (r m) = replicate k pc.Exited \<and>
    collect (read_dir_iter_next (linux_serial ops dflt (wd_options self) st) arrived_world)
      (walk_into_iter unix_platform (lo_fs ops) dflt self True (ps_sent (r m), 0)) =
    collect (read_dir_iter_next (linux_serial ops dflt (wd_options self) st) arrived_world)
      (walk_into_iter unix_platform (lo_fs ops) dflt (set_parallelism Serial self) True ([], 0))"
  using assms by (rule linux.fair_whole_walk)

definition linux_rounds :: "nat \<Rightarrow> (unit, unit) par_state" where
  "linux_rounds = round_robin (linux_streaming (example_linux linux_dirs) () (wd_options linux_walk) example_state) 4096 3
     (par_init 3 (example_spec [114]))"

theorem linux_fair_walk_yields_serial_order_witness:
  "\<exists>m. ps_done (linux_rounds m) \<and> ps_pcs (linux_rounds m) = [pc.Exited, pc.Exited, pc.Exited] \<and>
    collect (read_dir_iter_next
        (linux_serial (example_linux linux_dirs) () (wd_options linux_walk) example_state) arrived_world)
      (walk_into_iter unix_platform example_fs () linux_walk True (ps_sent (linux_rounds m), 0)) =
    collect (read_dir_iter_next
        (linux_serial (example_linux linux_dirs) () (wd_options linux_walk) example_state) arrived_world)
      (walk_into_iter unix_platform example_fs () (set_parallelism Serial linux_walk) True ([], 0))"
proof -
  let ?par = "linux_streaming (example_linux linux_dirs) () (wd_options linux_walk) example_state"
  have cap: "opt_channel_capacity (wd_options linux_walk) = 4096"
    by (simp add: linux_walk_def setter_defs walk_dir_new_def)
  have fs: "lo_fs (example_linux linux_dirs) = example_fs" by (simp add: example_linux_def)
  have start: "linux_rounds 0 = par_init 3 (example_spec [114])" by (simp add: linux_rounds_def)
  have run: "par_execution ?par (opt_channel_capacity (wd_options linux_walk)) linux_rounds"
    unfolding linux_rounds_def cap by (rule round_robin_execution) (simp add: par_init_def)
  have fair: "fair_thread ?par (opt_channel_capacity (wd_options linux_walk)) linux_rounds i" if "i < 3" for i
    unfolding linux_rounds_def cap using that by (rule round_robin_fair)
  have roots: "root_results unix_platform (lo_fs (example_linux linux_dirs)) () linux_walk =
      ((), snd (root_results unix_platform example_fs () linux_walk))"
    unfolding fs by (cases "root_results unix_platform example_fs () linux_walk") simp
  have spec: "root_specs (snd (root_results unix_platform example_fs () linux_walk)) () = [example_spec [114]]" by code_simp
  obtain t where t: "read_tree 3 (linux_serial (example_linux linux_dirs) () (wd_options linux_walk) example_state)
      (example_spec [114]) = Some t" and "length (preorder t) = 2"
    by (rule linux_serial_tree)
  then have size: "length (preorder t) \<le> opt_channel_capacity (wd_options linux_walk)"
    "length (preorder t) + 2 * 3 < 2 ^ 64" by (simp_all add: cap)
  have par: "opt_parallelism (wd_options linux_walk) \<noteq> Serial" by (simp add: linux_walk_def setter_defs)
  have threads: "replicate 3 pc.Exited = [pc.Exited, pc.Exited, pc.Exited]" by (simp add: numeral_3_eq_3)
  from linux_fair_walk_yields_serial_order
    [OF linux_closure(2,3) start zero_less_numeral run fair roots spec t size par]
  show ?thesis unfolding fs threads by simp
qed

section \<open>A client on Linux\<close>

abbreviation linux_du :: "'k linux_ops \<Rightarrow> path option \<Rightarrow> (unit, u64 option, unit) walk_dir" where
  "linux_du ops \<equiv> du_walk unix_platform (lo_fs ops)"

text \<open>
  C26. The example \<open>du\<close> over the whole crate on Linux: its callback stores the length of every file, and the total it adds up
  from a finished parallel walk is the sum of the lengths of all files of the tree, each entry of the serial order counted
  once and no directory counted, as long as the sum fits into 64 bits.
\<close>

theorem linux_du_totals_files:
  assumes "stable_fs ops st"
    and "par_reachable (linux_streaming ops None (wd_options (linux_du ops arg)) st) cap (par_init k spec) s"
    and "ps_done s" and "\<not> ps_stop s"
    and "root_results unix_platform (lo_fs ops) None (linux_du ops arg) = (rst, roots)" and "root_specs roots rst = [spec]"
    and "read_tree n (linux_serial ops None (wd_options (linux_du ops arg)) st) spec = Some t"
    and "length (preorder t) + 2 * k < 2 ^ 64"
    and "(\<Sum>e \<leftarrow> walk_files (emit 0 roots [t]). unat (du_len unix_platform (lo_fs ops) e)) < 2 ^ 64"
  shows "\<exists>rs. collect (read_dir_iter_next (linux_serial ops None (wd_options (linux_du ops arg)) st) arrived_world)
             (walk_into_iter unix_platform (lo_fs ops) None (linux_du ops arg) True (ps_sent s, 0)) = Some rs \<and>
           unat (du_total rs) = (\<Sum>e \<leftarrow> walk_files (emit 0 roots [t]). unat (du_len unix_platform (lo_fs ops) e))"
proof -
  let ?P = "du_marked unix_platform (lo_fs ops)" and ?len = "du_len unix_platform (lo_fs ops)"
  note opts = du_walk_options [of unix_platform "lo_fs ops" arg]
  have "all_entries ?P roots"
    using root_results_processed [OF opts(1) du_process_marks assms(5)] .
  moreover have "linux_client.callback_gives None (du_process unix_platform (lo_fs ops)) ?P"
    unfolding linux_client.callback_gives_def by (simp add: du_process_marks)
  moreover have "has_tree (linux_serial ops None (wd_options (linux_du ops arg)) st) spec t" using assms(7) by (auto simp: has_tree_def)
  ultimately have "all_entries ?P (emit 0 roots [t])"
    using linux_client.walk_processed [OF opts(1)] du_marked_error by blast
  then have "du_total (emit 0 roots [t]) = sum_list (map ?len (walk_files (emit 0 roots [t])))"
    by (simp add: du_total_def fold_du_count)
  moreover have "unat (sum_list (map ?len (walk_files (emit 0 roots [t])))) =
      (\<Sum>e \<leftarrow> walk_files (emit 0 roots [t]). unat (?len e))"
    using unat_sum_list_u64 [of "map ?len (walk_files (emit 0 roots [t]))"] assms(9) by (simp add: comp_def)
  moreover have "collect (read_dir_iter_next (linux_serial ops None (wd_options (linux_du ops arg)) st) arrived_world)
      (walk_into_iter unix_platform (lo_fs ops) None (linux_du ops arg) True (ps_sent s, 0)) = Some (emit 0 roots [t])"
    using linux.whole_parallel_walk [OF assms(1) opts(4) assms(2-8)] opts(2,3) by simp
  ultimately show ?thesis by simp
qed

text \<open>Two files of 4096 bytes, \<open>r/b\<close> and \<open>r/a/c\<close>.\<close>

definition du_opts :: "(unit, u64 option, unit) walk_dir_options" where
  "du_opts = wd_options (du_walk unix_platform example_fs (Some [114]))"

definition du_run :: "(u64 option, unit) par_state" where
  "du_run = the (par_run (listed_closure linux_dirs None du_opts) 8 (replicate 24 0) (par_init 1 (example_spec [114])))"

definition du_roots :: "u64 option entry_result list" where
  "du_roots = snd (root_results unix_platform example_fs None (du_walk unix_platform example_fs (Some [114])))"

lemma linux_dirs_well_formed: "linux_dirs p = Some chunks \<Longrightarrow> well_formed_dir chunks"
proof -
  have "well_formed_dir (the (linux_dirs [114]))" "well_formed_dir (the (linux_dirs [114, 47, 97]))" by code_simp+
  then show "linux_dirs p = Some chunks \<Longrightarrow> ?thesis" by (auto simp: linux_dirs_def split: if_splits)
qed

lemma du_closure:
  "linux_streaming (example_linux linux_dirs) None du_opts example_state = listed_closure linux_dirs None du_opts"
  using du_walk_options(5) [of unix_platform example_fs "Some [114]"]
  by (intro streaming_closure_listed linux_dirs_well_formed) (simp_all add: du_opts_def)

lemma du_stable: "stable_fs (example_linux linux_dirs) example_state"
  by (rule example_linux_stable) (rule linux_dirs_well_formed)

lemma du_tree:
  obtains t where "read_tree 3 (linux_serial (example_linux linux_dirs) None du_opts example_state) (example_spec [114]) = Some t"
    and "length (preorder t) = 2"
    and "(\<Sum>e \<leftarrow> walk_files (emit 0 du_roots [t]). unat (du_len unix_platform example_fs e)) = 8192"
proof -
  let ?par = "full_result (listed_closure linux_dirs None du_opts)"
  have "\<not> Option.is_none (read_tree 3 ?par (example_spec [114]))" by code_simp
  then obtain t where t: "read_tree 3 ?par (example_spec [114]) = Some t" by (auto simp: Option.is_none_def)
  have "length (preorder (the (read_tree 3 ?par (example_spec [114])))) = 2"
    "(\<Sum>e \<leftarrow> walk_files (emit 0 du_roots [the (read_tree 3 ?par (example_spec [114]))]).
       unat (du_len unix_platform example_fs e)) = 8192" by code_simp+
  with t have len: "length (preorder t) = 2"
    "(\<Sum>e \<leftarrow> walk_files (emit 0 du_roots [t]). unat (du_len unix_platform example_fs e)) = 8192" by simp_all
  have "streaming_safe du_opts" using du_walk_options(4) by (simp add: du_opts_def)
  note same = linux.closures_same_listings [OF du_stable this, of None, unfolded same_listings_comp du_closure]
  obtain t' where "read_tree 3 (linux_serial (example_linux linux_dirs) None du_opts example_state) (example_spec [114]) = Some t'"
    "length (preorder t') = length (preorder t)" "emit 0 du_roots [t'] = emit 0 du_roots [t]"
    using same [symmetric] t by (rule forget_streamed_tree)
  with len that show thesis by simp
qed

theorem linux_du_totals_files_witness:
  "\<exists>rs. collect (read_dir_iter_next (linux_serial (example_linux linux_dirs) None du_opts example_state) arrived_world)
       (walk_into_iter unix_platform example_fs None (du_walk unix_platform example_fs (Some [114])) True
         (ps_sent du_run, 0)) = Some rs \<and> unat (du_total rs) = 8192"
proof -
  have fs: "lo_fs (example_linux linux_dirs) = example_fs" by (simp add: example_linux_def)
  have run: "par_reachable (linux_streaming (example_linux linux_dirs) None du_opts example_state) 8
      (par_init 1 (example_spec [114])) du_run"
    unfolding du_closure du_run_def by (rule par_run_reachable_the) code_simp
  have flags: "ps_done du_run" "\<not> ps_stop du_run" by code_simp+
  have roots: "root_results unix_platform example_fs None (du_walk unix_platform example_fs (Some [114])) = ((), du_roots)"
    unfolding du_roots_def
    by (cases "root_results unix_platform example_fs None (du_walk unix_platform example_fs (Some [114]))") simp
  have spec: "root_specs du_roots () = [example_spec [114]]" by code_simp
  obtain t where t: "read_tree 3 (linux_serial (example_linux linux_dirs) None du_opts example_state) (example_spec [114]) = Some t"
    "length (preorder t) = 2"
    "(\<Sum>e \<leftarrow> walk_files (emit 0 du_roots [t]). unat (du_len unix_platform example_fs e)) = 8192"
    by (rule du_tree)
  have size: "length (preorder t) + 2 * 1 < 2 ^ 64"
    "(\<Sum>e \<leftarrow> walk_files (emit 0 du_roots [t]). unat (du_len unix_platform example_fs e)) < 2 ^ 64"
    using t(2,3) by simp_all
  from linux_du_totals_files [of "example_linux linux_dirs" example_state "Some [114]", unfolded fs, folded du_opts_def,
      OF du_stable run [unfolded fs] flags roots spec t(1) [unfolded fs] size]
  show ?thesis unfolding t(3) fs .
qed

section \<open>A whole walk on Windows\<close>

text \<open>
  C3. The whole crate on Windows, from the builder to the entries: on a file system that does not
  change and has no directories that are reparse points (\<open>stable_nt\<close>), for a builder that does not follow
  links unless it also sorts or has a client callback (\<open>streaming_safe\<close>), with workers that stream
  subdirectories out of the raw records of \<open>NtQueryDirectoryFileEx\<close>, every finished parallel walk that was
  not stopped yields the entries of the serial walk of the same builder, in the same order, for a root
  that is a directory with a finite tree. Without
  either condition it can fail (\<open>Walk_Windows\<close> has the case of reparse points).
\<close>

theorem windows_parallel_walk_equals_serial:
  assumes "stable_nt ops st" and "streaming_safe (wd_options self)"
    and "par_reachable (windows_streaming ops dflt (wd_options self) st) cap (par_init k spec) s"
    and "ps_done s" and "\<not> ps_stop s"
    and "root_results (wo_platform ops) (wo_fs ops) dflt self = (rst, roots)" and "root_specs roots rst = [spec]"
    and "read_tree n (windows_serial ops dflt (wd_options self) st) spec = Some t"
    and "length (preorder t) + 2 * k < 2 ^ 64" and "opt_parallelism (wd_options self) \<noteq> Serial"
  shows "collect (read_dir_iter_next (windows_serial ops dflt (wd_options self) st) arrived_world)
           (walk_into_iter (wo_platform ops) (wo_fs ops) dflt self True (ps_sent s, 0)) =
         collect (read_dir_iter_next (windows_serial ops dflt (wd_options self) st) arrived_world)
           (walk_into_iter (wo_platform ops) (wo_fs ops) dflt (set_parallelism Serial self) True ([], 0))"
  using assms by (rule windows.whole_walk)

text \<open>As on Linux, a fair walk finishes, with the same result.\<close>

lemma windows_fair_walk:
  assumes "stable_nt ops st" and "streaming_safe (wd_options self)"
    and "r 0 = par_init k spec" and "0 < k"
    and "par_execution (windows_streaming ops dflt (wd_options self) st) (opt_channel_capacity (wd_options self)) r"
    and "\<And>i. i < k \<Longrightarrow>
      fair_thread (windows_streaming ops dflt (wd_options self) st) (opt_channel_capacity (wd_options self)) r i"
    and "root_results (wo_platform ops) (wo_fs ops) dflt self = (rst, roots)" and "root_specs roots rst = [spec]"
    and "read_tree n (windows_serial ops dflt (wd_options self) st) spec = Some t"
    and "length (preorder t) \<le> opt_channel_capacity (wd_options self)"
    and "length (preorder t) + 2 * k < 2 ^ 64" and "opt_parallelism (wd_options self) \<noteq> Serial"
  shows "\<exists>m. ps_done (r m) \<and> ps_pcs (r m) = replicate k pc.Exited \<and>
    collect (read_dir_iter_next (windows_serial ops dflt (wd_options self) st) arrived_world)
      (walk_into_iter (wo_platform ops) (wo_fs ops) dflt self True (ps_sent (r m), 0)) =
    collect (read_dir_iter_next (windows_serial ops dflt (wd_options self) st) arrived_world)
      (walk_into_iter (wo_platform ops) (wo_fs ops) dflt (set_parallelism Serial self) True ([], 0))"
  using assms by (rule windows.fair_whole_walk)

definition windows_dirs :: "path \<Rightarrow> nt_record list list option" where
  "windows_dirs p =
     (if p = [114] then Some [[example_record 0x10 [46], example_record 0x10 [97]], [example_record 0x20 [98]]]
      else if p = [114, 92, 97] then Some [[example_record 0x10 [46], example_record 0x20 [99]]]
      else None)"

definition windows_run :: "(unit, unit) par_state" where
  "windows_run = the (par_run (nt_closure windows_dirs () (wd_options windows_walk)) 8 (replicate 24 0)
     (par_init 1 (example_spec [114])))"

lemma windows_closure:
  "windows_streaming (example_win windows_dirs) () (wd_options windows_walk) example_win_state =
   nt_closure windows_dirs () (wd_options windows_walk)"
  "stable_nt (example_win windows_dirs) example_win_state" "streaming_safe (wd_options windows_walk)"
proof -
  have dirs: "nt_well_formed (the (windows_dirs [114]))" "nt_well_formed (the (windows_dirs [114, 92, 97]))"
    "plain_infos (nt_listed (concat (the (windows_dirs [114]))))"
    "plain_infos (nt_listed (concat (the (windows_dirs [114, 92, 97]))))"
    by code_simp+
  then have wf: "nt_well_formed chunks \<and> plain_infos (nt_listed (concat chunks))"
    if "windows_dirs p = Some chunks" for p chunks
    using that by (auto simp: windows_dirs_def split: if_splits)
  have opts: "\<not> opt_follow_links (wd_options windows_walk)" "\<not> opt_sort (wd_options windows_walk)"
    "opt_process_read_dir (wd_options windows_walk) = None"
    by (simp_all add: windows_walk_def setter_defs walk_dir_new_def)
  show "windows_streaming (example_win windows_dirs) () (wd_options windows_walk) example_win_state =
      nt_closure windows_dirs () (wd_options windows_walk)"
    using wf opts(2,3) by (intro windows_streaming_listed) blast+
  show "stable_nt (example_win windows_dirs) example_win_state" using wf by (rule example_win_stable)
  show "streaming_safe (wd_options windows_walk)" using opts by (simp add: streaming_safe_def)
qed

lemma windows_serial_tree:
  obtains t where "read_tree 3 (windows_serial (example_win windows_dirs) () (wd_options windows_walk) example_win_state)
      (example_spec [114]) = Some t"
    and "length (preorder t) = 2"
proof -
  let ?par = "full_result (nt_closure windows_dirs () (wd_options windows_walk))"
  have "\<not> Option.is_none (read_tree 3 ?par (example_spec [114]))" by code_simp
  then obtain t where t: "read_tree 3 ?par (example_spec [114]) = Some t" by (auto simp: Option.is_none_def)
  have "length (preorder (the (read_tree 3 ?par (example_spec [114])))) = 2" by code_simp
  with t have len: "length (preorder t) = 2" by simp
  note same = windows.closures_same_listings [OF windows_closure(2,3), of "()", unfolded same_listings_comp windows_closure(1)]
  show thesis using forget_streamed_tree [OF same [symmetric] t] len that by metis
qed

theorem windows_parallel_walk_equals_serial_witness:
  "collect (read_dir_iter_next
       (windows_serial (example_win windows_dirs) () (wd_options windows_walk) example_win_state) arrived_world)
     (walk_into_iter example_platform example_fs () windows_walk True (ps_sent windows_run, 0)) =
   collect (read_dir_iter_next
       (windows_serial (example_win windows_dirs) () (wd_options windows_walk) example_win_state) arrived_world)
     (walk_into_iter example_platform example_fs () (set_parallelism Serial windows_walk) True ([], 0))"
proof -
  have run: "par_reachable (windows_streaming (example_win windows_dirs) () (wd_options windows_walk) example_win_state) 8
      (par_init 1 (example_spec [114])) windows_run"
    unfolding windows_closure(1) windows_run_def by (rule par_run_reachable_the) code_simp
  have flags: "ps_done windows_run" "\<not> ps_stop windows_run" by code_simp+
  have fs: "wo_fs (example_win windows_dirs) = example_fs" "wo_platform (example_win windows_dirs) = example_platform"
    by (simp_all add: example_win_def)
  have roots: "root_results (wo_platform (example_win windows_dirs)) (wo_fs (example_win windows_dirs)) () windows_walk =
      ((), snd (root_results example_platform example_fs () windows_walk))"
    unfolding fs by (cases "root_results example_platform example_fs () windows_walk") simp
  have spec: "root_specs (snd (root_results example_platform example_fs () windows_walk)) () = [example_spec [114]]"
    by code_simp
  obtain t where t: "read_tree 3 (windows_serial (example_win windows_dirs) () (wd_options windows_walk) example_win_state)
      (example_spec [114]) = Some t" and "length (preorder t) = 2"
    by (rule windows_serial_tree)
  then have size: "length (preorder t) + 2 * 1 < 2 ^ 64" by simp
  have par: "opt_parallelism (wd_options windows_walk) \<noteq> Serial"
    by (simp add: windows_walk_def setter_defs)
  from windows_parallel_walk_equals_serial [OF windows_closure(2,3) run flags roots spec t size par]
  show ?thesis unfolding fs .
qed

end
